(* ===== verification/GoPrelude.thy ===== *)
theory GoPrelude
  imports Main
begin

text \<open>
  Shared vocabulary of the development: bytes and strings, the outcome of a Go call that may
  panic, a loop that threads a state through a Go \<open>for\<close> statement, the iteration order of a Go
  map, decimal formatting as done by \<open>fmt.Sprintf\<close> with \<open>%d\<close> and \<open>%04d\<close>, and the named
  collections of facts that the component theories add to.
\<close>

named_theorems go_defs \<open>definitions of the modelled operations, unfolded together\<close>
named_theorems go_frame \<open>what an operation leaves unchanged\<close>

section \<open>Bytes\<close>

text \<open>A Go string and a Go \<open>[]byte\<close> are both sequences of 8-bit bytes: an Isabelle \<open>char\<close> is one byte.\<close>

type_synonym bytes = string

text \<open>Go instants are kept in nanoseconds since the Unix epoch; \<open>UnixMilli\<close> rounds down.\<close>

type_synonym time_ns = int

definition UnixMilli :: "time_ns \<Rightarrow> int" where
  "UnixMilli t = t div 1000000"

section \<open>Calls that may panic\<close>

text \<open>
  A Go call that mutates shared state either returns or panics; a panic carries the state at the
  point where it was raised, because the mutations made before it are not undone.
\<close>

datatype 's go = Returns 's | Panics 's

fun state_of :: "'s go \<Rightarrow> 's" where
  "state_of (Returns s) = s"
| "state_of (Panics s) = s"

fun returns :: "'s go \<Rightarrow> bool" where
  "returns (Returns s) = True"
| "returns (Panics s) = False"

fun andThen :: "'s go \<Rightarrow> ('s \<Rightarrow> 's go) \<Rightarrow> 's go" where
  "andThen (Returns s) f = f s"
| "andThen (Panics s) f = Panics s"

lemma returns_iff: "returns r \<longleftrightarrow> (\<exists>s. r = Returns s)"
  by (cases r) auto

lemma returns_andThen:
  "returns (andThen r f) \<longleftrightarrow> returns r \<and> returns (f (state_of r))"
  by (cases r) auto

lemma state_of_andThen:
  "state_of (andThen r f) = (if returns r then state_of (f (state_of r)) else state_of r)"
  by (cases r) auto

lemma andThen_assoc: "andThen (andThen r f) g = andThen r (\<lambda>s. andThen (f s) g)"
  by (cases r) auto

text \<open>A \<open>for _, x := range xs\<close> whose body mutates the state and may panic.\<close>

fun for_each :: "('a \<Rightarrow> 's \<Rightarrow> 's go) \<Rightarrow> 'a list \<Rightarrow> 's \<Rightarrow> 's go" where
  "for_each body [] s = Returns s"
| "for_each body (x # xs) s = andThen (body x s) (for_each body xs)"

lemma for_each_append:
  "for_each body (xs @ ys) s = andThen (for_each body xs s) (for_each body ys)"
  by (induction xs arbitrary: s)
    (auto simp: andThen_assoc intro!: arg_cong2 [where f = andThen] ext)

text \<open>What every iteration keeps, the loop keeps; a loop whose iterations return under an invariant returns.\<close>

lemma for_each_inv:
  assumes "P s"
    and "\<And>x s. x \<in> set xs \<Longrightarrow> P s \<Longrightarrow> P (state_of (body x s))"
  shows "P (state_of (for_each body xs s))"
  using assms
proof (induction xs arbitrary: s)
  case Nil
  then show ?case by simp
next
  case (Cons x xs)
  have "P (state_of (body x s))" using Cons.prems by simp
  then have "P (state_of (for_each body xs (state_of (body x s))))"
    using Cons.IH Cons.prems(2) by simp
  with \<open>P (state_of (body x s))\<close> show ?case
    by (simp add: state_of_andThen)
qed

lemma for_each_returns:
  assumes "P s"
    and "\<And>x s. x \<in> set xs \<Longrightarrow> P s \<Longrightarrow> returns (body x s) \<and> P (state_of (body x s))"
  shows "returns (for_each body xs s)"
  using assms
proof (induction xs arbitrary: s)
  case Nil
  then show ?case by simp
next
  case (Cons x xs)
  have "returns (body x s)" "P (state_of (body x s))" using Cons.prems by simp_all
  then show ?case
    using Cons.IH Cons.prems(2) by (simp add: returns_andThen)
qed

section \<open>Iterating over a Go map\<close>

text \<open>
  Go does not specify the order in which \<open>range\<close> visits a map. An operation that ranges over a
  map takes the order as an argument; \<open>range_order m ks\<close> says that \<open>ks\<close> is a possible order:
  every key once.
\<close>

definition range_order :: "('k \<Rightarrow> 'v option) \<Rightarrow> 'k list \<Rightarrow> bool" where
  "range_order m ks \<longleftrightarrow> distinct ks \<and> set ks = dom m"

lemma range_orderD:
  assumes "range_order m ks"
  shows "distinct ks" and "k \<in> set ks \<longleftrightarrow> m k \<noteq> None"
  using assms by (auto simp: range_order_def)

lemma range_order_length: "range_order m ks \<Longrightarrow> length ks = card (dom m)"
  by (auto simp: range_order_def distinct_card [symmetric])

lemma range_order_exists: "finite (dom m) \<Longrightarrow> \<exists>ks. range_order m ks"
  unfolding range_order_def by (metis finite_distinct_list)

lemma range_order_empty [simp]: "range_order Map.empty ks \<longleftrightarrow> ks = []"
  by (auto simp: range_order_def)

section \<open>Decimal formatting\<close>

definition digit_char :: "nat \<Rightarrow> char" where
  "digit_char d = char_of (48 + d)"

fun show_nat :: "nat \<Rightarrow> string" where
  "show_nat n = (if n < 10 then [digit_char n] else show_nat (n div 10) @ [digit_char (n mod 10)])"

declare show_nat.simps [simp del]

text \<open>\<open>%d\<close> of a signed integer.\<close>

definition show_int :: "int \<Rightarrow> string" where
  "show_int i = (if i < 0 then CHR ''-'' # show_nat (nat (- i)) else show_nat (nat i))"

text \<open>\<open>%0wd\<close> of a non-negative integer.\<close>

definition show_padded :: "nat \<Rightarrow> nat \<Rightarrow> string" where
  "show_padded w n = replicate (w - length (show_nat n)) (CHR ''0'') @ show_nat n"

fun read_nat :: "nat \<Rightarrow> string \<Rightarrow> nat" where
  "read_nat acc [] = acc"
| "read_nat acc (c # cs) = read_nat (10 * acc + (of_char c - 48)) cs"

lemma of_char_digit [simp]: "d < 10 \<Longrightarrow> (of_char (digit_char d) :: nat) = 48 + d"
  by (simp add: digit_char_def)

lemma read_nat_append: "read_nat acc (xs @ ys) = read_nat (read_nat acc xs) ys"
  by (induction xs arbitrary: acc) auto

lemma read_show_nat: "read_nat 0 (show_nat n) = n"
proof (induction n rule: show_nat.induct)
  case (1 n)
  then show ?case
    by (cases "n < 10") (simp_all add: show_nat.simps [of n] read_nat_append)
qed

lemma show_nat_inj: "show_nat m = show_nat n \<longleftrightarrow> m = n"
  by (metis read_show_nat)

lemma show_nat_nonempty [simp]: "show_nat n \<noteq> []"
  by (simp add: show_nat.simps [of n])

definition is_digit :: "char \<Rightarrow> bool" where
  "is_digit c \<longleftrightarrow> (48::nat) \<le> of_char c \<and> (of_char c :: nat) \<le> 57"

lemma is_digit_digit_char [simp]: "d < 10 \<Longrightarrow> is_digit (digit_char d)"
  by (simp add: is_digit_def)

lemma show_nat_digits: "c \<in> set (show_nat n) \<Longrightarrow> is_digit c"
proof (induction n rule: show_nat.induct)
  case (1 n)
  then show ?case
    by (cases "n < 10") (auto simp: show_nat.simps [of n])
qed

section \<open>Maps\<close>

lemma dom_ran_upd_neq: "k' \<noteq> k \<Longrightarrow> (m(k \<mapsto> v)) k' = m k'"
  by simp

lemma finite_dom_upd [simp]: "finite (dom m) \<Longrightarrow> finite (dom (m(k := v)))"
  by (cases v) auto

end
