(* ===== verification/Channels.thy ===== *)
theory Channels
  imports GoPrelude
begin

text \<open>
  The send channel of a connection: \<open>sendCh := make(chan []byte, 256)\<close> in \<open>HandleWS\<close>, written by
  any goroutine with a non-blocking \<open>select\<close> and read by the write goroutine of the connection.
  The interface the rest of the gateway relies on is the locale \<open>delivery\<close>.
\<close>

section \<open>The interface\<close>

text \<open>
  Non-blocking delivery into a bounded queue: appended when there is room, dropped when there is
  none, a panic when the queue has been shut.
\<close>

locale delivery =
  fixes deliver :: "'b \<Rightarrow> 's \<Rightarrow> 's go"
    and queue :: "'s \<Rightarrow> 'b list"
    and shut :: "'s \<Rightarrow> bool"
    and cap :: nat
  assumes deliver_room: "\<not> shut s \<Longrightarrow> length (queue s) < cap \<Longrightarrow>
      \<exists>s'. deliver b s = Returns s' \<and> queue s' = queue s @ [b] \<and> \<not> shut s'"
    and deliver_full: "\<not> shut s \<Longrightarrow> cap \<le> length (queue s) \<Longrightarrow> deliver b s = Returns s"
    and deliver_shut: "shut s \<Longrightarrow> deliver b s = Panics s"
begin

lemma deliver_returns_iff: "returns (deliver b s) \<longleftrightarrow> \<not> shut s"
proof (cases "shut s")
  case True
  then show ?thesis by (simp add: deliver_shut)
next
  case False
  then show ?thesis
    using deliver_room [of s b] deliver_full [of s b] by (cases "length (queue s) < cap") auto
qed

lemma deliver_bounded:
  "length (queue s) \<le> cap \<Longrightarrow> length (queue (state_of (deliver b s))) \<le> cap"
  using deliver_room [of s b] deliver_full [of s b] deliver_shut [of s b]
  by (cases "shut s"; cases "length (queue s) < cap") auto

text \<open>A loop of deliveries appends a prefix: the first messages that fit, in order, and no others.\<close>

lemma deliver_all:
  assumes "\<not> shut s"
  shows "\<exists>s'. for_each deliver bs s = Returns s' \<and> \<not> shut s'
           \<and> queue s' = queue s @ take (cap - length (queue s)) bs"
  using assms
proof (induction bs arbitrary: s)
  case Nil
  then show ?case by simp
next
  case (Cons b bs)
  show ?case
  proof (cases "length (queue s) < cap")
    case True
    then obtain s1 where s1: "deliver b s = Returns s1" "queue s1 = queue s @ [b]" "\<not> shut s1"
      using deliver_room Cons.prems by blast
    from Cons.IH [OF s1(3)] obtain s2 where
      "for_each deliver bs s1 = Returns s2" "\<not> shut s2"
      "queue s2 = queue s1 @ take (cap - length (queue s1)) bs" by blast
    moreover have "cap - length (queue s) = Suc (cap - length (queue s1))"
      using True s1(2) by simp
    ultimately show ?thesis using s1 by simp
  next
    case False
    then have "deliver b s = Returns s" using deliver_full Cons.prems by simp
    moreover obtain s2 where "for_each deliver bs s = Returns s2" "\<not> shut s2"
      "queue s2 = queue s @ take (cap - length (queue s)) bs"
      using Cons by blast
    ultimately show ?thesis using False by simp
  qed
qed

corollary deliver_all_fit:
  assumes "\<not> shut s" "length (queue s) + length bs \<le> cap"
  shows "\<exists>s'. for_each deliver bs s = Returns s' \<and> \<not> shut s' \<and> queue s' = queue s @ bs"
  using deliver_all [OF assms(1), of bs] assms(2) by auto

end

section \<open>Go channels\<close>

record chan =
  ch_buf :: "bytes list"
  ch_closed :: bool

definition sendCap :: nat where
  "sendCap = 256"

definition make_chan :: chan where
  "make_chan = \<lparr>ch_buf = [], ch_closed = False\<rparr>"

text \<open>The channels of all connections, by connection number.\<close>

record chan_state =
  chanH :: "nat \<Rightarrow> chan"

text \<open>
  \<open>select { case ch <- b: default: }\<close>. A send case on a closed channel is ready and panics, with or
  without the \<open>default\<close>.
\<close>

definition send_nb :: "nat \<Rightarrow> bytes \<Rightarrow> 'a chan_state_scheme \<Rightarrow> 'a chan_state_scheme go" where
  "send_nb c b s =
     (let ch = chanH s c in
      if ch_closed ch then Panics s
      else if length (ch_buf ch) < sendCap
        then Returns (s\<lparr>chanH := (chanH s)(c := ch\<lparr>ch_buf := ch_buf ch @ [b]\<rparr>)\<rparr>)
      else Returns s)"

text \<open>One receive of the write goroutine, when a frame is buffered.\<close>

definition recv_chan :: "nat \<Rightarrow> 'a chan_state_scheme \<Rightarrow> (bytes \<times> 'a chan_state_scheme) option" where
  "recv_chan c s =
     (case ch_buf (chanH s c) of
        [] \<Rightarrow> None
      | b # bs \<Rightarrow> Some (b, s\<lparr>chanH := (chanH s)(c := (chanH s c)\<lparr>ch_buf := bs\<rparr>)\<rparr>))"

text \<open>\<open>close(sendCh)\<close>: closing a closed channel panics.\<close>

definition close_chan :: "nat \<Rightarrow> 'a chan_state_scheme \<Rightarrow> 'a chan_state_scheme go" where
  "close_chan c s =
     (if ch_closed (chanH s c) then Panics s
      else Returns (s\<lparr>chanH := (chanH s)(c := (chanH s c)\<lparr>ch_closed := True\<rparr>)\<rparr>))"

section \<open>The model provides the interface\<close>

interpretation sendq: delivery "send_nb c" "\<lambda>s. ch_buf (chanH s c)" "\<lambda>s. ch_closed (chanH s c)" sendCap
  for c :: nat
  by unfold_locales (auto simp: send_nb_def Let_def)

lemma send_nb_cases:
  obtains (closed) "ch_closed (chanH s c)" "send_nb c b s = Panics s"
  | (room) "\<not> ch_closed (chanH s c)" "length (ch_buf (chanH s c)) < sendCap"
      "send_nb c b s = Returns (s\<lparr>chanH := (chanH s)(c := (chanH s c)\<lparr>ch_buf := ch_buf (chanH s c) @ [b]\<rparr>)\<rparr>)"
  | (full) "\<not> ch_closed (chanH s c)" "sendCap \<le> length (ch_buf (chanH s c))" "send_nb c b s = Returns s"
  by (cases "ch_closed (chanH s c)"; cases "length (ch_buf (chanH s c)) < sendCap")
    (auto simp: send_nb_def Let_def)

text \<open>A send touches the buffer of its own channel and nothing else, and opens or closes no channel.\<close>

lemma send_nb_closed [go_frame]:
  "ch_closed (chanH (state_of (send_nb c b s)) c') = ch_closed (chanH s c')"
  by (cases rule: send_nb_cases [of s c b]) auto

lemma send_nb_other [go_frame]: "c' \<noteq> c \<Longrightarrow> chanH (state_of (send_nb c b s)) c' = chanH s c'"
  by (cases rule: send_nb_cases [of s c b]) auto

lemma send_nb_more [go_frame]: "chan_state.more (state_of (send_nb c b s)) = chan_state.more s"
  by (cases rule: send_nb_cases [of s c b]) auto

lemma close_chan_more [go_frame]: "chan_state.more (state_of (close_chan c s)) = chan_state.more s"
  by (simp add: close_chan_def)

end
