(* ===== verification/Clients.thy ===== *)
theory Clients
  imports Channels
begin

text \<open>
  \<open>internal/gateway/clients.go\<close>: the \<open>Client\<close> objects and the process-wide table of online users.
  A \<open>*Client\<close> is a reference into the store \<open>clientH\<close>; the table maps a user ID to a reference.
  The interface shared by this table and by the member table of a room is the locale \<open>registry\<close>.
\<close>

section \<open>The interface\<close>

locale registry =
  fixes put :: "'k \<Rightarrow> 'v \<Rightarrow> 's \<Rightarrow> 's"
    and del :: "'k \<Rightarrow> 's \<Rightarrow> 's"
    and get :: "'k \<Rightarrow> 's \<Rightarrow> 'v option"
  assumes get_put: "get k' (put k v s) = (if k' = k then Some v else get k' s)"
    and get_del: "get k' (del k s) = (if k' = k then None else get k' s)"
begin

lemma last_put_wins: "get k (put k w (put k v s)) = Some w"
  by (simp add: get_put)

lemma get_del_put: "get k (del k (put k v s)) = None"
  by (simp add: get_del)

lemma put_del_commute: "k \<noteq> j \<Longrightarrow> get i (put k v (del j s)) = get i (del j (put k v s))"
  by (auto simp: get_put get_del)

text \<open>The effect of a whole list of deletions.\<close>

lemma get_del_all: "get k (fold del ks s) = (if k \<in> set ks then None else get k s)"
  by (induction ks arbitrary: s) (auto simp: get_del)

lemma get_put_all:
  "distinct (map fst kvs) \<Longrightarrow>
     get k (fold (\<lambda>(k, v). put k v) kvs s) = (case map_of kvs k of Some v \<Rightarrow> Some v | None \<Rightarrow> get k s)"
proof (induction kvs arbitrary: s)
  case Nil
  then show ?case by simp
next
  case (Cons kv kvs)
  obtain k0 v0 where [simp]: "kv = (k0, v0)" by (cases kv)
  have "map_of kvs k0 = None" using Cons.prems by (simp add: map_of_eq_None_iff)
  then show ?case using Cons by (auto simp: get_put split: option.splits)
qed

end

text \<open>A registry whose keys can be listed, in any order.\<close>

locale listed_registry = registry put del get
  for put :: "'k \<Rightarrow> 'v \<Rightarrow> 's \<Rightarrow> 's" and del :: "'k \<Rightarrow> 's \<Rightarrow> 's" and get :: "'k \<Rightarrow> 's \<Rightarrow> 'v option" +
  fixes keys :: "'k list \<Rightarrow> 's \<Rightarrow> 'k list"
  assumes keys_visit: "keys ord s = filter (\<lambda>k. get k s \<noteq> None) ord"
begin

lemma keys_complete:
  assumes "range_order (\<lambda>k. get k s) ord"
  shows "distinct (keys ord s)" and "set (keys ord s) = {k. get k s \<noteq> None}"
  using assms by (auto simp: keys_visit range_order_def dom_def)

lemma keys_all:
  assumes "range_order (\<lambda>k. get k s) ord"
  shows "keys ord s = ord"
  using assms by (auto simp: keys_visit range_order_def dom_def filter_id_conv)

lemma keys_count:
  assumes "range_order (\<lambda>k. get k s) ord"
  shows "length (keys ord s) = card {k. get k s \<noteq> None}"
  using keys_complete [OF assms] by (metis distinct_card)

end

section \<open>Clients and the online table\<close>

record Client =
  c_UserID :: string
  c_Conn :: nat
  c_Send :: nat
  c_lastSeen :: int

record client_state = chan_state +
  onlineUsers :: "string \<Rightarrow> nat option"
  clientH :: "nat \<Rightarrow> Client"
  nextClient :: nat

text \<open>
  \<open>&Client{UserID: userID, Conn: conn, Send: sendCh}\<close>: a fresh object. A connection has one
  WebSocket and one send channel, both known by the number of the connection.
\<close>

definition new_client :: "string \<Rightarrow> nat \<Rightarrow> 'a client_state_scheme \<Rightarrow> nat \<times> 'a client_state_scheme" where
  "new_client uid c s =
     (nextClient s,
      s\<lparr>clientH := (clientH s)(nextClient s := \<lparr>c_UserID = uid, c_Conn = c, c_Send = c, c_lastSeen = 0\<rparr>),
        nextClient := Suc (nextClient s)\<rparr>)"

definition registerOnline :: "string \<Rightarrow> nat \<Rightarrow> 'a client_state_scheme \<Rightarrow> 'a client_state_scheme" where
  "registerOnline uid r s = s\<lparr>onlineUsers := (onlineUsers s)(uid \<mapsto> r)\<rparr>"

definition unregisterOnline :: "string \<Rightarrow> 'a client_state_scheme \<Rightarrow> 'a client_state_scheme" where
  "unregisterOnline uid s = s\<lparr>onlineUsers := (onlineUsers s)(uid := None)\<rparr>"

definition getOnlineClient :: "string \<Rightarrow> 'a client_state_scheme \<Rightarrow> nat option" where
  "getOnlineClient uid s = onlineUsers s uid"

definition touch :: "int \<Rightarrow> nat \<Rightarrow> 'a client_state_scheme \<Rightarrow> 'a client_state_scheme" where
  "touch now_ms r s = s\<lparr>clientH := (clientH s)(r := (clientH s r)\<lparr>c_lastSeen := now_ms\<rparr>)\<rparr>"

text \<open>The loop of \<open>GetOnlineUsers\<close>: it visits the keys of the table in the order given.\<close>

fun collect_keys :: "('k \<Rightarrow> 'v option) \<Rightarrow> 'k list \<Rightarrow> 'k list \<Rightarrow> 'k list" where
  "collect_keys m [] ids = ids"
| "collect_keys m (k # ks) ids = collect_keys m ks (if m k = None then ids else ids @ [k])"

definition GetOnlineUsers :: "string list \<Rightarrow> 'a client_state_scheme \<Rightarrow> string list" where
  "GetOnlineUsers ord s = collect_keys (onlineUsers s) ord []"

lemma collect_keys_filter: "collect_keys m ks ids = ids @ filter (\<lambda>k. m k \<noteq> None) ks"
  by (induction ks arbitrary: ids) auto

section \<open>The model provides the interface\<close>

interpretation online: listed_registry registerOnline unregisterOnline getOnlineClient GetOnlineUsers
  by unfold_locales
    (auto simp: registerOnline_def unregisterOnline_def getOnlineClient_def GetOnlineUsers_def
      collect_keys_filter)

text \<open>Sending changes no client and not the online table.\<close>

lemma send_nb_clients [simp, go_frame]:
  "onlineUsers (state_of (send_nb c b s)) = onlineUsers s"
  "clientH (state_of (send_nb c b s)) = clientH s"
  "nextClient (state_of (send_nb c b s)) = nextClient s"
  by (simp_all add: send_nb_def Let_def)

lemmas client_defs = new_client_def registerOnline_def unregisterOnline_def getOnlineClient_def touch_def

declare client_defs [go_defs]

end
