(* ===== verification/Rooms.thy ===== *)
theory Rooms
  imports Clients
begin

text \<open>
  \<open>internal/gateway/room.go\<close>: the \<open>Room\<close> objects and the process-wide table of rooms. A \<open>*Room\<close> is
  a reference into the store \<open>roomH\<close>; the table \<open>rooms\<close> maps a room ID to a reference. Removing a
  room from the table leaves the object in the store, as a goroutine may still hold the pointer.

  Every operation is one critical section of the code, but \<open>getOrCreateRoom\<close>, which has two: the
  look-up under the read lock and the re-checked creation under the write lock.
\<close>

section \<open>Rooms\<close>

record Room =
  r_ID :: string
  r_clients :: "string \<Rightarrow> nat option"

definition newRoom :: "string \<Rightarrow> Room" where
  "newRoom roomID = \<lparr>r_ID = roomID, r_clients = Map.empty\<rparr>"

definition Room_add :: "string \<Rightarrow> nat \<Rightarrow> Room \<Rightarrow> Room" where
  "Room_add uid r rm = rm\<lparr>r_clients := (r_clients rm)(uid \<mapsto> r)\<rparr>"

definition Room_remove :: "string \<Rightarrow> Room \<Rightarrow> Room" where
  "Room_remove uid rm = rm\<lparr>r_clients := (r_clients rm)(uid := None)\<rparr>"

definition Room_client :: "string \<Rightarrow> Room \<Rightarrow> nat option" where
  "Room_client uid rm = r_clients rm uid"

definition Contains :: "string \<Rightarrow> Room \<Rightarrow> bool" where
  "Contains uid rm \<longleftrightarrow> Room_client uid rm \<noteq> None"

interpretation members: registry Room_add Room_remove Room_client
  by unfold_locales (auto simp: Room_add_def Room_remove_def Room_client_def)

section \<open>The table of rooms\<close>

record room_state = client_state +
  rooms :: "string \<Rightarrow> nat option"
  roomH :: "nat \<Rightarrow> Room"
  nextRoom :: nat

text \<open>\<open>func (r *Room) addClient(c *Client)\<close> and \<open>removeClient\<close>: the key is the user ID of the client.\<close>

definition addClient :: "nat \<Rightarrow> nat \<Rightarrow> 'a room_state_scheme \<Rightarrow> 'a room_state_scheme" where
  "addClient rr c s = s\<lparr>roomH := (roomH s)(rr := Room_add (c_UserID (clientH s c)) c (roomH s rr))\<rparr>"

definition removeClient :: "nat \<Rightarrow> nat \<Rightarrow> 'a room_state_scheme \<Rightarrow> 'a room_state_scheme" where
  "removeClient rr c s = s\<lparr>roomH := (roomH s)(rr := Room_remove (c_UserID (clientH s c)) (roomH s rr))\<rparr>"

text \<open>One iteration of \<open>broadcast\<close>, and the loop over the members in the order given.\<close>

definition broadcast_to :: "nat \<Rightarrow> bytes \<Rightarrow> string \<Rightarrow> 'a room_state_scheme \<Rightarrow> 'a room_state_scheme go" where
  "broadcast_to rr b uid s =
     (case r_clients (roomH s rr) uid of
        None \<Rightarrow> Returns s
      | Some c \<Rightarrow> send_nb (c_Send (clientH s c)) b s)"

definition broadcast :: "nat \<Rightarrow> string list \<Rightarrow> bytes \<Rightarrow> 'a room_state_scheme \<Rightarrow> 'a room_state_scheme go" where
  "broadcast rr ord b s = for_each (broadcast_to rr b) ord s"

text \<open>The critical section of \<open>getOrCreateRoom\<close> under the write lock, which looks again.\<close>

definition createRoom :: "string \<Rightarrow> 'a room_state_scheme \<Rightarrow> nat \<times> 'a room_state_scheme" where
  "createRoom roomID s =
     (case rooms s roomID of
        Some rr \<Rightarrow> (rr, s)
      | None \<Rightarrow>
          (nextRoom s,
           s\<lparr>rooms := (rooms s)(roomID \<mapsto> nextRoom s),
             roomH := (roomH s)(nextRoom s := newRoom roomID),
             nextRoom := Suc (nextRoom s)\<rparr>))"

definition getOrCreateRoom :: "string \<Rightarrow> 'a room_state_scheme \<Rightarrow> nat \<times> 'a room_state_scheme" where
  "getOrCreateRoom roomID s =
     (case rooms s roomID of Some rr \<Rightarrow> (rr, s) | None \<Rightarrow> createRoom roomID s)"

definition removeEmptyRoom :: "string \<Rightarrow> 'a room_state_scheme \<Rightarrow> 'a room_state_scheme" where
  "removeEmptyRoom roomID s =
     (case rooms s roomID of
        None \<Rightarrow> s
      | Some rr \<Rightarrow>
          (if card (dom (r_clients (roomH s rr))) = 0
           then s\<lparr>rooms := (rooms s)(roomID := None)\<rparr> else s))"

definition GetRoomCount :: "'a room_state_scheme \<Rightarrow> nat" where
  "GetRoomCount s = card (dom (rooms s))"

definition GetRoomIDs :: "string list \<Rightarrow> 'a room_state_scheme \<Rightarrow> string list" where
  "GetRoomIDs ord s = collect_keys (rooms s) ord []"

section \<open>Well-formedness\<close>

text \<open>
  The references of the table are allocated, the object behind an ID carries that ID (so that two
  IDs never share an object), and member tables are finite.
\<close>

definition rooms_wf :: "'a room_state_scheme \<Rightarrow> bool" where
  "rooms_wf s \<longleftrightarrow>
     (\<forall>rid rr. rooms s rid = Some rr \<longrightarrow> rr < nextRoom s \<and> r_ID (roomH s rr) = rid
        \<and> finite (dom (r_clients (roomH s rr))))"

lemma rooms_wfD:
  assumes "rooms_wf s" "rooms s rid = Some rr"
  shows "rr < nextRoom s" "r_ID (roomH s rr) = rid" "finite (dom (r_clients (roomH s rr)))"
  using assms by (auto simp: rooms_wf_def)

lemma rooms_wf_inj:
  assumes "rooms_wf s" "rooms s rid = Some rr" "rooms s rid' = Some rr"
  shows "rid = rid'"
  using assms by (metis rooms_wfD(2))

lemma rooms_wf_cong:
  "rooms s = rooms t \<Longrightarrow> roomH s = roomH t \<Longrightarrow> nextRoom s = nextRoom t \<Longrightarrow> rooms_wf s = rooms_wf t"
  by (simp add: rooms_wf_def)

lemma rooms_wf_addClient: "rooms_wf s \<Longrightarrow> rooms_wf (addClient rr c s)"
  by (auto simp: rooms_wf_def addClient_def Room_add_def)

lemma rooms_wf_removeClient: "rooms_wf s \<Longrightarrow> rooms_wf (removeClient rr c s)"
  by (auto simp: rooms_wf_def removeClient_def Room_remove_def)

lemma rooms_wf_createRoom: "rooms_wf s \<Longrightarrow> rooms_wf (snd (createRoom rid s))"
  by (auto simp: rooms_wf_def createRoom_def newRoom_def less_Suc_eq split: option.splits)

lemma rooms_wf_getOrCreateRoom: "rooms_wf s \<Longrightarrow> rooms_wf (snd (getOrCreateRoom rid s))"
  by (auto simp: getOrCreateRoom_def rooms_wf_createRoom split: option.splits)

lemma rooms_wf_removeEmptyRoom: "rooms_wf s \<Longrightarrow> rooms_wf (removeEmptyRoom rid s)"
  by (auto simp: rooms_wf_def removeEmptyRoom_def split: option.splits)

text \<open>Sending changes no room.\<close>

lemma send_nb_rooms [simp, go_frame]:
  "rooms (state_of (send_nb c b s)) = rooms s"
  "roomH (state_of (send_nb c b s)) = roomH s"
  "nextRoom (state_of (send_nb c b s)) = nextRoom s"
  by (simp_all add: send_nb_def Let_def)

lemma rooms_wf_send: "rooms_wf (state_of (send_nb c b s)) = rooms_wf s"
  by (rule rooms_wf_cong) simp_all

text \<open>What \<open>getOrCreateRoom\<close> returns is the room now in the table under that ID.\<close>

lemma getOrCreateRoom_in_table:
  "getOrCreateRoom rid s = (rr, t) \<Longrightarrow> rooms t rid = Some rr"
  by (auto simp: getOrCreateRoom_def createRoom_def split: option.splits)

lemma getOrCreateRoom_same:
  assumes "getOrCreateRoom rid s = (rr, t)"
  shows "getOrCreateRoom rid t = (rr, t)"
  using getOrCreateRoom_in_table [OF assms] by (simp add: getOrCreateRoom_def)

section \<open>Abstract rooms\<close>

text \<open>
  What the component promises, without objects: a partial map from room IDs to member tables. A
  room without members is the same as no room for everyone but the counter of active rooms.
\<close>

type_synonym abs_rooms = "string \<Rightarrow> (string \<Rightarrow> nat option) option"

definition abs_rooms :: "'a room_state_scheme \<Rightarrow> abs_rooms" where
  "abs_rooms s = (\<lambda>rid. map_option (\<lambda>rr. r_clients (roomH s rr)) (rooms s rid))"

definition abs_members :: "abs_rooms \<Rightarrow> string \<Rightarrow> string \<Rightarrow> nat option" where
  "abs_members a rid = (case a rid of None \<Rightarrow> Map.empty | Some m \<Rightarrow> m)"

definition abs_open :: "string \<Rightarrow> abs_rooms \<Rightarrow> abs_rooms" where
  "abs_open rid a = a(rid \<mapsto> abs_members a rid)"

definition abs_join :: "string \<Rightarrow> string \<Rightarrow> nat \<Rightarrow> abs_rooms \<Rightarrow> abs_rooms" where
  "abs_join rid uid c a = a(rid \<mapsto> (abs_members a rid)(uid \<mapsto> c))"

definition abs_leave :: "string \<Rightarrow> string \<Rightarrow> abs_rooms \<Rightarrow> abs_rooms" where
  "abs_leave rid uid a =
     (let m = (abs_members a rid)(uid := None) in a(rid := (if m = Map.empty then None else Some m)))"

lemma abs_rooms_cong:
  "rooms s = rooms t \<Longrightarrow> roomH s = roomH t \<Longrightarrow> abs_rooms s = abs_rooms t"
  by (simp add: abs_rooms_def)

lemma abs_getOrCreateRoom:
  assumes "rooms_wf s" "getOrCreateRoom rid s = (rr, t)"
  shows "abs_rooms t = abs_open rid (abs_rooms s)"
proof (cases "rooms s rid")
  case None
  then have "t = s\<lparr>rooms := (rooms s)(rid \<mapsto> nextRoom s), roomH := (roomH s)(nextRoom s := newRoom rid),
      nextRoom := Suc (nextRoom s)\<rparr>"
    using assms(2) by (auto simp: getOrCreateRoom_def createRoom_def)
  moreover have "r' \<noteq> nextRoom s" if "rooms s rid' = Some r'" for rid' r'
    using rooms_wfD(1) [OF assms(1) that] by simp
  ultimately show ?thesis
    using None by (auto simp: abs_rooms_def abs_open_def abs_members_def newRoom_def fun_eq_iff
        map_option_case split: option.splits)
next
  case (Some r)
  then have "t = s" using assms(2) by (simp add: getOrCreateRoom_def)
  then show ?thesis using Some by (auto simp: abs_rooms_def abs_open_def abs_members_def fun_eq_iff)
qed

lemma getOrCreateRoom_members:
  assumes "rooms_wf s" "getOrCreateRoom rid s = (rr, t)"
  shows "r_clients (roomH t rr) = abs_members (abs_rooms s) rid"
proof -
  have "r_clients (roomH t rr) = abs_members (abs_rooms t) rid"
    using getOrCreateRoom_in_table [OF assms(2)] by (simp add: abs_members_def abs_rooms_def)
  then show ?thesis
    using abs_getOrCreateRoom [OF assms] by (simp add: abs_open_def abs_members_def)
qed

text \<open>Writing one room's object changes that room's members only.\<close>

lemma abs_rooms_roomH_upd:
  assumes "rooms_wf s" "rooms s rid = Some rr"
  shows "abs_rooms (s\<lparr>roomH := (roomH s)(rr := rm)\<rparr>) = (abs_rooms s)(rid \<mapsto> r_clients rm)"
proof
  fix rid'
  have "rooms s rid' \<noteq> Some rr" if "rid' \<noteq> rid"
    using rooms_wf_inj [OF assms] that by blast
  then show "abs_rooms (s\<lparr>roomH := (roomH s)(rr := rm)\<rparr>) rid' = ((abs_rooms s)(rid \<mapsto> r_clients rm)) rid'"
    using assms(2) by (cases "rooms s rid'") (auto simp: abs_rooms_def)
qed

lemma getOrCreateRoom_clientH: "getOrCreateRoom rid s = (rr, t) \<Longrightarrow> clientH t = clientH s"
  by (auto simp: getOrCreateRoom_def createRoom_def split: option.splits)

theorem join_refines:
  assumes "rooms_wf s" "getOrCreateRoom rid s = (rr, t)"
  shows "abs_rooms (addClient rr c t) = abs_join rid (c_UserID (clientH s c)) c (abs_rooms s)"
proof -
  have wf: "rooms_wf t" using rooms_wf_getOrCreateRoom [OF assms(1), of rid] assms(2) by simp
  have rr: "rooms t rid = Some rr" by (rule getOrCreateRoom_in_table [OF assms(2)])
  show ?thesis
    using abs_rooms_roomH_upd [OF wf rr] abs_getOrCreateRoom [OF assms]
      getOrCreateRoom_members [OF assms] getOrCreateRoom_clientH [OF assms(2)]
    by (simp add: addClient_def Room_add_def abs_join_def abs_open_def)
qed

theorem leave_refines:
  assumes "rooms_wf s" "getOrCreateRoom rid s = (rr, t)"
  shows "abs_rooms (removeEmptyRoom rid (removeClient rr c t)) =
           abs_leave rid (c_UserID (clientH s c)) (abs_rooms s)"
proof -
  let ?m = "(r_clients (roomH t rr))(c_UserID (clientH s c) := None)"
  let ?u = "removeClient rr c t"
  have wf: "rooms_wf t" using rooms_wf_getOrCreateRoom [OF assms(1), of rid] assms(2) by simp
  have rr: "rooms t rid = Some rr" by (rule getOrCreateRoom_in_table [OF assms(2)])
  have m: "r_clients (roomH t rr) = abs_members (abs_rooms s) rid"
    by (rule getOrCreateRoom_members [OF assms])
  have u: "abs_rooms ?u = (abs_rooms t)(rid \<mapsto> ?m)"
    using abs_rooms_roomH_upd [OF wf rr] getOrCreateRoom_clientH [OF assms(2)]
    by (simp add: removeClient_def Room_remove_def)
  have room: "rooms ?u rid = Some rr" "r_clients (roomH ?u rr) = ?m"
    using rr getOrCreateRoom_clientH [OF assms(2)] by (simp_all add: removeClient_def Room_remove_def)
  have "finite (dom ?m)" using rooms_wfD(3) [OF wf rr] by simp
  then have "card (dom ?m) = 0 \<longleftrightarrow> ?m = Map.empty" by (simp only: card_0_eq dom_eq_empty_conv)
  moreover have "abs_rooms (?u\<lparr>rooms := (rooms ?u)(rid := None)\<rparr>) = (abs_rooms ?u)(rid := None)"
    by (auto simp: abs_rooms_def)
  ultimately show ?thesis
    using room u m abs_getOrCreateRoom [OF assms]
    by (auto simp: removeEmptyRoom_def abs_leave_def abs_open_def Let_def)
qed

section \<open>Broadcast\<close>

text \<open>A broadcast changes channel buffers only, and opens or closes no channel.\<close>

lemma broadcast_to_frame [simp, go_frame]:
  "onlineUsers (state_of (broadcast_to rr b uid s)) = onlineUsers s"
  "clientH (state_of (broadcast_to rr b uid s)) = clientH s"
  "nextClient (state_of (broadcast_to rr b uid s)) = nextClient s"
  "rooms (state_of (broadcast_to rr b uid s)) = rooms s"
  "roomH (state_of (broadcast_to rr b uid s)) = roomH s"
  "nextRoom (state_of (broadcast_to rr b uid s)) = nextRoom s"
  "ch_closed (chanH (state_of (broadcast_to rr b uid s)) c) = ch_closed (chanH s c)"
  by (simp_all add: broadcast_to_def send_nb_closed split: option.split)

lemma broadcast_frame [simp, go_frame]:
  "onlineUsers (state_of (broadcast rr ord b s)) = onlineUsers s"
  "clientH (state_of (broadcast rr ord b s)) = clientH s"
  "nextClient (state_of (broadcast rr ord b s)) = nextClient s"
  "rooms (state_of (broadcast rr ord b s)) = rooms s"
  "roomH (state_of (broadcast rr ord b s)) = roomH s"
  "nextRoom (state_of (broadcast rr ord b s)) = nextRoom s"
  "ch_closed (chanH (state_of (broadcast rr ord b s)) c) = ch_closed (chanH s c)"
  using for_each_inv [where body = "broadcast_to rr b" and xs = ord and s = s and
      P = "\<lambda>t. onlineUsers t = onlineUsers s \<and> clientH t = clientH s \<and> nextClient t = nextClient s
        \<and> rooms t = rooms s \<and> roomH t = roomH s \<and> nextRoom t = nextRoom s
        \<and> ch_closed (chanH t c) = ch_closed (chanH s c)"]
  by (simp_all add: broadcast_def)

text \<open>It returns exactly when every member it visits has an open channel.\<close>

definition all_open :: "nat \<Rightarrow> string list \<Rightarrow> 'a room_state_scheme \<Rightarrow> bool" where
  "all_open rr ord s \<longleftrightarrow>
     (\<forall>uid \<in> set ord. \<forall>c. r_clients (roomH s rr) uid = Some c \<longrightarrow> \<not> ch_closed (chanH s (c_Send (clientH s c))))"

lemma broadcast_to_returns:
  "returns (broadcast_to rr b uid s) \<longleftrightarrow>
     (\<forall>c. r_clients (roomH s rr) uid = Some c \<longrightarrow> \<not> ch_closed (chanH s (c_Send (clientH s c))))"
  by (auto simp: broadcast_to_def sendq.deliver_returns_iff split: option.split)

lemma broadcast_returns_iff: "returns (broadcast rr ord b s) \<longleftrightarrow> all_open rr ord s"
proof -
  have "returns (for_each (broadcast_to rr b) ord t) \<longleftrightarrow> all_open rr ord t" for t :: "'a room_state_scheme"
  proof (induction ord arbitrary: t)
    case Nil
    then show ?case by (simp add: all_open_def)
  next
    case (Cons uid ord)
    then show ?case
      by (auto simp: returns_andThen broadcast_to_returns all_open_def)
  qed
  then show ?thesis by (simp add: broadcast_def)
qed

text \<open>
  The effect on one channel: a broadcast in a room whose members have distinct channels appends
  the frame once to the channel of every member, when it has room, and to no other channel.
\<close>

definition distinct_sends :: "nat \<Rightarrow> 'a room_state_scheme \<Rightarrow> bool" where
  "distinct_sends rr s \<longleftrightarrow>
     (\<forall>u v c d. r_clients (roomH s rr) u = Some c \<longrightarrow> r_clients (roomH s rr) v = Some d
        \<longrightarrow> c_Send (clientH s c) = c_Send (clientH s d) \<longrightarrow> u = v)"

definition accept :: "bytes \<Rightarrow> chan \<Rightarrow> chan" where
  "accept b ch = (if length (ch_buf ch) < sendCap then ch\<lparr>ch_buf := ch_buf ch @ [b]\<rparr> else ch)"

lemma send_nb_open: "\<not> ch_closed (chanH s c) \<Longrightarrow> chanH (state_of (send_nb c b s)) = (chanH s)(c := accept b (chanH s c))"
  by (auto simp: send_nb_def Let_def accept_def fun_eq_iff)

lemma broadcast_channels:
  assumes "all_open rr ord s" "distinct_sends rr s" "distinct ord"
  shows "chanH (state_of (broadcast rr ord b s)) k =
     (if \<exists>uid \<in> set ord. \<exists>c. r_clients (roomH s rr) uid = Some c \<and> c_Send (clientH s c) = k
      then accept b (chanH s k) else chanH s k)"
  using assms unfolding broadcast_def
proof (induction ord arbitrary: s)
  case Nil
  then show ?case by simp
next
  case (Cons uid ord)
  let ?t = "state_of (broadcast_to rr b uid s)"
  have ret: "returns (broadcast_to rr b uid s)"
    using Cons.prems(1) by (simp add: broadcast_to_returns all_open_def)
  have "all_open rr ord ?t" "distinct_sends rr ?t" "distinct ord"
    using Cons.prems by (simp_all add: all_open_def distinct_sends_def)
  note IH = Cons.IH [OF this]
  have open_uid: "\<not> ch_closed (chanH s (c_Send (clientH s c)))" if "r_clients (roomH s rr) uid = Some c" for c
    using Cons.prems(1) that by (simp add: all_open_def)
  have t: "chanH ?t = (case r_clients (roomH s rr) uid of None \<Rightarrow> chanH s
      | Some c \<Rightarrow> (chanH s)(c_Send (clientH s c) := accept b (chanH s (c_Send (clientH s c)))))"
    using open_uid by (auto simp: broadcast_to_def send_nb_open split: option.split)
  have other: "u \<notin> set ord" if "r_clients (roomH s rr) uid = Some c" "r_clients (roomH s rr) u = Some d"
      "c_Send (clientH s d) = c_Send (clientH s c)" for u c d
    using Cons.prems(2,3) that unfolding distinct_sends_def by (metis distinct.simps(2))
  show ?case
    using ret IH t other by (auto simp: state_of_andThen split: option.splits)
qed

end
