(* ===== verification/GoText.thy ===== *)
theory GoText
  imports GoPrelude
begin

text \<open>
  The text functions of Go's standard library that the gateway calls: \<open>strings.HasPrefix\<close>,
  \<open>TrimPrefix\<close>, \<open>Split\<close>, \<open>TrimSpace\<close>, \<open>LastIndex\<close>, \<open>ToLower\<close>, \<open>filepath.Ext\<close>, UTF-8 decoding as in
  \<open>unicode/utf8\<close>, and the RFC 3339 rendering of an instant in UTC used by \<open>time.Time\<close>.
\<close>

definition code :: "char \<Rightarrow> nat" where
  "code c = of_char c"

section \<open>Package strings\<close>

definition HasPrefix :: "string \<Rightarrow> string \<Rightarrow> bool" where
  "HasPrefix s p \<longleftrightarrow> take (length p) s = p"

definition TrimPrefix :: "string \<Rightarrow> string \<Rightarrow> string" where
  "TrimPrefix s p = (if HasPrefix s p then drop (length p) s else s)"

text \<open>\<open>strings.Split\<close> with a one-byte separator: there is always at least one part.\<close>

fun Split :: "string \<Rightarrow> char \<Rightarrow> string list" where
  "Split [] sep = [[]]"
| "Split (c # cs) sep =
     (if c = sep then [] # Split cs sep
      else (case Split cs sep of [] \<Rightarrow> [[c]] | w # ws \<Rightarrow> (c # w) # ws))"

text \<open>\<open>strings.LastIndex\<close> of a one-byte string: \<open>-1\<close> when it does not occur.\<close>

fun last_index_from :: "int \<Rightarrow> int \<Rightarrow> string \<Rightarrow> char \<Rightarrow> int" where
  "last_index_from i best [] x = best"
| "last_index_from i best (c # cs) x = last_index_from (i + 1) (if c = x then i else best) cs x"

definition LastIndex :: "string \<Rightarrow> char \<Rightarrow> int" where
  "LastIndex s x = last_index_from 0 (-1) s x"

text \<open>
  The length in bytes of the white-space rune at the front of a string, 0 when there is none:
  the ASCII spaces and the UTF-8 encodings of the other runes of \<open>unicode.IsSpace\<close>.
\<close>

definition is_ascii_space :: "nat \<Rightarrow> bool" where
  "is_ascii_space n \<longleftrightarrow> n = 32 \<or> (9 \<le> n \<and> n \<le> 13)"

definition is_space3 :: "nat \<Rightarrow> nat \<Rightarrow> nat \<Rightarrow> bool" where
  "is_space3 a b c \<longleftrightarrow>
     (a = 0xE1 \<and> b = 0x9A \<and> c = 0x80)
   \<or> (a = 0xE2 \<and> b = 0x80 \<and> ((0x80 \<le> c \<and> c \<le> 0x8A) \<or> c = 0xA8 \<or> c = 0xA9 \<or> c = 0xAF))
   \<or> (a = 0xE2 \<and> b = 0x81 \<and> c = 0x9F)
   \<or> (a = 0xE3 \<and> b = 0x80 \<and> c = 0x80)"

fun space_prefix :: "string \<Rightarrow> nat" where
  "space_prefix [] = 0"
| "space_prefix (a # s) =
     (if is_ascii_space (code a) then 1
      else case s of
        [] \<Rightarrow> 0
      | b # s' \<Rightarrow>
          (if code a = 0xC2 \<and> (code b = 0x85 \<or> code b = 0xA0) then 2
           else case s' of [] \<Rightarrow> 0
             | c # _ \<Rightarrow> if is_space3 (code a) (code b) (code c) then 3 else 0))"

text \<open>The same at the end of a string, given reversed.\<close>

fun space_suffix :: "string \<Rightarrow> nat" where
  "space_suffix [] = 0"
| "space_suffix (a # s) =
     (if is_ascii_space (code a) then 1
      else case s of
        [] \<Rightarrow> 0
      | b # s' \<Rightarrow>
          (if code b = 0xC2 \<and> (code a = 0x85 \<or> code a = 0xA0) then 2
           else case s' of [] \<Rightarrow> 0
             | c # _ \<Rightarrow> if is_space3 (code c) (code b) (code a) then 3 else 0))"

function trim_with :: "(string \<Rightarrow> nat) \<Rightarrow> string \<Rightarrow> string" where
  "trim_with f s = (if s = [] \<or> f s = 0 then s else trim_with f (drop (f s) s))"
  by pat_completeness auto
termination
  by (relation "measure (\<lambda>(f, s). length s)") auto

declare trim_with.simps [simp del]

definition TrimSpace :: "string \<Rightarrow> string" where
  "TrimSpace s = rev (trim_with space_suffix (rev (trim_with space_prefix s)))"

text \<open>
  \<open>strings.ToLower\<close>. Of the non-ASCII runes only U+0130 and U+212A have an ASCII lower case
  (\<open>i\<close> and \<open>k\<close>); the others stay non-ASCII and are kept as they are, which is enough here: the
  result is only looked up in a table of ASCII extensions.
\<close>

definition lower_byte :: "char \<Rightarrow> char" where
  "lower_byte c = (if 65 \<le> code c \<and> code c \<le> 90 then char_of (code c + 32) else c)"

fun ToLower :: "string \<Rightarrow> string" where
  "ToLower [] = []"
| "ToLower (a # s) =
     (case s of
        b # s' \<Rightarrow>
          (if code a = 0xC4 \<and> code b = 0xB0 then CHR ''i'' # ToLower s'
           else if code a = 0xE2 \<and> code b = 0x84 \<and> s' \<noteq> [] \<and> code (hd s') = 0xAA
             then CHR ''k'' # ToLower (tl s')
           else lower_byte a # ToLower s)
      | [] \<Rightarrow> [lower_byte a])"

text \<open>\<open>filepath.Ext\<close>: scanning backwards, stopping at a slash.\<close>

fun ext_scan :: "string \<Rightarrow> string \<Rightarrow> string" where
  "ext_scan acc [] = []"
| "ext_scan acc (c # cs) =
     (if c = CHR ''/'' then [] else if c = CHR ''.'' then c # acc else ext_scan (c # acc) cs)"

definition Ext :: "string \<Rightarrow> string" where
  "Ext path = ext_scan [] (rev path)"

section \<open>UTF-8\<close>

definition is_cont :: "char \<Rightarrow> bool" where
  "is_cont c \<longleftrightarrow> 0x80 \<le> code c \<and> code c \<le> 0xBF"

definition byte_in :: "nat \<Rightarrow> nat \<Rightarrow> char \<Rightarrow> bool" where
  "byte_in lo hi c \<longleftrightarrow> lo \<le> code c \<and> code c \<le> hi"

text \<open>
  The length of the well-formed UTF-8 sequence at the front of a string, 0 when there is none
  (\<open>utf8.DecodeRune\<close> returning \<open>RuneError\<close> with size 1).
\<close>

definition utf8_len2 :: "char \<Rightarrow> string \<Rightarrow> nat" where
  "utf8_len2 a s = (case s of b # _ \<Rightarrow> if byte_in 0xC2 0xDF a \<and> is_cont b then 2 else 0 | [] \<Rightarrow> 0)"

definition utf8_len3 :: "char \<Rightarrow> string \<Rightarrow> nat" where
  "utf8_len3 a s =
     (case s of
        b # c # _ \<Rightarrow>
          (if is_cont c \<and>
              ((code a = 0xE0 \<and> byte_in 0xA0 0xBF b)
             \<or> (byte_in 0xE1 0xEC a \<and> is_cont b)
             \<or> (code a = 0xED \<and> byte_in 0x80 0x9F b)
             \<or> (byte_in 0xEE 0xEF a \<and> is_cont b)) then 3 else 0)
      | _ \<Rightarrow> 0)"

definition utf8_len4 :: "char \<Rightarrow> string \<Rightarrow> nat" where
  "utf8_len4 a s =
     (case s of
        b # c # d # _ \<Rightarrow>
          (if is_cont c \<and> is_cont d \<and>
              ((code a = 0xF0 \<and> byte_in 0x90 0xBF b)
             \<or> (byte_in 0xF1 0xF3 a \<and> is_cont b)
             \<or> (code a = 0xF4 \<and> byte_in 0x80 0x8F b)) then 4 else 0)
      | _ \<Rightarrow> 0)"

fun utf8_len :: "string \<Rightarrow> nat" where
  "utf8_len [] = 0"
| "utf8_len (a # s) =
     (if code a < 0x80 then 1
      else if utf8_len2 a s \<noteq> 0 then utf8_len2 a s
      else if utf8_len3 a s \<noteq> 0 then utf8_len3 a s
      else utf8_len4 a s)"

text \<open>\<open>utf8.EncodeRune\<close> of a code point that is not a surrogate.\<close>

definition encode_rune :: "nat \<Rightarrow> string" where
  "encode_rune r =
     (if r < 0x80 then [char_of r]
      else if r < 0x800 then [char_of (0xC0 + r div 64), char_of (0x80 + r mod 64)]
      else if r < 0x10000 then
        [char_of (0xE0 + r div 4096), char_of (0x80 + r div 64 mod 64), char_of (0x80 + r mod 64)]
      else [char_of (0xF0 + r div 262144), char_of (0x80 + r div 4096 mod 64),
            char_of (0x80 + r div 64 mod 64), char_of (0x80 + r mod 64)])"

definition replacement_rune :: string where
  "replacement_rune = [CHR 0xEF, CHR 0xBF, CHR 0xBD]"

section \<open>Instants in RFC 3339\<close>

text \<open>Year, month and day of a day number counted from 1970-01-01 (proleptic Gregorian).\<close>

definition civil_of_days :: "int \<Rightarrow> int \<times> int \<times> int" where
  "civil_of_days n =
     (let z = n + 719468; era = z div 146097; doe = z mod 146097;
          yoe = (doe - doe div 1460 + doe div 36524 - doe div 146096) div 365;
          doy = doe - (365 * yoe + yoe div 4 - yoe div 100);
          mp = (5 * doy + 2) div 153;
          d = doy - (153 * mp + 2) div 5 + 1;
          m = (if mp < 10 then mp + 3 else mp - 9)
      in (yoe + era * 400 + (if m \<le> 2 then 1 else 0), m, d))"

definition pad :: "nat \<Rightarrow> int \<Rightarrow> string" where
  "pad w i = show_padded w (nat i)"

definition rfc3339_seconds :: "time_ns \<Rightarrow> string" where
  "rfc3339_seconds t =
     (let secs = t div 1000000000; (y, m, d) = civil_of_days (secs div 86400); tod = secs mod 86400
      in pad 4 y @ ''-'' @ pad 2 m @ ''-'' @ pad 2 d @ ''T''
         @ pad 2 (tod div 3600) @ '':'' @ pad 2 (tod div 60 mod 60) @ '':'' @ pad 2 (tod mod 60))"

text \<open>\<open>time.RFC3339Nano\<close> drops the trailing zeros of the fraction and an empty fraction altogether.\<close>

definition strip_zeros :: "string \<Rightarrow> string" where
  "strip_zeros s = rev (dropWhile (\<lambda>c. c = CHR ''0'') (rev s))"

definition fraction :: "time_ns \<Rightarrow> string" where
  "fraction t =
     (if t mod 1000000000 = 0 then [] else CHR ''.'' # strip_zeros (pad 9 (t mod 1000000000)))"

definition rfc3339 :: "time_ns \<Rightarrow> string" where
  "rfc3339 t = rfc3339_seconds t @ ''Z''"

text \<open>\<open>time.Time.MarshalJSON\<close> refuses a year outside \<open>[0, 9999]\<close>.\<close>

definition time_text :: "time_ns \<Rightarrow> string option" where
  "time_text t =
     (let (y, m, d) = civil_of_days (t div 1000000000 div 86400)
      in if 0 \<le> y \<and> y \<le> 9999 then Some (rfc3339_seconds t @ fraction t @ ''Z'') else None)"

section \<open>Lemmas\<close>

lemma HasPrefix_append [simp]: "HasPrefix (p @ s) p"
  by (simp add: HasPrefix_def)

lemma TrimPrefix_append [simp]: "TrimPrefix (p @ s) p = s"
  by (simp add: TrimPrefix_def)

lemma HasPrefix_iff: "HasPrefix s p \<longleftrightarrow> (\<exists>t. s = p @ t)"
  unfolding HasPrefix_def by (metis append_take_drop_id append_eq_conv_conj)

lemma Split_nonempty [simp]: "Split s sep \<noteq> []"
  by (cases s) (auto split: list.splits)

text \<open>Joining the parts again with the separator gives the string back, and no part holds the separator.\<close>

fun Join :: "string list \<Rightarrow> char \<Rightarrow> string" where
  "Join [] sep = []"
| "Join [w] sep = w"
| "Join (w # v # ws) sep = w @ sep # Join (v # ws) sep"

lemma Join_Split: "Join (Split s sep) sep = s"
proof (induction s sep rule: Split.induct)
  case (1 sep)
  then show ?case by simp
next
  case (2 c cs sep)
  obtain w ws where "Split cs sep = w # ws" using Split_nonempty by (meson neq_Nil_conv)
  with 2 show ?case by (cases ws) auto
qed

lemma Split_no_sep: "w \<in> set (Split s sep) \<Longrightarrow> sep \<notin> set w"
  by (induction s sep arbitrary: w rule: Split.induct) (auto split: if_splits list.splits)

lemma hd_Split: "hd (Split s sep) = takeWhile (\<lambda>c. c \<noteq> sep) s"
proof (induction s sep rule: Split.induct)
  case (1 sep)
  then show ?case by simp
next
  case (2 c cs sep)
  obtain w ws where "Split cs sep = w # ws" using Split_nonempty by (meson neq_Nil_conv)
  with 2 show ?case by auto
qed

lemma last_index_from_append:
  "last_index_from i b (xs @ ys) x = last_index_from (i + int (length xs)) (last_index_from i b xs x) ys x"
  by (induction xs arbitrary: i b) (auto simp: algebra_simps)

lemma last_index_from_absent: "x \<notin> set xs \<Longrightarrow> last_index_from i b xs x = b"
  by (induction xs arbitrary: i b) auto

lemma LastIndex_absent: "x \<notin> set s \<Longrightarrow> LastIndex s x = -1"
  by (simp add: LastIndex_def last_index_from_absent)

lemma LastIndex_split: "x \<notin> set t \<Longrightarrow> LastIndex (s @ x # t) x = int (length s)"
  by (simp add: LastIndex_def last_index_from_append last_index_from_absent)

lemma ext_scan_no_dot:
  "CHR ''.'' \<notin> set t \<Longrightarrow> CHR ''/'' \<notin> set t \<Longrightarrow> ext_scan acc (rev t @ CHR ''.'' # s) = CHR ''.'' # t @ acc"
  by (induction t arbitrary: acc rule: rev_induct) auto

lemma Ext_append:
  "CHR ''.'' \<notin> set t \<Longrightarrow> CHR ''/'' \<notin> set t \<Longrightarrow> Ext (s @ CHR ''.'' # t) = CHR ''.'' # t"
  using ext_scan_no_dot [of t "[]" "rev s"] by (simp add: Ext_def)

end
