(* ===== verification/Json.thy ===== *)
theory Json
  imports GoText "HOL-Library.List_Lexorder" "HOL-Library.Char_ord"
begin

text \<open>
  The part of \<open>encoding/json\<close> the program relies on: the value tree, \<open>json.Marshal\<close> with its HTML
  escaping and its replacement of ill-formed UTF-8, the key order of a marshalled Go map, and the
  parser behind \<open>json.Unmarshal\<close> with its depth limit.
\<close>

datatype json =
    JNull
  | JBool bool
  | JNum string
  | JStr string
  | JArr "json list"
  | JObj "(string \<times> json) list"

definition JInt :: "int \<Rightarrow> json" where
  "JInt i = JNum (show_int i)"

text \<open>A marshalled \<open>map[string]T\<close>: the keys in increasing byte order.\<close>

definition json_map :: "(string \<times> json) list \<Rightarrow> json" where
  "json_map kvs = JObj (sort_key fst kvs)"

section \<open>Marshalling\<close>

abbreviation quote_char :: char where "quote_char \<equiv> CHR 0x22"
abbreviation backslash :: char where "backslash \<equiv> CHR 0x5C"

definition hex_digit :: "nat \<Rightarrow> char" where
  "hex_digit n = (if n < 10 then char_of (48 + n) else char_of (87 + n))"

definition escape_byte :: "char \<Rightarrow> string" where
  "escape_byte c =
     (let n = code c in
      if c = quote_char \<or> c = backslash then [backslash, c]
      else if n = 8 then backslash # ''b''
      else if n = 12 then backslash # ''f''
      else if n = 10 then backslash # ''n''
      else if n = 13 then backslash # ''r''
      else if n = 9 then backslash # ''t''
      else if n < 32 \<or> c = CHR ''<'' \<or> c = CHR ''>'' \<or> c = CHR ''&''
        then backslash # ''u00'' @ [hex_digit (n div 16), hex_digit (n mod 16)]
      else [c])"

definition line_sep :: string where "line_sep = [CHR 0xE2, CHR 0x80, CHR 0xA8]"
definition para_sep :: string where "para_sep = [CHR 0xE2, CHR 0x80, CHR 0xA9]"

fun quote_body :: "string \<Rightarrow> string" where
  "quote_body [] = []"
| "quote_body (c # cs) =
     (if code c < 0x80 then escape_byte c @ quote_body cs
      else case utf8_len (c # cs) of
        0 \<Rightarrow> backslash # ''ufffd'' @ quote_body cs
      | Suc n \<Rightarrow>
          (let r = take (Suc n) (c # cs)
           in (if r = line_sep then backslash # ''u2028''
               else if r = para_sep then backslash # ''u2029'' else r)
              @ quote_body (drop n cs)))"

definition quote :: "string \<Rightarrow> string" where
  "quote s = quote_char # quote_body s @ [quote_char]"

fun marshal :: "json \<Rightarrow> bytes"
  and marshal_elems :: "json list \<Rightarrow> bytes"
  and marshal_fields :: "(string \<times> json) list \<Rightarrow> bytes" where
  "marshal JNull = ''null''"
| "marshal (JBool b) = (if b then ''true'' else ''false'')"
| "marshal (JNum lit) = lit"
| "marshal (JStr s) = quote s"
| "marshal (JArr xs) = ''['' @ marshal_elems xs @ '']''"
| "marshal (JObj kvs) = ''{'' @ marshal_fields kvs @ ''}''"
| "marshal_elems [] = []"
| "marshal_elems [x] = marshal x"
| "marshal_elems (x # y # ys) = marshal x @ '','' @ marshal_elems (y # ys)"
| "marshal_fields [] = []"
| "marshal_fields [(k, v)] = quote k @ '':'' @ marshal v"
| "marshal_fields ((k, v) # f # fs) = quote k @ '':'' @ marshal v @ '','' @ marshal_fields (f # fs)"

section \<open>Parsing\<close>

definition is_ws :: "char \<Rightarrow> bool" where
  "is_ws c \<longleftrightarrow> c = CHR '' '' \<or> code c = 9 \<or> code c = 10 \<or> code c = 13"

definition skip_ws :: "string \<Rightarrow> string" where
  "skip_ws s = dropWhile is_ws s"

definition hex_val :: "char \<Rightarrow> nat option" where
  "hex_val c =
     (if is_digit c then Some (code c - 48)
      else if 97 \<le> code c \<and> code c \<le> 102 then Some (code c - 87)
      else if 65 \<le> code c \<and> code c \<le> 70 then Some (code c - 55)
      else None)"

text \<open>The code unit of four hexadecimal digits.\<close>

fun hex4 :: "string \<Rightarrow> nat option" where
  "hex4 (a # b # c # d # _) =
     (case (hex_val a, hex_val b, hex_val c, hex_val d) of
        (Some x, Some y, Some z, Some w) \<Rightarrow> Some (((x * 16 + y) * 16 + z) * 16 + w)
      | _ \<Rightarrow> None)"
| "hex4 _ = None"

definition is_high_surrogate :: "nat \<Rightarrow> bool" where
  "is_high_surrogate r \<longleftrightarrow> 0xD800 \<le> r \<and> r < 0xDC00"

definition is_low_surrogate :: "nat \<Rightarrow> bool" where
  "is_low_surrogate r \<longleftrightarrow> 0xDC00 \<le> r \<and> r < 0xE000"

text \<open>The second half of a surrogate pair, when the input goes on with \<open>\uXXXX\<close> holding one.\<close>

definition low_half :: "string \<Rightarrow> nat option" where
  "low_half s =
     (case s of
        b # u # rest \<Rightarrow>
          (if b = backslash \<and> u = CHR ''u'' then
             (case hex4 rest of Some r \<Rightarrow> if is_low_surrogate r then Some r else None | None \<Rightarrow> None)
           else None)
      | _ \<Rightarrow> None)"

definition simple_escape :: "char \<Rightarrow> char option" where
  "simple_escape e =
     (if e = quote_char \<or> e = backslash \<or> e = CHR ''/'' then Some e
      else if e = CHR ''b'' then Some (CHR 8)
      else if e = CHR ''f'' then Some (CHR 12)
      else if e = CHR ''n'' then Some (CHR 10)
      else if e = CHR ''r'' then Some (CHR 13)
      else if e = CHR ''t'' then Some (CHR 9)
      else None)"

definition push :: "string \<Rightarrow> (string \<times> string) option \<Rightarrow> (string \<times> string) option" where
  "push w r = map_option (\<lambda>(s, rest). (w @ s, rest)) r"

text \<open>A string literal after its opening quote: the decoded bytes and the input after the closing quote.\<close>

fun parse_str :: "string \<Rightarrow> (string \<times> string) option" where
  "parse_str [] = None"
| "parse_str (c # cs) =
     (if c = quote_char then Some ([], cs)
      else if c = backslash then
        (case cs of
           [] \<Rightarrow> None
         | e # es \<Rightarrow>
             (if e = CHR ''u'' then
                (case hex4 es of
                   None \<Rightarrow> None
                 | Some r \<Rightarrow>
                     (if is_high_surrogate r then
                        (case low_half (drop 4 es) of
                           Some l \<Rightarrow> push (encode_rune (0x10000 + (r - 0xD800) * 0x400 + (l - 0xDC00)))
                                       (parse_str (drop 10 es))
                         | None \<Rightarrow> push replacement_rune (parse_str (drop 4 es)))
                      else if is_low_surrogate r then push replacement_rune (parse_str (drop 4 es))
                      else push (encode_rune r) (parse_str (drop 4 es))))
              else (case simple_escape e of
                      None \<Rightarrow> None
                    | Some x \<Rightarrow> push [x] (parse_str es))))
      else if code c < 32 then None
      else if code c < 0x80 then push [c] (parse_str cs)
      else case utf8_len (c # cs) of
          0 \<Rightarrow> push replacement_rune (parse_str cs)
        | Suc n \<Rightarrow> push (take (Suc n) (c # cs)) (parse_str (drop n cs)))"

text \<open>Number literals: the longest prefix that follows the grammar, as the scanner does.\<close>

definition digits_split :: "string \<Rightarrow> string \<times> string" where
  "digits_split s = (takeWhile is_digit s, dropWhile is_digit s)"

definition parse_frac :: "string \<Rightarrow> (string \<times> string) option" where
  "parse_frac s =
     (case s of
        c # cs \<Rightarrow>
          (if c = CHR ''.'' then
             (case digits_split cs of (ds, rest) \<Rightarrow> if ds = [] then None else Some (c # ds, rest))
           else Some ([], s))
      | [] \<Rightarrow> Some ([], s))"

definition parse_exp :: "string \<Rightarrow> (string \<times> string) option" where
  "parse_exp s =
     (case s of
        c # cs \<Rightarrow>
          (if c = CHR ''e'' \<or> c = CHR ''E'' then
             (let (sg, t) = (case cs of d # ds \<Rightarrow> if d = CHR ''+'' \<or> d = CHR ''-'' then ([d], ds) else ([], cs)
                                      | [] \<Rightarrow> ([], cs));
                  (ds, rest) = digits_split t
              in if ds = [] then None else Some (c # sg @ ds, rest))
           else Some ([], s))
      | [] \<Rightarrow> Some ([], s))"

definition parse_int_part :: "string \<Rightarrow> (string \<times> string) option" where
  "parse_int_part s =
     (case s of
        c # cs \<Rightarrow>
          (if c = CHR ''0'' then Some ([c], cs)
           else if is_digit c then Some (digits_split s)
           else None)
      | [] \<Rightarrow> None)"

definition parse_num :: "string \<Rightarrow> (string \<times> string) option" where
  "parse_num s =
     (let (sg, t) = (case s of c # cs \<Rightarrow> if c = CHR ''-'' then ([c], cs) else ([], s) | [] \<Rightarrow> ([], s))
      in case parse_int_part t of
           None \<Rightarrow> None
         | Some (i, t1) \<Rightarrow>
             (case parse_frac t1 of
                None \<Rightarrow> None
              | Some (f, t2) \<Rightarrow>
                  (case parse_exp t2 of
                     None \<Rightarrow> None
                   | Some (e, rest) \<Rightarrow> Some (sg @ i @ f @ e, rest))))"

text \<open>
  Values. The first argument is fuel, spent by one in every call; the second is the number of
  array and object levels that may still be opened (the scanner refuses more than 10000).
  White space before the value has been skipped by the caller.
\<close>

fun parse_value :: "nat \<Rightarrow> nat \<Rightarrow> string \<Rightarrow> (json \<times> string) option"
  and parse_elems :: "nat \<Rightarrow> nat \<Rightarrow> string \<Rightarrow> (json list \<times> string) option"
  and parse_fields :: "nat \<Rightarrow> nat \<Rightarrow> string \<Rightarrow> ((string \<times> json) list \<times> string) option" where
  "parse_value 0 d s = None"
| "parse_value (Suc k) d s =
     (case s of
        [] \<Rightarrow> None
      | c # cs \<Rightarrow>
          (if c = quote_char then map_option (\<lambda>(t, rest). (JStr t, rest)) (parse_str cs)
           else if c = CHR ''['' then
             (if d = 0 then None
              else case skip_ws cs of
                  [] \<Rightarrow> None
                | e # es \<Rightarrow>
                    (if e = CHR '']'' then Some (JArr [], es)
                     else map_option (\<lambda>(xs, rest). (JArr xs, rest)) (parse_elems k (d - 1) (e # es))))
           else if c = CHR ''{'' then
             (if d = 0 then None
              else case skip_ws cs of
                  [] \<Rightarrow> None
                | e # es \<Rightarrow>
                    (if e = CHR ''}'' then Some (JObj [], es)
                     else map_option (\<lambda>(fs, rest). (JObj fs, rest)) (parse_fields k (d - 1) (e # es))))
           else if take 4 s = ''null'' then Some (JNull, drop 4 s)
           else if take 4 s = ''true'' then Some (JBool True, drop 4 s)
           else if take 5 s = ''false'' then Some (JBool False, drop 5 s)
           else map_option (\<lambda>(lit, rest). (JNum lit, rest)) (parse_num s)))"
| "parse_elems 0 d s = None"
| "parse_elems (Suc k) d s =
     (case parse_value k d s of
        None \<Rightarrow> None
      | Some (x, rest) \<Rightarrow>
          (case skip_ws rest of
             [] \<Rightarrow> None
           | e # es \<Rightarrow>
               (if e = CHR '']'' then Some ([x], es)
                else if e = CHR '','' then map_option (\<lambda>(xs, r). (x # xs, r)) (parse_elems k d (skip_ws es))
                else None)))"
| "parse_fields 0 d s = None"
| "parse_fields (Suc k) d s =
     (case s of
        [] \<Rightarrow> None
      | c # cs \<Rightarrow>
          (if c \<noteq> quote_char then None
           else case parse_str cs of
               None \<Rightarrow> None
             | Some (key, rest) \<Rightarrow>
                 (case skip_ws rest of
                    [] \<Rightarrow> None
                  | e # es \<Rightarrow>
                      (if e \<noteq> CHR '':'' then None
                       else case parse_value k d (skip_ws es) of
                           None \<Rightarrow> None
                         | Some (v, rest') \<Rightarrow>
                             (case skip_ws rest' of
                                [] \<Rightarrow> None
                              | f # fs \<Rightarrow>
                                  (if f = CHR ''}'' then Some ([(key, v)], fs)
                                   else if f = CHR '','' then
                                     map_option (\<lambda>(kvs, r). ((key, v) # kvs, r)) (parse_fields k d (skip_ws fs))
                                   else None))))))"

definition max_depth :: nat where "max_depth = 10000"

text \<open>
  A whole document: one value between white space. Every call consumes input or is one of a
  constant number of calls made at the same position, so twice the length of the input is enough fuel.
\<close>

definition parse_json :: "bytes \<Rightarrow> json option" where
  "parse_json s =
     (case parse_value (2 * length s + 2) max_depth (skip_ws s) of
        Some (v, rest) \<Rightarrow> if skip_ws rest = [] then Some v else None
      | None \<Rightarrow> None)"

end
