(* ===== verification/JsonRoundtrip.thy ===== *)
theory JsonRoundtrip
  imports Json
begin

text \<open>
  Parsing undoes marshalling: for every value whose numbers are integer literals and which is nested
  no deeper than the scanner allows, \<open>parse_json\<close> gives back the value that \<open>marshal\<close> printed, with
  U+FFFD in the place of every ill-formed byte of its strings (\<open>clean\<close>); a value whose strings are
  well-formed UTF-8 comes back as it was.
\<close>

section \<open>Well-formed UTF-8\<close>

fun valid_utf8 :: "string \<Rightarrow> bool" where
  "valid_utf8 [] = True"
| "valid_utf8 (c # cs) = (case utf8_len (c # cs) of 0 \<Rightarrow> False | Suc n \<Rightarrow> valid_utf8 (drop n cs))"

text \<open>The string that is left when every byte that starts no UTF-8 sequence is replaced by U+FFFD.\<close>

fun to_utf8 :: "string \<Rightarrow> string" where
  "to_utf8 [] = []"
| "to_utf8 (c # cs) =
     (case utf8_len (c # cs) of
        0 \<Rightarrow> replacement_rune @ to_utf8 cs
      | Suc n \<Rightarrow> take (Suc n) (c # cs) @ to_utf8 (drop n cs))"

lemma to_utf8_valid [simp]: "valid_utf8 s \<Longrightarrow> to_utf8 s = s"
proof (induction s rule: to_utf8.induct)
  case 1
  then show ?case by simp
next
  case (2 c cs)
  then obtain n where n: "utf8_len (c # cs) = Suc n" "valid_utf8 (drop n cs)"
    by (auto split: nat.splits simp del: utf8_len.simps)
  then show ?case using "2.IH"(2) by (simp del: utf8_len.simps)
qed

lemma code_less: "code c < 256"
  by (simp add: code_def)

lemma char_of_code [simp]: "char_of (code c) = c"
  by (simp add: code_def)

lemma utf8_len2_bound: "utf8_len2 a s \<le> Suc (length s)"
  by (auto simp: utf8_len2_def split: list.splits)

lemma utf8_len3_bound: "utf8_len3 a s \<le> Suc (length s)"
  by (auto simp: utf8_len3_def split: list.splits)

lemma utf8_len4_bound: "utf8_len4 a s \<le> Suc (length s)"
  by (auto simp: utf8_len4_def split: list.splits)

lemma utf8_len_bound: "utf8_len s \<le> length s"
  using utf8_len2_bound utf8_len3_bound utf8_len4_bound by (cases s) auto

text \<open>A complete sequence is recognised whatever follows it.\<close>

lemma utf8_len2_append: "utf8_len2 a s \<noteq> 0 \<Longrightarrow> utf8_len2 a (s @ t) = utf8_len2 a s"
  by (auto simp: utf8_len2_def split: list.splits if_splits)

lemma utf8_len3_append: "utf8_len3 a s \<noteq> 0 \<Longrightarrow> utf8_len3 a (s @ t) = utf8_len3 a s"
  by (auto simp: utf8_len3_def split: list.splits if_splits)

lemma utf8_len4_append: "utf8_len4 a s \<noteq> 0 \<Longrightarrow> utf8_len4 a (s @ t) = utf8_len4 a s"
  by (auto simp: utf8_len4_def split: list.splits if_splits)

lemma utf8_len2_lead: "utf8_len2 a s \<noteq> 0 \<Longrightarrow> code a < 0xE0"
  by (auto simp: utf8_len2_def byte_in_def split: list.splits if_splits)

lemma utf8_len3_lead: "utf8_len3 a s \<noteq> 0 \<Longrightarrow> 0xE0 \<le> code a \<and> code a < 0xF0"
  by (auto simp: utf8_len3_def byte_in_def split: list.splits if_splits)

lemma utf8_len4_lead: "utf8_len4 a s \<noteq> 0 \<Longrightarrow> 0xF0 \<le> code a"
  by (auto simp: utf8_len4_def byte_in_def split: list.splits if_splits)

lemma utf8_len_append:
  assumes "utf8_len (c # cs) \<noteq> 0"
  shows "utf8_len (c # cs @ t) = utf8_len (c # cs)"
proof (cases "code c < 0x80")
  case True
  then show ?thesis by simp
next
  case False
  consider (two) "utf8_len2 c cs \<noteq> 0" | (three) "utf8_len2 c cs = 0" "utf8_len3 c cs \<noteq> 0"
    | (four) "utf8_len2 c cs = 0" "utf8_len3 c cs = 0" "utf8_len4 c cs \<noteq> 0"
    using assms False by (auto split: if_splits)
  then show ?thesis
  proof cases
    case two
    then show ?thesis using False by (simp add: utf8_len2_append)
  next
    case three
    then have "utf8_len2 c (cs @ t) = 0"
      using utf8_len2_lead [of c "cs @ t"] utf8_len3_lead [of c cs] by linarith
    then show ?thesis using False three by (simp add: utf8_len3_append)
  next
    case four
    then have "utf8_len2 c (cs @ t) = 0" "utf8_len3 c (cs @ t) = 0"
      using utf8_len2_lead [of c "cs @ t"] utf8_len3_lead [of c "cs @ t"] utf8_len4_lead [of c cs]
      by linarith+
    then show ?thesis using False four by (simp add: utf8_len4_append)
  qed
qed

section \<open>String literals\<close>

lemma code_hex_digit: "d < 16 \<Longrightarrow> code (hex_digit d) = (if d < 10 then 48 + d else 87 + d)"
  by (simp add: hex_digit_def code_def)

lemma hex_val_hex_digit: "d < 16 \<Longrightarrow> hex_val (hex_digit d) = Some d"
  by (simp add: hex_val_def is_digit_def code_hex_digit flip: code_def)

lemma hex_val_zero: "hex_val (CHR ''0'') = Some 0"
  by (simp add: hex_val_def is_digit_def code_def)

lemma hex4_escape:
  assumes "n < 256"
  shows "hex4 (CHR ''0'' # CHR ''0'' # hex_digit (n div 16) # hex_digit (n mod 16) # r) = Some n"
proof -
  have "n div 16 < 16" using assms by simp
  then show ?thesis by (simp add: hex_val_hex_digit hex_val_zero)
qed

lemma push_Some [simp]: "push w (Some (s, r)) = Some (w @ s, r)"
  by (simp add: push_def)

lemma encode_rune_ascii: "n < 0x80 \<Longrightarrow> encode_rune n = [char_of n]"
  by (simp add: encode_rune_def)

text \<open>Whatever the escape of an ASCII byte is, the parser reads it back as that byte.\<close>

lemma code_chars:
  "code CHR 0x22 = 34" "code CHR 0x5C = 92" "code CHR ''/'' = 47" "code CHR ''u'' = 117"
  "code CHR ''0'' = 48"
  by (simp_all add: code_def)

lemma code_inject: "code a = code b \<longleftrightarrow> a = b"
  by (simp add: code_def)

lemma char_eq_code: "c = CHR 8 \<longleftrightarrow> code c = 8" "c = CHR 12 \<longleftrightarrow> code c = 12" "c = CHR 10 \<longleftrightarrow> code c = 10"
  "c = CHR 13 \<longleftrightarrow> code c = 13" "c = CHR 9 \<longleftrightarrow> code c = 9"
  by (simp_all add: code_inject [symmetric] code_def)

lemma parse_str_unicode:
  assumes "n < 0x80"
  shows "parse_str (backslash # CHR ''u'' # CHR ''0'' # CHR ''0'' # hex_digit (n div 16)
           # hex_digit (n mod 16) # r) = push [char_of n] (parse_str r)"
proof -
  have "hex4 (CHR ''0'' # CHR ''0'' # hex_digit (n div 16) # hex_digit (n mod 16) # r) = Some n"
    using assms by (simp only: hex4_escape)
  then show ?thesis
    using assms
    by (simp add: is_high_surrogate_def is_low_surrogate_def encode_rune_ascii del: hex4.simps)
qed

lemma parse_str_escape:
  assumes "code c < 0x80"
  shows "parse_str (escape_byte c @ r) = push [c] (parse_str r)"
proof -
  consider "c = quote_char" | "c = backslash" | "c = CHR 8" | "c = CHR 12" | "c = CHR 10"
    | "c = CHR 13" | "c = CHR 9"
    | (hex) "c \<noteq> quote_char" "c \<noteq> backslash" "code c \<notin> {8, 9, 10, 12, 13}"
        "code c < 32 \<or> c = CHR ''<'' \<or> c = CHR ''>'' \<or> c = CHR ''&''"
    | (plain) "c \<noteq> quote_char" "c \<noteq> backslash" "code c \<notin> {8, 9, 10, 12, 13}"
        "\<not> (code c < 32 \<or> c = CHR ''<'' \<or> c = CHR ''>'' \<or> c = CHR ''&'')"
    unfolding char_eq_code by blast
  then show ?thesis
  proof cases
    case hex
    then have "escape_byte c @ r =
        backslash # CHR ''u'' # CHR ''0'' # CHR ''0'' # hex_digit (code c div 16) # hex_digit (code c mod 16) # r"
      by (simp add: escape_byte_def Let_def)
    then show ?thesis using assms parse_str_unicode [of "code c" r] by simp
  next
    case plain
    then have "escape_byte c @ r = c # r" by (simp add: escape_byte_def Let_def)
    then show ?thesis using plain assms by simp
  qed (simp_all add: escape_byte_def Let_def simple_escape_def code_def)
qed

lemma char_of_bytes:
  "char_of (226::nat) = CHR 0xE2" "char_of (128::nat) = CHR 0x80"
  "char_of (168::nat) = CHR 0xA8" "char_of (169::nat) = CHR 0xA9"
  using char_of_code [of "CHR 0xE2"] char_of_code [of "CHR 0x80"]
    char_of_code [of "CHR 0xA8"] char_of_code [of "CHR 0xA9"]
  by (simp_all add: code_def)

lemma encode_sep: "encode_rune 0x2028 = line_sep" "encode_rune 0x2029 = para_sep"
  by (simp_all add: encode_rune_def line_sep_def para_sep_def char_of_bytes)

lemma hex4_sep: "hex4 (''2028'' @ r) = Some 0x2028" "hex4 (''2029'' @ r) = Some 0x2029"
  by (simp_all add: hex_val_def is_digit_def code_def)

lemma parse_str_sep:
  "parse_str ((backslash # ''u2028'') @ r) = push line_sep (parse_str r)"
  "parse_str ((backslash # ''u2029'') @ r) = push para_sep (parse_str r)"
  using hex4_sep [of r]
  by (simp_all add: is_high_surrogate_def is_low_surrogate_def encode_sep del: hex4.simps)

lemma utf8_len2_take: "utf8_len2 a s \<noteq> 0 \<Longrightarrow> utf8_len2 a (take (utf8_len2 a s - 1) s) \<noteq> 0"
  by (auto simp: utf8_len2_def split: list.splits if_splits)

lemma utf8_len3_take: "utf8_len3 a s \<noteq> 0 \<Longrightarrow> utf8_len3 a (take (utf8_len3 a s - 1) s) \<noteq> 0"
  by (auto simp: utf8_len3_def split: list.splits if_splits)

lemma utf8_len4_take: "utf8_len4 a s \<noteq> 0 \<Longrightarrow> utf8_len4 a (take (utf8_len4 a s - 1) s) \<noteq> 0"
  by (auto simp: utf8_len4_def split: list.splits if_splits)

lemma utf8_len_take:
  assumes "utf8_len (c # cs) = Suc n"
  shows "utf8_len (c # take n cs) \<noteq> 0"
  using assms utf8_len2_take [of c cs] utf8_len3_take [of c cs] utf8_len4_take [of c cs]
  by (auto split: if_splits)

text \<open>The recognised sequence is recognised as a whole, with anything behind it.\<close>

lemma utf8_len_take_append:
  assumes "utf8_len (c # cs) = Suc n"
  shows "utf8_len (c # take n cs @ r) = Suc n"
proof -
  have "utf8_len (c # take n cs) \<noteq> 0" using assms by (rule utf8_len_take)
  then have "utf8_len (c # take n cs @ drop n cs) = utf8_len (c # take n cs)"
    and "utf8_len (c # take n cs @ r) = utf8_len (c # take n cs)"
    by (simp_all only: utf8_len_append not_False_eq_True)
  then show ?thesis using assms by simp
qed

lemma parse_str_rune:
  assumes "\<not> code c < 0x80" "utf8_len (c # cs) = Suc n"
  shows "parse_str (take (Suc n) (c # cs) @ r) = push (take (Suc n) (c # cs)) (parse_str r)"
proof -
  have n: "n \<le> length cs" using utf8_len_bound [of "c # cs"] assms(2) by simp
  have "c \<noteq> quote_char" "c \<noteq> backslash" using assms(1) by (auto simp: code_chars)
  then show ?thesis
    using assms n utf8_len_take_append [OF assms(2), of r] by (simp del: utf8_len.simps)
qed

lemma hex4_replacement: "hex4 (''fffd'' @ r) = Some 0xFFFD"
  by (simp add: hex_val_def is_digit_def code_def)

lemma char_of_replacement: "char_of (239::nat) = CHR 0xEF" "char_of (191::nat) = CHR 0xBF" "char_of (189::nat) = CHR 0xBD"
  using char_of_code [of "CHR 0xEF"] char_of_code [of "CHR 0xBF"] char_of_code [of "CHR 0xBD"]
  by (simp_all add: code_def)

lemma parse_str_replacement:
  "parse_str ((backslash # ''ufffd'') @ r) = push replacement_rune (parse_str r)"
proof -
  have "encode_rune 0xFFFD = replacement_rune"
    by (simp add: encode_rune_def replacement_rune_def char_of_replacement)
  then show ?thesis
    using hex4_replacement [of r] by (simp add: is_high_surrogate_def is_low_surrogate_def del: hex4.simps)
qed

text \<open>One rune that is not ASCII, separators included, before the rest of a quoted string.\<close>

lemma parse_str_quote_rune:
  assumes high: "\<not> code c < 0x80" and n: "utf8_len (c # cs) = Suc n"
    and tl: "parse_str (quote_body (drop n cs) @ r) = Some (t, rest)"
  shows "parse_str (quote_body (c # cs) @ r) = Some (take (Suc n) (c # cs) @ t, rest)"
proof -
  let ?u = "take (Suc n) (c # cs)"
  consider (line) "?u = line_sep" | (para) "?u = para_sep" "?u \<noteq> line_sep"
    | (plain) "?u \<noteq> line_sep" "?u \<noteq> para_sep" by blast
  then show ?thesis
  proof cases
    case line
    have "quote_body (c # cs) = (backslash # ''u2028'') @ quote_body (drop n cs)"
      using high n line by (simp del: utf8_len.simps take_Suc_Cons)
    then show ?thesis using tl line by (simp only: append_assoc parse_str_sep push_Some)
  next
    case para
    have "quote_body (c # cs) = (backslash # ''u2029'') @ quote_body (drop n cs)"
      using high n para by (simp del: utf8_len.simps take_Suc_Cons)
    then show ?thesis using tl para by (simp only: append_assoc parse_str_sep push_Some)
  next
    case plain
    have "quote_body (c # cs) = ?u @ quote_body (drop n cs)"
      using high n plain by (simp del: utf8_len.simps take_Suc_Cons)
    then show ?thesis
      using tl parse_str_rune [OF high n] by (simp del: take_Suc_Cons parse_str.simps)
  qed
qed

theorem parse_str_quote_body:
  "parse_str (quote_body s @ quote_char # rest) = Some (to_utf8 s, rest)"
proof (induction s rule: quote_body.induct)
  case 1
  then show ?case by simp
next
  case (2 c cs)
  consider (ascii) "code c < 0x80" | (bad) "\<not> code c < 0x80" "utf8_len (c # cs) = 0"
    | (rune) n where "\<not> code c < 0x80" "utf8_len (c # cs) = Suc n"
    using not0_implies_Suc by blast
  then show ?case
  proof cases
    case ascii
    then show ?thesis using "2.IH"(1) by (simp add: parse_str_escape)
  next
    case bad
    then have "quote_body (c # cs) = (backslash # ''ufffd'') @ quote_body cs"
      "to_utf8 (c # cs) = replacement_rune @ to_utf8 cs"
      by (simp_all del: utf8_len.simps)
    then show ?thesis
      using "2.IH"(2) [OF bad] by (simp only: append_assoc parse_str_replacement push_Some)
  next
    case rune
    then show ?thesis
      using parse_str_quote_rune [OF rune "2.IH"(3) [OF rune]] by (simp del: utf8_len.simps)
  qed
qed

section \<open>Integer literals\<close>

text \<open>What may follow a value inside a document: nothing, or a delimiter.\<close>

definition stops :: "string \<Rightarrow> bool" where
  "stops r \<longleftrightarrow> r = [] \<or> hd r = CHR '','' \<or> hd r = CHR '']'' \<or> hd r = CHR ''}''"

lemma stops_simps [simp]:
  "stops []" "stops (CHR '','' # r)" "stops (CHR '']'' # r)" "stops (CHR ''}'' # r)"
  by (simp_all add: stops_def)

lemma stops_cases: "stops r \<Longrightarrow> r = [] \<or> (\<exists>c cs. r = c # cs \<and> c \<in> {CHR '','', CHR '']'', CHR ''}''})"
  by (cases r) (auto simp: stops_def)

lemma stops_takeWhile [simp]: "stops r \<Longrightarrow> takeWhile is_digit r = []" "stops r \<Longrightarrow> dropWhile is_digit r = r"
  by (auto dest!: stops_cases simp: is_digit_def)

lemma digits_split_stops: "(\<forall>c \<in> set ds. is_digit c) \<Longrightarrow> stops r \<Longrightarrow> digits_split (ds @ r) = (ds, r)"
  by (induction ds) (auto simp: digits_split_def)

lemma show_nat_head: "n \<noteq> 0 \<Longrightarrow> \<exists>c cs. show_nat n = c # cs \<and> c \<noteq> CHR ''0'' \<and> is_digit c"
proof (induction n rule: show_nat.induct)
  case (1 n)
  show ?case
  proof (cases "n < 10")
    case True
    have "code (digit_char n) = 48 + n" using True by (simp add: code_def)
    then have "digit_char n \<noteq> CHR ''0''" using 1(2) by (auto simp: code_def)
    then show ?thesis using True by (simp add: show_nat.simps [of n])
  next
    case False
    then obtain c cs where "show_nat (n div 10) = c # cs \<and> c \<noteq> CHR ''0'' \<and> is_digit c"
      using 1 by fastforce
    then show ?thesis using False by (simp add: show_nat.simps [of n])
  qed
qed

lemma show_nat_0: "show_nat 0 = ''0''"
  using char_of_code [of "CHR ''0''"] by (simp add: show_nat.simps digit_char_def code_def)

lemma parse_frac_stops: "stops r \<Longrightarrow> parse_frac r = Some ([], r)"
  by (auto dest!: stops_cases simp: parse_frac_def)

lemma parse_exp_stops: "stops r \<Longrightarrow> parse_exp r = Some ([], r)"
  by (auto dest!: stops_cases simp: parse_exp_def)

lemma parse_int_part_show_nat:
  assumes "stops r"
  shows "parse_int_part (show_nat n @ r) = Some (show_nat n, r)"
proof (cases "n = 0")
  case True
  then show ?thesis by (simp add: show_nat_0 parse_int_part_def)
next
  case False
  then obtain c cs where c: "show_nat n = c # cs" "c \<noteq> CHR ''0''" "is_digit c"
    using show_nat_head by blast
  have "digits_split (show_nat n @ r) = (show_nat n, r)"
    by (rule digits_split_stops) (use show_nat_digits assms in auto)
  then show ?thesis using c by (simp add: parse_int_part_def)
qed

lemma show_nat_not_minus: "show_nat n = c # cs \<Longrightarrow> c \<noteq> CHR ''-''"
  using show_nat_digits [of c n] by (auto simp: is_digit_def)

lemma parse_num_show_int:
  assumes "stops r"
  shows "parse_num (show_int i @ r) = Some (show_int i, r)"
proof -
  obtain c cs where c: "show_nat (nat i) = c # cs" by (meson neq_Nil_conv show_nat_nonempty)
  have "parse_int_part ((c # cs) @ r) = Some (c # cs, r)"
    using parse_int_part_show_nat [OF assms, of "nat i"] c by simp
  then show ?thesis
    using c show_nat_not_minus [OF c] assms parse_int_part_show_nat [OF assms, of "nat (- i)"]
    by (auto simp: parse_num_def show_int_def parse_frac_stops parse_exp_stops)
qed

lemma show_int_head: "\<exists>c cs. show_int i = c # cs \<and> (is_digit c \<or> c = CHR ''-'')"
  by (metis list.set_intros(1) neq_Nil_conv show_int_def show_nat_digits show_nat_nonempty)

section \<open>Values\<close>

text \<open>
  \<open>int_json\<close>: the numbers are integer literals, as in everything the gateway sends; \<open>wf_json\<close>: the
  strings are well-formed UTF-8 as well. \<open>clean\<close> is what is read back.
\<close>

fun int_json :: "json \<Rightarrow> bool" and int_elems :: "json list \<Rightarrow> bool"
  and int_fields :: "(string \<times> json) list \<Rightarrow> bool" where
  "int_json (JNum lit) = (\<exists>i. lit = show_int i)"
| "int_json (JArr xs) = int_elems xs"
| "int_json (JObj fs) = int_fields fs"
| "int_json _ = True"
| "int_elems [] = True"
| "int_elems (x # xs) = (int_json x \<and> int_elems xs)"
| "int_fields [] = True"
| "int_fields ((k, v) # fs) = (int_json v \<and> int_fields fs)"

fun wf_json :: "json \<Rightarrow> bool" and wf_elems :: "json list \<Rightarrow> bool"
  and wf_fields :: "(string \<times> json) list \<Rightarrow> bool" where
  "wf_json JNull = True"
| "wf_json (JBool b) = True"
| "wf_json (JNum lit) = (\<exists>i. lit = show_int i)"
| "wf_json (JStr s) = valid_utf8 s"
| "wf_json (JArr xs) = wf_elems xs"
| "wf_json (JObj fs) = wf_fields fs"
| "wf_elems [] = True"
| "wf_elems (x # xs) = (wf_json x \<and> wf_elems xs)"
| "wf_fields [] = True"
| "wf_fields ((k, v) # fs) = (valid_utf8 k \<and> wf_json v \<and> wf_fields fs)"

fun clean :: "json \<Rightarrow> json" and clean_elems :: "json list \<Rightarrow> json list"
  and clean_fields :: "(string \<times> json) list \<Rightarrow> (string \<times> json) list" where
  "clean (JStr s) = JStr (to_utf8 s)"
| "clean (JArr xs) = JArr (clean_elems xs)"
| "clean (JObj fs) = JObj (clean_fields fs)"
| "clean JNull = JNull"
| "clean (JBool b) = JBool b"
| "clean (JNum lit) = JNum lit"
| "clean_elems [] = []"
| "clean_elems (x # xs) = clean x # clean_elems xs"
| "clean_fields [] = []"
| "clean_fields ((k, v) # fs) = (to_utf8 k, clean v) # clean_fields fs"

lemma wf_clean:
  "wf_json v \<Longrightarrow> int_json v \<and> clean v = v"
  "wf_elems xs \<Longrightarrow> int_elems xs \<and> clean_elems xs = xs"
  "wf_fields fs \<Longrightarrow> int_fields fs \<and> clean_fields fs = fs"
  by (induction v and xs and fs rule: wf_json_wf_elems_wf_fields.induct) auto

fun depth :: "json \<Rightarrow> nat" and depth_elems :: "json list \<Rightarrow> nat"
  and depth_fields :: "(string \<times> json) list \<Rightarrow> nat" where
  "depth (JArr xs) = Suc (depth_elems xs)"
| "depth (JObj fs) = Suc (depth_fields fs)"
| "depth _ = 0"
| "depth_elems [] = 0"
| "depth_elems (x # xs) = max (depth x) (depth_elems xs)"
| "depth_fields [] = 0"
| "depth_fields ((k, v) # fs) = max (depth v) (depth_fields fs)"

definition starts_value :: "char \<Rightarrow> bool" where
  "starts_value c \<longleftrightarrow> \<not> is_ws c \<and> c \<noteq> CHR '']'' \<and> c \<noteq> CHR ''}''"

lemma marshal_head: "int_json v \<Longrightarrow> \<exists>c cs. marshal v = c # cs \<and> starts_value c"
proof (cases v)
  case (JNum lit)
  assume "int_json v"
  then obtain i c cs where "lit = show_int i" "lit = c # cs" "is_digit c \<or> c = CHR ''-''"
    using JNum show_int_head by (metis int_json.simps(1))
  then have "starts_value c" by (auto simp: starts_value_def is_ws_def is_digit_def code_def)
  then show ?thesis using JNum \<open>lit = c # cs\<close> by simp
qed (simp_all add: starts_value_def is_ws_def code_def quote_def)

lemma skip_ws_marshal: "int_json v \<Longrightarrow> skip_ws (marshal v @ r) = marshal v @ r"
  using marshal_head [of v] by (auto simp: skip_ws_def starts_value_def)

lemma skip_ws_delim [simp]:
  "skip_ws (CHR '','' # r) = CHR '','' # r" "skip_ws (CHR '']'' # r) = CHR '']'' # r"
  "skip_ws (CHR ''}'' # r) = CHR ''}'' # r" "skip_ws (CHR '':'' # r) = CHR '':'' # r"
  "skip_ws (quote_char # r) = quote_char # r" "skip_ws [] = []"
  by (simp_all add: skip_ws_def is_ws_def code_def)

lemma parse_value_num:
  assumes "stops r"
  shows "parse_value (Suc k) d (show_int i @ r) = Some (JNum (show_int i), r)"
proof -
  obtain c cs where c: "show_int i = c # cs" "is_digit c \<or> c = CHR ''-''"
    using show_int_head by blast
  then have "c \<notin> {quote_char, CHR ''['', CHR ''{'', CHR ''n'', CHR ''t'', CHR ''f''}"
    by (auto simp: is_digit_def)
  then show ?thesis using c parse_num_show_int [OF assms, of i] by auto
qed

lemma parse_value_str:
  "parse_value (Suc k) d (quote s @ r) = Some (JStr (to_utf8 s), r)"
  by (simp add: quote_def parse_str_quote_body)

lemma quote_length: "2 \<le> length (quote s)"
  by (simp add: quote_def)

lemma marshal_elems_head: "int_elems (x # xs) \<Longrightarrow> \<exists>c cs. marshal_elems (x # xs) = c # cs \<and> starts_value c"
  using marshal_head [of x] by (cases xs) auto

lemma marshal_fields_head: "\<exists>cs. marshal_fields (f # fs) = quote_char # cs"
  by (cases fs; cases f) (auto simp: quote_def)

lemma skip_ws_head: "starts_value c \<Longrightarrow> skip_ws (c # cs) = c # cs"
  by (simp add: skip_ws_def starts_value_def)

lemma parse_value_arr:
  assumes "parse_elems k d (marshal_elems (x # xs) @ CHR '']'' # r) = Some (ys, r)" "int_elems (x # xs)"
  shows "parse_value (Suc k) (Suc d) (marshal (JArr (x # xs)) @ r) = Some (JArr ys, r)"
proof -
  obtain c cs where "marshal_elems (x # xs) = c # cs" "starts_value c"
    using marshal_elems_head assms(2) by blast
  then show ?thesis using assms(1) by (simp add: skip_ws_head starts_value_def)
qed

lemma parse_value_obj:
  assumes "parse_fields k d (marshal_fields (f # fs) @ CHR ''}'' # r) = Some (kvs, r)"
  shows "parse_value (Suc k) (Suc d) (marshal (JObj (f # fs)) @ r) = Some (JObj kvs, r)"
proof -
  obtain cs where "marshal_fields (f # fs) = quote_char # cs" using marshal_fields_head by blast
  then show ?thesis using assms by simp
qed

lemma parse_field_head:
  assumes "int_json v" "parse_value k d (marshal v @ r) = Some (w, r)"
  shows "parse_fields (Suc k) d (quote key @ CHR '':'' # marshal v @ r) =
     (case skip_ws r of
        [] \<Rightarrow> None
      | f # fs \<Rightarrow>
          (if f = CHR ''}'' then Some ([(to_utf8 key, w)], fs)
           else if f = CHR '','' then
             map_option (\<lambda>(kvs, r'). ((to_utf8 key, w) # kvs, r')) (parse_fields k d (skip_ws fs))
           else None))"
  using assms by (simp add: quote_def parse_str_quote_body skip_ws_marshal split: list.splits)

section \<open>The round trip\<close>

lemma parse_marshal:
  "int_json v \<Longrightarrow> depth v \<le> d \<Longrightarrow> 2 * length (marshal v) \<le> k \<Longrightarrow> stops r
     \<Longrightarrow> parse_value k d (marshal v @ r) = Some (clean v, r)"
  "xs \<noteq> [] \<Longrightarrow> int_elems xs \<Longrightarrow> depth_elems xs \<le> d \<Longrightarrow> 2 * length (marshal_elems xs) + 1 \<le> k
     \<Longrightarrow> parse_elems k d (marshal_elems xs @ CHR '']'' # r) = Some (clean_elems xs, r)"
  "fs \<noteq> [] \<Longrightarrow> int_fields fs \<Longrightarrow> depth_fields fs \<le> d \<Longrightarrow> 2 * length (marshal_fields fs) + 1 \<le> k
     \<Longrightarrow> parse_fields k d (marshal_fields fs @ CHR ''}'' # r) = Some (clean_fields fs, r)"
proof (induction v and xs and fs arbitrary: d k r and d k r and d k r
    rule: marshal_marshal_elems_marshal_fields.induct)
  case 1
  then show ?case by (cases k) auto
next
  case (2 b)
  then show ?case by (cases k; cases b) auto
next
  case (3 lit)
  then obtain i where "lit = show_int i" by auto
  moreover from this have "lit \<noteq> []" using show_int_head [of i] by auto
  ultimately show ?case using 3 parse_value_num by (cases k) auto
next
  case (4 s)
  then show ?case using parse_value_str quote_length [of s] by (cases k) auto
next
  case (5 xs)
  then obtain k' d' where k: "k = Suc k'" "d = Suc d'" by (cases k; cases d) auto
  show ?case
  proof (cases xs)
    case Nil
    then show ?thesis using k by simp
  next
    case (Cons y ys)
    have "parse_elems k' d' (marshal_elems xs @ CHR '']'' # r) = Some (clean_elems xs, r)"
      by (rule 5(1)) (use 5 k Cons in auto)
    moreover have "int_elems (y # ys)" using 5(2) Cons by (simp only: int_json.simps)
    ultimately have "parse_value (Suc k') (Suc d') (marshal (JArr (y # ys)) @ r) = Some (JArr (clean_elems xs), r)"
      using parse_value_arr unfolding Cons by blast
    then show ?thesis by (simp only: k Cons clean.simps)
  qed
next
  case (6 fs)
  then obtain k' d' where k: "k = Suc k'" "d = Suc d'" by (cases k; cases d) auto
  show ?case
  proof (cases fs)
    case Nil
    then show ?thesis using k by simp
  next
    case (Cons y ys)
    have "parse_fields k' d' (marshal_fields fs @ CHR ''}'' # r) = Some (clean_fields fs, r)"
      by (rule 6(1)) (use 6 k Cons in auto)
    then have "parse_value (Suc k') (Suc d') (marshal (JObj (y # ys)) @ r) = Some (JObj (clean_fields fs), r)"
      using parse_value_obj unfolding Cons by blast
    then show ?thesis by (simp only: k Cons clean.simps)
  qed
next
  case 7
  then show ?case by simp
next
  case (8 x)
  then obtain k' where k: "k = Suc k'" by (cases k) auto
  then have "parse_value k' d (marshal x @ CHR '']'' # r) = Some (clean x, CHR '']'' # r)"
    using 8 by simp
  then show ?case using k by simp
next
  case (9 x y ys)
  then obtain k' where k: "k = Suc k'" by (cases k) auto
  have x: "parse_value k' d (marshal x @ (CHR '','' # marshal_elems (y # ys) @ CHR '']'' # r)) =
      Some (clean x, CHR '','' # marshal_elems (y # ys) @ CHR '']'' # r)"
    by (rule 9(1)) (use 9 k in auto)
  have tl: "parse_elems k' d (marshal_elems (y # ys) @ CHR '']'' # r) = Some (clean_elems (y # ys), r)"
    by (rule 9(2)) (use 9 k in auto)
  obtain c cs where "marshal_elems (y # ys) = c # cs" "starts_value c"
    using marshal_elems_head [of y ys] 9 by auto
  then show ?case using x tl k by (simp add: skip_ws_head)
next
  case 10
  then show ?case by simp
next
  case (11 key v)
  then obtain k' where k: "k = Suc k'" by (cases k) auto
  have "parse_value k' d (marshal v @ CHR ''}'' # r) = Some (clean v, CHR ''}'' # r)"
    by (rule 11(1)) (use 11 k in auto)
  then show ?case using 11 k parse_field_head [where key = key and v = v and k = k' and d = d and w = "clean v" and r = "CHR ''}'' # r"] by simp
next
  case (12 key v f fs)
  then obtain k' where k: "k = Suc k'" by (cases k) auto
  have v: "parse_value k' d (marshal v @ CHR '','' # marshal_fields (f # fs) @ CHR ''}'' # r) =
      Some (clean v, CHR '','' # marshal_fields (f # fs) @ CHR ''}'' # r)"
    by (rule 12(1)) (use 12 k in auto)
  have tl: "parse_fields k' d (marshal_fields (f # fs) @ CHR ''}'' # r) = Some (clean_fields (f # fs), r)"
    by (rule 12(2)) (use 12 k in auto)
  obtain cs where "marshal_fields (f # fs) = quote_char # cs" using marshal_fields_head by blast
  then show ?case using 12 k v tl
      parse_field_head [where key = key and v = v and k = k' and d = d and w = "clean v"
          and r = "CHR '','' # marshal_fields (f # fs) @ CHR ''}'' # r"]
    by simp
qed

theorem parse_json_marshal_clean:
  assumes "int_json v" "depth v \<le> max_depth"
  shows "parse_json (marshal v) = Some (clean v)"
proof -
  have "parse_value (2 * length (marshal v) + 2) max_depth (marshal v @ []) = Some (clean v, [])"
    by (rule parse_marshal(1)) (use assms in auto)
  moreover have "skip_ws (marshal v) = marshal v" using skip_ws_marshal [OF assms(1), of "[]"] by simp
  ultimately show ?thesis by (simp add: parse_json_def)
qed

corollary parse_json_marshal: "wf_json v \<Longrightarrow> depth v \<le> max_depth \<Longrightarrow> parse_json (marshal v) = Some v"
  using parse_json_marshal_clean [of v] wf_clean(1) [of v] by simp

text \<open>Marshalling is injective on such values: two different messages never look the same on the wire.\<close>

corollary marshal_inject:
  assumes "wf_json v" "wf_json w" "depth v \<le> max_depth" "depth w \<le> max_depth" "marshal v = marshal w"
  shows "v = w"
  using assms parse_json_marshal by (metis option.inject)

end
