(* ===== verification/Wire.thy ===== *)
theory Wire
  imports JsonRoundtrip
begin

text \<open>
  The messages of the WebSocket protocol and the stored chat message, with their JSON forms:
  \<open>WSMsg\<close> and \<open>WSPayload\<close> of \<open>internal/gateway/ws_handle.go\<close>, \<open>ChatMessage\<close> of
  \<open>internal/storage/mango.go\<close>, and the payload maps that the handlers marshal.
\<close>

section \<open>Client to server\<close>

record WSMsg =
  m_Type :: string
  m_Token :: string
  m_RoomID :: string
  m_To :: string
  m_Content :: string
  m_Limit :: int

definition zero_WSMsg :: WSMsg where
  "zero_WSMsg = \<lparr>m_Type = [], m_Token = [], m_RoomID = [], m_To = [], m_Content = [], m_Limit = 0\<rparr>"

text \<open>
  Object keys match a field by name, else by case folding; U+212A folds to \<open>K\<close> and U+017F to
  \<open>S\<close>, and no other non-ASCII rune folds to an ASCII one.
\<close>

definition upper_byte :: "char \<Rightarrow> char" where
  "upper_byte c = (if 97 \<le> code c \<and> code c \<le> 122 then char_of (code c - 32) else c)"

fun fold_key :: "string \<Rightarrow> string" where
  "fold_key [] = []"
| "fold_key (a # s) =
     (case s of
        b # s' \<Rightarrow>
          (if code a = 0xC5 \<and> code b = 0xBF then CHR ''S'' # fold_key s'
           else if code a = 0xE2 \<and> code b = 0x84 \<and> s' \<noteq> [] \<and> code (hd s') = 0xAA
             then CHR ''K'' # fold_key (tl s')
           else upper_byte a # fold_key s)
      | [] \<Rightarrow> [upper_byte a])"

text \<open>\<open>strconv.ParseInt(lit, 10, 64)\<close> on a JSON number literal: only a plain integer in range.\<close>

definition parse_int64 :: "string \<Rightarrow> int option" where
  "parse_int64 lit =
     (let neg = (lit \<noteq> [] \<and> hd lit = CHR ''-''); ds = (if neg then tl lit else lit);
          n = int (read_nat 0 ds); i = (if neg then - n else n)
      in if ds \<noteq> [] \<and> list_all is_digit ds \<and> - (2 ^ 63) \<le> i \<and> i < 2 ^ 63 then Some i else None)"

text \<open>
  Decoding one field: \<open>null\<close> leaves it alone, a value of the wrong type leaves it alone and makes
  \<open>Unmarshal\<close> return an error at the end (\<open>True\<close> in the first component).
\<close>

definition decode_string :: "json \<Rightarrow> string \<Rightarrow> bool \<times> string" where
  "decode_string v old = (case v of JStr s \<Rightarrow> (False, s) | JNull \<Rightarrow> (False, old) | _ \<Rightarrow> (True, old))"

definition decode_int64 :: "json \<Rightarrow> int \<Rightarrow> bool \<times> int" where
  "decode_int64 v old =
     (case v of
        JNum lit \<Rightarrow> (case parse_int64 lit of Some i \<Rightarrow> (False, i) | None \<Rightarrow> (True, old))
      | JNull \<Rightarrow> (False, old)
      | _ \<Rightarrow> (True, old))"

definition decode_field :: "string \<times> json \<Rightarrow> bool \<times> WSMsg \<Rightarrow> bool \<times> WSMsg" where
  "decode_field kv st =
     (let (key, v) = kv; (bad, m) = st; k = fold_key key in
      if k = ''TYPE'' then
        (let (e, s) = decode_string v (m_Type m) in (bad \<or> e, m\<lparr>m_Type := s\<rparr>))
      else if k = ''TOKEN'' then
        (let (e, s) = decode_string v (m_Token m) in (bad \<or> e, m\<lparr>m_Token := s\<rparr>))
      else if k = ''ROOM_ID'' then
        (let (e, s) = decode_string v (m_RoomID m) in (bad \<or> e, m\<lparr>m_RoomID := s\<rparr>))
      else if k = ''TO'' then
        (let (e, s) = decode_string v (m_To m) in (bad \<or> e, m\<lparr>m_To := s\<rparr>))
      else if k = ''CONTENT'' then
        (let (e, s) = decode_string v (m_Content m) in (bad \<or> e, m\<lparr>m_Content := s\<rparr>))
      else if k = ''LIMIT'' then
        (let (e, i) = decode_int64 v (m_Limit m) in (bad \<or> e, m\<lparr>m_Limit := i\<rparr>))
      else (bad, m))"

definition decode_WSMsg :: "json \<Rightarrow> WSMsg option" where
  "decode_WSMsg v =
     (case v of
        JNull \<Rightarrow> Some zero_WSMsg
      | JObj kvs \<Rightarrow> (case fold decode_field kvs (False, zero_WSMsg) of (bad, m) \<Rightarrow> if bad then None else Some m)
      | _ \<Rightarrow> None)"

text \<open>\<open>json.Unmarshal(data, &m)\<close>: \<open>None\<close> when it returns an error.\<close>

definition unmarshal_WSMsg :: "bytes \<Rightarrow> WSMsg option" where
  "unmarshal_WSMsg data = (case parse_json data of None \<Rightarrow> None | Some v \<Rightarrow> decode_WSMsg v)"

text \<open>What a client sends for a message: the fields with a zero value and \<open>omitempty\<close> are left out.\<close>

definition omit_str :: "string \<Rightarrow> string \<Rightarrow> (string \<times> json) list" where
  "omit_str k s = (if s = [] then [] else [(k, JStr s)])"

definition WSMsg_json :: "WSMsg \<Rightarrow> json" where
  "WSMsg_json m =
     JObj ([(''type'', JStr (m_Type m))] @ omit_str ''token'' (m_Token m) @ omit_str ''room_id'' (m_RoomID m)
           @ omit_str ''to'' (m_To m) @ omit_str ''content'' (m_Content m)
           @ (if m_Limit m = 0 then [] else [(''limit'', JInt (m_Limit m))]))"

section \<open>Stored messages\<close>

record ChatMessage =
  cm_ID :: string
  cm_From :: string
  cm_To :: string
  cm_RoomID :: string
  cm_Content :: string
  cm_Timestamp :: time_ns
  cm_Delivered :: bool

text \<open>
  \<open>ChatMessage\<close> has \<open>bson\<close> tags only, so \<open>encoding/json\<close> uses the Go field names. \<open>None\<close> is a
  marshalling error (a year that RFC 3339 cannot express).
\<close>

definition ChatMessage_json :: "ChatMessage \<Rightarrow> json option" where
  "ChatMessage_json m =
     map_option
       (\<lambda>ts. JObj [(''ID'', JStr (cm_ID m)), (''From'', JStr (cm_From m)), (''To'', JStr (cm_To m)),
                   (''RoomID'', JStr (cm_RoomID m)), (''Content'', JStr (cm_Content m)),
                   (''Timestamp'', JStr ts), (''Delivered'', JBool (cm_Delivered m))])
       (time_text (cm_Timestamp m))"

text \<open>
  A \<open>[]*ChatMessage\<close>: the nil slice is \<open>null\<close>. \<open>QueryHistory\<close> returns the nil slice when no
  message matches.
\<close>

datatype msg_slice = NilSlice | Slice "ChatMessage list"

fun sequence_opt :: "'a option list \<Rightarrow> 'a list option" where
  "sequence_opt [] = Some []"
| "sequence_opt (x # xs) =
     (case x of None \<Rightarrow> None | Some y \<Rightarrow> map_option (\<lambda>ys. y # ys) (sequence_opt xs))"

fun history_json :: "msg_slice \<Rightarrow> json option" where
  "history_json NilSlice = Some JNull"
| "history_json (Slice ms) = map_option JArr (sequence_opt (map ChatMessage_json ms))"

section \<open>Server to client\<close>

record WSPayload =
  p_Type :: string
  p_Data :: json

definition WSPayload_json :: "WSPayload \<Rightarrow> json" where
  "WSPayload_json p = JObj [(''type'', JStr (p_Type p)), (''data'', p_Data p)]"

text \<open>The two error texts of the handler that are not ASCII, as their UTF-8 bytes.\<close>

definition txt_unauthenticated :: string where
  "txt_unauthenticated = [CHR 0xE6, CHR 0x9C, CHR 0xAA, CHR 0xE8, CHR 0xAE, CHR 0xA4, CHR 0xE8, CHR 0xAF, CHR 0x81]"

definition txt_unknown_type :: string where
  "txt_unknown_type = [CHR 0xE6, CHR 0x9C, CHR 0xAA, CHR 0xE7, CHR 0x9F, CHR 0xA5, CHR 0xE7, CHR 0xB1, CHR 0xBB, CHR 0xE5, CHR 0x9E, CHR 0x8B]"

definition error_payload :: "string \<Rightarrow> json" where
  "error_payload msg = WSPayload_json \<lparr>p_Type = ''error'', p_Data = JStr msg\<rparr>"

definition authed_payload :: "string \<Rightarrow> json" where
  "authed_payload uid = WSPayload_json \<lparr>p_Type = ''authed'', p_Data = json_map [(''user'', JStr uid)]\<rparr>"

definition joined_payload :: "string \<Rightarrow> msg_slice \<Rightarrow> json option" where
  "joined_payload room his =
     map_option (\<lambda>h. WSPayload_json \<lparr>p_Type = ''joined'', p_Data = json_map [(''room'', JStr room), (''history'', h)]\<rparr>)
       (history_json his)"

definition left_payload :: "string \<Rightarrow> json" where
  "left_payload room = WSPayload_json \<lparr>p_Type = ''left'', p_Data = JStr room\<rparr>"

definition history_payload :: "msg_slice \<Rightarrow> json option" where
  "history_payload his =
     map_option (\<lambda>h. WSPayload_json \<lparr>p_Type = ''history'', p_Data = h\<rparr>) (history_json his)"

definition ack_payload :: "string \<Rightarrow> json" where
  "ack_payload to = WSPayload_json \<lparr>p_Type = ''ack'', p_Data = json_map [(''to'', JStr to)]\<rparr>"

definition pong_payload :: "int \<Rightarrow> json" where
  "pong_payload ms = WSPayload_json \<lparr>p_Type = ''pong'', p_Data = JInt ms\<rparr>"

text \<open>The two maps that are marshalled without a \<open>WSPayload\<close> around them.\<close>

definition message_json :: "string \<Rightarrow> string \<Rightarrow> int \<Rightarrow> string \<Rightarrow> json" where
  "message_json from room ts msg =
     json_map [(''type'', JStr ''message''), (''from'', JStr from), (''room'', JStr room),
               (''ts'', JInt ts), (''msg'', JStr msg)]"

definition private_json :: "string \<Rightarrow> string \<Rightarrow> int \<Rightarrow> string \<Rightarrow> json" where
  "private_json from to ts msg =
     json_map [(''type'', JStr ''private''), (''from'', JStr from), (''to'', JStr to),
               (''ts'', JInt ts), (''msg'', JStr msg)]"

section \<open>Lemmas\<close>

lemma valid_utf8_ascii: "list_all (\<lambda>c. code c < 0x80) s \<Longrightarrow> valid_utf8 s"
  by (induction s) auto

lemma valid_utf8_txt: "valid_utf8 txt_unauthenticated" "valid_utf8 txt_unknown_type"
  by (simp_all add: txt_unauthenticated_def txt_unknown_type_def utf8_len2_def utf8_len3_def
      is_cont_def byte_in_def code_def)

lemma read_nat_show: "read_nat 0 (show_nat n) = n"
  by (rule read_show_nat)

lemma parse_int64_show_int:
  assumes "- (2 ^ 63) \<le> i" "i < 2 ^ 63"
  shows "parse_int64 (show_int i) = Some i"
proof -
  have digits: "list_all is_digit (show_nat n)" for n
    by (auto simp: list_all_iff show_nat_digits)
  have head: "hd (show_nat n) \<noteq> CHR ''-''" for n
    using show_nat_not_minus [of n] by (metis list.collapse show_nat_nonempty)
  show ?thesis
    using assms by (auto simp: parse_int64_def show_int_def read_show_nat digits head)
qed

lemma sequence_opt_Some: "sequence_opt xs = Some ys \<longleftrightarrow> xs = map Some ys"
  by (induction xs arbitrary: ys) (auto split: option.splits)

lemma char_of_upper:
  "char_of (84::nat) = CHR ''T''" "char_of (89::nat) = CHR ''Y''" "char_of (80::nat) = CHR ''P''"
  "char_of (69::nat) = CHR ''E''" "char_of (79::nat) = CHR ''O''" "char_of (75::nat) = CHR ''K''"
  "char_of (78::nat) = CHR ''N''" "char_of (82::nat) = CHR ''R''" "char_of (77::nat) = CHR ''M''"
  "char_of (73::nat) = CHR ''I''" "char_of (68::nat) = CHR ''D''" "char_of (67::nat) = CHR ''C''"
  "char_of (76::nat) = CHR ''L''"
  by (simp_all add: char_of_def bit_Suc_0_iff)

lemma fold_keys [simp]:
  "fold_key ''type'' = ''TYPE''" "fold_key ''token'' = ''TOKEN''" "fold_key ''room_id'' = ''ROOM_ID''"
  "fold_key ''to'' = ''TO''" "fold_key ''content'' = ''CONTENT''" "fold_key ''limit'' = ''LIMIT''"
  by (simp_all add: upper_byte_def code_def char_of_upper)

declare fold_key.simps [simp del]

lemma wf_JInt [simp]: "wf_json (JInt i)"
  by (auto simp: JInt_def)

text \<open>Decoding a marshalled client message gives the message back.\<close>

lemma decode_field_known [simp]:
  "decode_field (''type'', JStr s) (b, m) = (b, m\<lparr>m_Type := s\<rparr>)"
  "decode_field (''token'', JStr s) (b, m) = (b, m\<lparr>m_Token := s\<rparr>)"
  "decode_field (''room_id'', JStr s) (b, m) = (b, m\<lparr>m_RoomID := s\<rparr>)"
  "decode_field (''to'', JStr s) (b, m) = (b, m\<lparr>m_To := s\<rparr>)"
  "decode_field (''content'', JStr s) (b, m) = (b, m\<lparr>m_Content := s\<rparr>)"
  by (simp_all add: decode_field_def decode_string_def)

lemma decode_field_limit:
  "- (2 ^ 63) \<le> i \<Longrightarrow> i < 2 ^ 63 \<Longrightarrow>
     decode_field (''limit'', JInt i) (b, m) = (b, m\<lparr>m_Limit := i\<rparr>)"
  by (simp add: decode_field_def decode_int64_def JInt_def parse_int64_show_int)

text \<open>Leaving out an empty field is harmless, because the field is empty before decoding.\<close>

lemma decode_omitted:
  "m_Token m = [] \<Longrightarrow> fold decode_field (omit_str ''token'' s) (b, m) = (b, m\<lparr>m_Token := s\<rparr>)"
  "m_RoomID m = [] \<Longrightarrow> fold decode_field (omit_str ''room_id'' s) (b, m) = (b, m\<lparr>m_RoomID := s\<rparr>)"
  "m_To m = [] \<Longrightarrow> fold decode_field (omit_str ''to'' s) (b, m) = (b, m\<lparr>m_To := s\<rparr>)"
  "m_Content m = [] \<Longrightarrow> fold decode_field (omit_str ''content'' s) (b, m) = (b, m\<lparr>m_Content := s\<rparr>)"
  by (auto simp: omit_str_def)

theorem decode_WSMsg_json:
  assumes "- (2 ^ 63) \<le> m_Limit m" "m_Limit m < 2 ^ 63"
  shows "decode_WSMsg (WSMsg_json m) = Some m"
  using assms
  by (simp add: decode_WSMsg_def WSMsg_json_def decode_omitted decode_field_limit zero_WSMsg_def)

definition utf8_WSMsg :: "WSMsg \<Rightarrow> bool" where
  "utf8_WSMsg m \<longleftrightarrow> valid_utf8 (m_Type m) \<and> valid_utf8 (m_Token m) \<and> valid_utf8 (m_RoomID m)
     \<and> valid_utf8 (m_To m) \<and> valid_utf8 (m_Content m)"

lemma unmarshal_marshal_WSMsg:
  assumes "utf8_WSMsg m" "- (2 ^ 63) \<le> m_Limit m" "m_Limit m < 2 ^ 63"
  shows "unmarshal_WSMsg (marshal (WSMsg_json m)) = Some m"
proof -
  have ascii: "valid_utf8 ''type''" "valid_utf8 ''token''" "valid_utf8 ''room_id''" "valid_utf8 ''to''"
    "valid_utf8 ''content''" "valid_utf8 ''limit''"
    by (simp_all add: code_def)
  have "wf_json (WSMsg_json m)" using assms(1) ascii
    by (simp add: WSMsg_json_def utf8_WSMsg_def omit_str_def del: valid_utf8.simps)
  moreover have "depth (WSMsg_json m) \<le> max_depth"
    by (simp add: WSMsg_json_def omit_str_def max_depth_def JInt_def)
  ultimately show ?thesis
    using assms by (simp add: unmarshal_WSMsg_def parse_json_marshal decode_WSMsg_json)
qed

declare valid_utf8.simps(2) [simp del] to_utf8.simps(2) [simp del]

end
