(* ===== verification/Services.thy ===== *)
theory Services
  imports Wire
begin

text \<open>
  The services the gateway process calls: the auth service over gRPC, Redis, MongoDB and MySQL.
  They are not part of the repository, so they are parameters: a service is a record of replies,
  each a function of the calls made so far (the trace) and of the arguments. A reply may depend on
  the trace in any way, so a service may keep any state and may fail at any time. Every operation
  that calls a service appends the call to the trace.
\<close>

section \<open>Messages of the auth service\<close>

text \<open>The response messages of \<open>api/auth.pb.go\<close>, without the bookkeeping fields of protobuf.\<close>

record RegisterResponse =
  rr_Success :: bool
  rr_Message :: string

record LoginResponse =
  lr_Success :: bool
  lr_Token :: string
  lr_Message :: string

record TokenResponse =
  tr_Valid :: bool
  tr_UserId :: string

section \<open>Calls\<close>

datatype bson = BStr string | BBool bool

type_synonym mongo_filter = "(string \<times> bson) list"

record find_opts =
  fo_sortDesc :: "string option"
  fo_limit :: int

datatype call =
    CallValidate string
  | CallRegister string string
  | CallLogin string string
  | CallRedisSet string string time_ns
  | CallRedisDel string
  | CallRedisPing
  | CallRatePipe string int int time_ns
  | CallMongoInsert ChatMessage
  | CallMongoFind mongo_filter find_opts
  | CallMongoUpdate mongo_filter
  | CallMongoPing
  | CallSelectRole string
  | CallSelectUsers
  | CallBan string
  | CallUnban string

type_synonym trace = "call list"

section \<open>Replies\<close>

text \<open>An error is its message. The gRPC stub may return a nil response.\<close>

type_synonym go_error = string

record AuthServiceClient =
  ac_Validate :: "trace \<Rightarrow> string \<Rightarrow> go_error + TokenResponse option"
  ac_Register :: "trace \<Rightarrow> string \<Rightarrow> string \<Rightarrow> go_error + RegisterResponse"
  ac_Login :: "trace \<Rightarrow> string \<Rightarrow> string \<Rightarrow> go_error + LoginResponse"

text \<open>A MongoDB cursor: what successive \<open>Next\<close>/\<open>Decode\<close> yield, and \<open>Err\<close> afterwards.\<close>

record cursor =
  cur_items :: "(go_error + ChatMessage) list"
  cur_err :: "go_error option"

record MangoStore =
  mc_InsertOne :: "trace \<Rightarrow> ChatMessage \<Rightarrow> go_error option"
  mc_Find :: "trace \<Rightarrow> mongo_filter \<Rightarrow> find_opts \<Rightarrow> go_error + cursor"
  mc_UpdateMany :: "trace \<Rightarrow> mongo_filter \<Rightarrow> go_error option"
  mc_Ping :: "trace \<Rightarrow> go_error option"

record RedisClient =
  rd_Ping :: "trace \<Rightarrow> go_error option"
  rd_RatePipe :: "trace \<Rightarrow> string \<Rightarrow> int \<Rightarrow> int \<Rightarrow> time_ns \<Rightarrow> go_error + int"

text \<open>A row of the \<open>users\<close> table as \<open>AdminUsers\<close> reads it; \<open>None\<close> is a row that fails to scan.\<close>

record user_row =
  ur_id :: int
  ur_username :: string
  ur_role :: string
  ur_created :: time_ns

record UserDB =
  db_Role :: "trace \<Rightarrow> string \<Rightarrow> go_error + string"
  db_Users :: "trace \<Rightarrow> go_error + user_row option list"
  db_Ban :: "trace \<Rightarrow> string \<Rightarrow> go_error + int"
  db_Unban :: "trace \<Rightarrow> string \<Rightarrow> go_error + int"

end
