(* ===== verification/Storage.thy ===== *)
theory Storage
  imports Services "HOL-Library.Multiset"
begin

text \<open>
  \<open>internal/storage/mango.go\<close>: the message store over a MongoDB collection. An operation takes the
  trace and returns its result with the extended trace. What the theorems rely on of MongoDB is
  stated in \<open>mongo_laws\<close>: for a view of the collection's documents, what a successful insert,
  update and find do.
\<close>

section \<open>Operations\<close>

text \<open>\<open>SaveMessage\<close>: the stored message has a generated ID when it had none.\<close>

definition with_ID :: "time_ns \<Rightarrow> ChatMessage \<Rightarrow> ChatMessage" where
  "with_ID now msg =
     (if cm_ID msg = [] then msg\<lparr>cm_ID := show_int now @ ''_'' @ cm_From msg\<rparr> else msg)"

definition SaveMessage :: "MangoStore \<Rightarrow> time_ns \<Rightarrow> ChatMessage \<Rightarrow> trace \<Rightarrow> go_error option \<times> trace" where
  "SaveMessage ms now msg h =
     (let msg' = with_ID now msg
      in (map_option (\<lambda>e. ''save message: '' @ e) (mc_InsertOne ms h msg'), h @ [CallMongoInsert msg']))"

text \<open>The cursor loop shared by the two queries: rows that fail to decode are skipped.\<close>

fun decode_rows :: "(go_error + ChatMessage) list \<Rightarrow> ChatMessage list \<Rightarrow> ChatMessage list" where
  "decode_rows [] msgs = msgs"
| "decode_rows (Inl e # rows) msgs = decode_rows rows msgs"
| "decode_rows (Inr m # rows) msgs = decode_rows rows (msgs @ [m])"

definition slice_of :: "ChatMessage list \<Rightarrow> msg_slice" where
  "slice_of msgs = (if msgs = [] then NilSlice else Slice msgs)"

definition room_filter :: "string \<Rightarrow> mongo_filter" where
  "room_filter roomID = [(''room_id'', BStr roomID)]"

definition QueryHistory :: "MangoStore \<Rightarrow> string \<Rightarrow> int \<Rightarrow> trace \<Rightarrow> (go_error + msg_slice) \<times> trace" where
  "QueryHistory ms roomID limit h =
     (let opts = \<lparr>fo_sortDesc = Some ''timestamp'', fo_limit = limit\<rparr>;
          h1 = h @ [CallMongoFind (room_filter roomID) opts]
      in case mc_Find ms h (room_filter roomID) opts of
           Inl e \<Rightarrow> (Inl (''query history: '' @ e), h1)
         | Inr cur \<Rightarrow>
             (let msgs = decode_rows (cur_items cur) []
              in case cur_err cur of
                   Some e \<Rightarrow> (Inl (''history cursor: '' @ e), h1)
                 | None \<Rightarrow> (Inr (slice_of msgs), h1)))"

definition undelivered_filter :: "string \<Rightarrow> mongo_filter" where
  "undelivered_filter userID = [(''to'', BStr userID), (''delivered'', BBool False)]"

definition pullLimit :: int where
  "pullLimit = 200"

definition PullUndeliveredForUser :: "MangoStore \<Rightarrow> string \<Rightarrow> trace \<Rightarrow> (go_error + ChatMessage list) \<times> trace" where
  "PullUndeliveredForUser ms userID h =
     (let f = undelivered_filter userID;
          opts = \<lparr>fo_sortDesc = None, fo_limit = pullLimit\<rparr>;
          h1 = h @ [CallMongoFind f opts]
      in case mc_Find ms h f opts of
           Inl e \<Rightarrow> (Inl (''find undelivered: '' @ e), h1)
         | Inr cur \<Rightarrow>
             (let msgs = decode_rows (cur_items cur) []
              in case cur_err cur of
                   Some e \<Rightarrow> (Inl (''undelivered cursor: '' @ e), h1)
                 | None \<Rightarrow>
                     (if 0 < length msgs then
                        (case mc_UpdateMany ms h1 f of
                           Some e \<Rightarrow> (Inl (''mark delivered: '' @ e), h1 @ [CallMongoUpdate f])
                         | None \<Rightarrow> (Inr msgs, h1 @ [CallMongoUpdate f]))
                      else (Inr msgs, h1))))"

section \<open>What MongoDB promises\<close>

text \<open>The BSON fields of a message that the filters name; \<open>omitempty\<close> leaves an empty field out.\<close>

definition bson_field :: "ChatMessage \<Rightarrow> string \<Rightarrow> bson option" where
  "bson_field m k =
     (if k = ''_id'' then Some (BStr (cm_ID m))
      else if k = ''from'' then Some (BStr (cm_From m))
      else if k = ''to'' then (if cm_To m = [] then None else Some (BStr (cm_To m)))
      else if k = ''room_id'' then (if cm_RoomID m = [] then None else Some (BStr (cm_RoomID m)))
      else if k = ''content'' then Some (BStr (cm_Content m))
      else if k = ''delivered'' then Some (BBool (cm_Delivered m))
      else None)"

definition matches :: "mongo_filter \<Rightarrow> ChatMessage \<Rightarrow> bool" where
  "matches f m \<longleftrightarrow> list_all (\<lambda>(k, v). bson_field m k = Some v) f"

text \<open>A BSON date has millisecond precision, so a stored instant is rounded down.\<close>

definition as_stored :: "ChatMessage \<Rightarrow> ChatMessage" where
  "as_stored m = m\<lparr>cm_Timestamp := UnixMilli (cm_Timestamp m) * 1000000\<rparr>"

definition mark_delivered :: "ChatMessage \<Rightarrow> ChatMessage" where
  "mark_delivered m = m\<lparr>cm_Delivered := True\<rparr>"

definition newest_first :: "ChatMessage list \<Rightarrow> bool" where
  "newest_first ms \<longleftrightarrow> sorted_wrt (\<lambda>a b. cm_Timestamp b \<le> cm_Timestamp a) ms"

text \<open>
  The answer to a find with a positive limit: as many matching documents as there are, up to the
  limit, each as often as it is stored; with a sort on the timestamp they come newest first and no
  newer one is left out.
\<close>

definition find_answer :: "mongo_filter \<Rightarrow> find_opts \<Rightarrow> ChatMessage list \<Rightarrow> ChatMessage list \<Rightarrow> bool" where
  "find_answer f opts docs ans \<longleftrightarrow>
     (let hits = filter (matches f) docs in
      length ans = min (nat (fo_limit opts)) (length hits)
    \<and> mset ans \<subseteq># mset hits
    \<and> (fo_sortDesc opts = Some ''timestamp'' \<longrightarrow>
         newest_first ans \<and> (\<forall>m \<in># mset hits - mset ans. \<forall>a \<in> set ans. cm_Timestamp m \<le> cm_Timestamp a)))"

definition mongo_laws :: "MangoStore \<Rightarrow> (trace \<Rightarrow> ChatMessage list) \<Rightarrow> bool" where
  "mongo_laws ms docs \<longleftrightarrow>
     (\<forall>h m. mc_InsertOne ms h m = None \<longrightarrow> docs (h @ [CallMongoInsert m]) = docs h @ [as_stored m])
   \<and> (\<forall>h f. mc_UpdateMany ms h f = None \<longrightarrow>
        docs (h @ [CallMongoUpdate f]) = map (\<lambda>m. if matches f m then mark_delivered m else m) (docs h))
   \<and> (\<forall>h c. (\<forall>m. c \<noteq> CallMongoInsert m) \<longrightarrow> (\<forall>f. c \<noteq> CallMongoUpdate f) \<longrightarrow> docs (h @ [c]) = docs h)
   \<and> (\<forall>h f opts cur. 0 < fo_limit opts \<longrightarrow> mc_Find ms h f opts = Inr cur \<longrightarrow> cur_err cur = None \<longrightarrow>
        (\<exists>ans. cur_items cur = map Inr ans \<and> find_answer f opts (docs h) ans))"

lemma mongo_lawsD:
  assumes "mongo_laws ms docs"
  shows "mc_InsertOne ms h m = None \<Longrightarrow> docs (h @ [CallMongoInsert m]) = docs h @ [as_stored m]"
    and "mc_UpdateMany ms h f = None \<Longrightarrow>
      docs (h @ [CallMongoUpdate f]) = map (\<lambda>m. if matches f m then mark_delivered m else m) (docs h)"
    and "docs (h @ [CallMongoFind f opts]) = docs h"
    and "0 < fo_limit opts \<Longrightarrow> mc_Find ms h f opts = Inr cur \<Longrightarrow> cur_err cur = None \<Longrightarrow>
        \<exists>ans. cur_items cur = map Inr ans \<and> find_answer f opts (docs h) ans"
  using assms by (simp_all add: mongo_laws_def)

section \<open>Facts about the operations\<close>

lemma decode_rows_app: "decode_rows (map Inr ans) msgs = msgs @ ans"
  by (induction ans arbitrary: msgs) auto

lemma decode_rows_length: "length (decode_rows rows msgs) \<le> length rows + length msgs"
  by (induction rows msgs rule: decode_rows.induct) auto

lemma matches_undelivered:
  "matches (undelivered_filter u) m \<longleftrightarrow> u \<noteq> [] \<and> cm_To m = u \<and> \<not> cm_Delivered m"
  by (auto simp: matches_def undelivered_filter_def bson_field_def)

lemma matches_room: "matches (room_filter r) m \<longleftrightarrow> r \<noteq> [] \<and> cm_RoomID m = r"
  by (auto simp: matches_def room_filter_def bson_field_def)

lemma matches_mark_delivered: "\<not> matches (undelivered_filter u) (mark_delivered m)"
  by (simp add: matches_undelivered mark_delivered_def)

text \<open>Marking the matching documents leaves nothing undelivered for that user, and other users' documents alone.\<close>

lemma filter_marked:
  "filter (matches (undelivered_filter u))
     (map (\<lambda>m. if matches (undelivered_filter u) m then mark_delivered m else m) ds) = []"
  by (auto simp: filter_empty_conv matches_mark_delivered)

lemma filter_marked_other:
  assumes "v \<noteq> u"
  shows "filter (matches (undelivered_filter v))
     (map (\<lambda>m. if matches (undelivered_filter u) m then mark_delivered m else m) ds)
   = filter (matches (undelivered_filter v)) ds"
  using assms by (induction ds) (auto simp: matches_undelivered mark_delivered_def)

text \<open>The undelivered messages of a user.\<close>

definition pending :: "ChatMessage list \<Rightarrow> string \<Rightarrow> ChatMessage list" where
  "pending ds u = filter (matches (undelivered_filter u)) ds"

text \<open>A pull that succeeds: what it returned and what the collection holds afterwards.\<close>

lemma pull_success:
  assumes laws: "mongo_laws ms docs"
    and pull: "PullUndeliveredForUser ms u h = (Inr msgs, h')"
  shows "mset msgs \<subseteq># mset (pending (docs h) u)"
    and "length msgs = min 200 (length (pending (docs h) u))"
    and "pending (docs h') u = []"
    and "v \<noteq> u \<Longrightarrow> pending (docs h') v = pending (docs h) v"
proof -
  let ?f = "undelivered_filter u"
  let ?o = "\<lparr>fo_sortDesc = None, fo_limit = pullLimit\<rparr>"
  obtain cur where cur: "mc_Find ms h ?f ?o = Inr cur" "cur_err cur = None"
      "msgs = decode_rows (cur_items cur) []"
    and h': "(msgs \<noteq> [] \<and> mc_UpdateMany ms (h @ [CallMongoFind ?f ?o]) ?f = None
         \<and> h' = h @ [CallMongoFind ?f ?o, CallMongoUpdate ?f])
        \<or> (msgs = [] \<and> h' = h @ [CallMongoFind ?f ?o])"
    using pull by (auto simp: PullUndeliveredForUser_def Let_def split: sum.splits option.splits if_splits)
  obtain ans where "cur_items cur = map Inr ans" and ans: "find_answer ?f ?o (docs h) ans"
    using mongo_lawsD(4) [OF laws _ cur(1,2)] by (auto simp: pullLimit_def)
  then have msgs: "msgs = ans" using cur(3) by (simp add: decode_rows_app)
  show sub: "mset msgs \<subseteq># mset (pending (docs h) u)"
    and len: "length msgs = min 200 (length (pending (docs h) u))"
    using ans msgs by (simp_all add: find_answer_def pullLimit_def pending_def Let_def)
  from h' consider (upd) "docs h' = map (\<lambda>m. if matches ?f m then mark_delivered m else m) (docs h)"
    | (none) "msgs = []" "docs h' = docs h"
  proof (elim disjE conjE)
    assume "mc_UpdateMany ms (h @ [CallMongoFind ?f ?o]) ?f = None"
      and "h' = h @ [CallMongoFind ?f ?o, CallMongoUpdate ?f]"
    then have "docs h' = map (\<lambda>m. if matches ?f m then mark_delivered m else m) (docs (h @ [CallMongoFind ?f ?o]))"
      using mongo_lawsD(2) [OF laws, of "h @ [CallMongoFind ?f ?o]" ?f] by simp
    then show thesis using upd mongo_lawsD(3) [OF laws] by simp
  next
    assume "msgs = []" "h' = h @ [CallMongoFind ?f ?o]"
    then show thesis using none mongo_lawsD(3) [OF laws] by simp
  qed
  note docs = this
  show "pending (docs h') u = []"
    using docs len by cases (auto simp: pending_def filter_marked min_def split: if_splits)
  show "pending (docs h') v = pending (docs h) v" if "v \<noteq> u"
    using docs that by cases (auto simp: pending_def filter_marked_other)
qed

text \<open>A history query that succeeds.\<close>

lemma history_success:
  assumes laws: "mongo_laws ms docs" and limit: "0 < limit"
    and query: "QueryHistory ms room limit h = (Inr his, h')"
  shows "\<exists>ans. his = slice_of ans
           \<and> find_answer (room_filter room) \<lparr>fo_sortDesc = Some ''timestamp'', fo_limit = limit\<rparr> (docs h) ans"
    and "docs h' = docs h"
proof -
  let ?f = "room_filter room"
  let ?o = "\<lparr>fo_sortDesc = Some ''timestamp'', fo_limit = limit\<rparr>"
  obtain cur where cur: "mc_Find ms h ?f ?o = Inr cur" "cur_err cur = None"
      "his = slice_of (decode_rows (cur_items cur) [])" "h' = h @ [CallMongoFind ?f ?o]"
    using query by (auto simp: QueryHistory_def Let_def split: sum.splits option.splits)
  obtain ans where "cur_items cur = map Inr ans" and ans: "find_answer ?f ?o (docs h) ans"
    using mongo_lawsD(4) [OF laws _ cur(1,2)] limit by auto
  then show "\<exists>ans. his = slice_of ans \<and> find_answer ?f ?o (docs h) ans"
    using cur(3) by (auto simp: decode_rows_app)
  show "docs h' = docs h" using cur(4) mongo_lawsD(3) [OF laws] by simp
qed

lemma find_answer_room:
  assumes "find_answer (room_filter room) opts ds ans" "m \<in> set ans"
  shows "m \<in> set ds" "cm_RoomID m = room" "room \<noteq> []"
proof -
  have "set_mset (mset ans) \<subseteq> set_mset (mset (filter (matches (room_filter room)) ds))"
    using assms(1) by (auto simp: find_answer_def Let_def dest: mset_subset_eqD)
  then have "m \<in> set ds \<and> matches (room_filter room) m" using assms(2) by auto
  then show "m \<in> set ds" "cm_RoomID m = room" "room \<noteq> []" by (auto simp: matches_room)
qed

end
