(* ===== verification/WsHandle.thy ===== *)
theory WsHandle
  imports Rooms Storage
begin

text \<open>
  \<open>internal/gateway/ws_handle.go\<close>: the handler of one WebSocket message. The shared state is the
  online table, the rooms, the send channels, the WebSocket connections, the trace of service
  calls and the spawned \<open>SaveMessage\<close> goroutines that have not run yet; the local state of a
  connection is \<open>me\<close> and \<open>authAttempts\<close>.
\<close>

section \<open>State\<close>

record gw_state = room_state +
  wsClosed :: "nat \<Rightarrow> bool"
  gw_trace :: trace
  saves :: "ChatMessage list"

record ws_local =
  me :: "nat option"
  authAttempts :: int

text \<open>The dependencies of the handler; \<open>None\<close> is a nil pointer.\<close>

record GatewayServer =
  gs_AuthClient :: "AuthServiceClient option"
  gs_Mongo :: "MangoStore option"
  gs_Redis :: "RedisClient option"
  gs_DB :: "UserDB option"

text \<open>
  What the environment supplies while one message is handled: the successive readings of
  \<open>time.Now()\<close>, the result of \<open>rand.Intn(10000)\<close> and the order of the map iteration, if there is one.
\<close>

record ws_env =
  e_clk :: "nat \<Rightarrow> time_ns"
  e_rnd :: nat
  e_ord :: "string list"

definition maxAuthAttempts :: int where
  "maxAuthAttempts = 3"

definition init_local :: ws_local where
  "init_local = \<lparr>me = None, authAttempts = 0\<rparr>"

definition log_call :: "call \<Rightarrow> gw_state \<Rightarrow> gw_state" where
  "log_call c s = s\<lparr>gw_trace := gw_trace s @ [c]\<rparr>"

definition close_conn :: "nat \<Rightarrow> gw_state \<Rightarrow> gw_state" where
  "close_conn c s = s\<lparr>wsClosed := (wsClosed s)(c := True)\<rparr>"

text \<open>Pairing the shared state with the local state of the connection.\<close>

fun with_local :: "ws_local \<Rightarrow> gw_state go \<Rightarrow> (gw_state \<times> ws_local) go" where
  "with_local l (Returns s) = Returns (s, l)"
| "with_local l (Panics s) = Panics (s, l)"

section \<open>Sending\<close>

text \<open>\<open>sendJSON\<close>: \<open>None\<close> is a value that \<open>json.Marshal\<close> refuses; nothing is sent then.\<close>

definition sendJSON :: "nat \<Rightarrow> json option \<Rightarrow> gw_state \<Rightarrow> gw_state go" where
  "sendJSON c v s = (case v of None \<Rightarrow> Returns s | Some j \<Rightarrow> send_nb c (marshal j) s)"

definition send_error :: "nat \<Rightarrow> string \<Rightarrow> gw_state \<Rightarrow> gw_state go" where
  "send_error c msg s = sendJSON c (Some (error_payload msg)) s"

text \<open>\<open>client.Send <- bs\<close> for a client object, without blocking.\<close>

definition send_client :: "nat \<Rightarrow> bytes \<Rightarrow> gw_state \<Rightarrow> gw_state go" where
  "send_client r b s = send_nb (c_Send (clientH s r)) b s"

section \<open>Authentication\<close>

definition undelivered_frame :: "string \<Rightarrow> ChatMessage \<Rightarrow> bytes" where
  "undelivered_frame userID m =
     marshal (private_json (cm_From m) userID (UnixMilli (cm_Timestamp m)) (cm_Content m))"

definition pushUndelivered :: "GatewayServer \<Rightarrow> string \<Rightarrow> gw_state \<Rightarrow> gw_state go" where
  "pushUndelivered srv userID s =
     (case gs_Mongo srv of
        None \<Rightarrow> Returns s
      | Some ms \<Rightarrow>
          (case PullUndeliveredForUser ms userID (gw_trace s) of
             (Inl err, h) \<Rightarrow> Returns (s\<lparr>gw_trace := h\<rparr>)
           | (Inr msgs, h) \<Rightarrow>
               (let s1 = s\<lparr>gw_trace := h\<rparr> in
                if msgs = [] then Returns s1
                else (case getOnlineClient userID s1 of
                        None \<Rightarrow> Returns s1
                      | Some r \<Rightarrow> for_each (\<lambda>m. send_client r (undelivered_frame userID m)) msgs s1))))"

definition online_key :: "string \<Rightarrow> string" where
  "online_key userID = ''user:'' @ userID @ '':online''"

definition last_seen_key :: "string \<Rightarrow> string" where
  "last_seen_key userID = ''user:'' @ userID @ '':last_seen''"

definition redis_set_online :: "GatewayServer \<Rightarrow> string \<Rightarrow> time_ns \<Rightarrow> int \<Rightarrow> gw_state \<Rightarrow> gw_state" where
  "redis_set_online srv userID ttl now_ms s =
     (case gs_Redis srv of
        None \<Rightarrow> s
      | Some _ \<Rightarrow>
          log_call (CallRedisSet (last_seen_key userID) (show_int now_ms) 0)
            (log_call (CallRedisSet (online_key userID) ''1'' ttl) s))"

text \<open>
  The common end of both authentication paths: a new client object, registered as online, gets the
  undelivered messages, then the online keys are set and \<open>authed\<close> is sent.
\<close>

definition finish_auth ::
    "GatewayServer \<Rightarrow> nat \<Rightarrow> ws_env \<Rightarrow> string \<Rightarrow> time_ns \<Rightarrow> gw_state \<times> ws_local \<Rightarrow> (gw_state \<times> ws_local) go" where
  "finish_auth srv c e userID ttl sl =
     (let (s, l) = sl; (r, s1) = new_client userID c s; s2 = registerOnline userID r s1
      in with_local (l\<lparr>me := Some r\<rparr>)
           (andThen (pushUndelivered srv userID s2)
              (\<lambda>s3. sendJSON c (Some (authed_payload userID))
                      (redis_set_online srv userID ttl (UnixMilli (e_clk e 0)) s3))))"

text \<open>
  A refused authentication: the error is sent and, in two cases, the connection is closed. The
  \<open>break\<close> that follows \<open>conn.Close()\<close> leaves the \<open>switch\<close>, not the loop: the handler goes on with the
  next \<open>ReadMessage\<close>, so the outcome is the same kind of step as the others.
\<close>

definition refuse :: "nat \<Rightarrow> bool \<Rightarrow> string \<Rightarrow> gw_state \<Rightarrow> gw_state go" where
  "refuse c hangup msg s =
     andThen (send_error c msg s) (\<lambda>s1. Returns (if hangup then close_conn c s1 else s1))"

text \<open>The ban check lets the user pass when there is no database or the query fails.\<close>

definition is_banned :: "GatewayServer \<Rightarrow> string \<Rightarrow> gw_state \<Rightarrow> bool" where
  "is_banned srv userID s =
     (case gs_DB srv of None \<Rightarrow> False | Some db \<Rightarrow> db_Role db (gw_trace s) userID = Inr ''banned'')"

definition log_ban_check :: "GatewayServer \<Rightarrow> string \<Rightarrow> gw_state \<Rightarrow> gw_state" where
  "log_ban_check srv userID s =
     (case gs_DB srv of None \<Rightarrow> s | Some db \<Rightarrow> log_call (CallSelectRole userID) s)"

definition day_ns :: time_ns where
  "day_ns = 24 * 3600 * 1000000000"

definition handle_auth ::
    "GatewayServer \<Rightarrow> nat \<Rightarrow> ws_env \<Rightarrow> WSMsg \<Rightarrow> gw_state \<times> ws_local \<Rightarrow> (gw_state \<times> ws_local) go" where
  "handle_auth srv c e m sl =
     (let (s, l) = sl in
      case gs_AuthClient srv of
        None \<Rightarrow>
          (if m_Token m = [] then with_local l (refuse c False ''token required'' s)
           else finish_auth srv c e (m_Token m) day_ns (s, l))
      | Some ac \<Rightarrow>
          (let l1 = l\<lparr>authAttempts := authAttempts l + 1\<rparr> in
           if maxAuthAttempts < authAttempts l1 then
             with_local l1 (refuse c True ''too many auth attempts'' s)
           else
             (let reply = ac_Validate ac (gw_trace s) (m_Token m);
                  s1 = log_call (CallValidate (m_Token m)) s
              in case reply of
                   Inl err \<Rightarrow> with_local l1 (refuse c False ''auth failed'' s1)
                 | Inr None \<Rightarrow> with_local l1 (refuse c False ''auth failed'' s1)
                 | Inr (Some resp) \<Rightarrow>
                     (if \<not> tr_Valid resp then with_local l1 (refuse c False ''auth failed'' s1)
                      else
                        (let s2 = log_ban_check srv (tr_UserId resp) s1 in
                         if is_banned srv (tr_UserId resp) s1 then
                           with_local l1 (refuse c True ''account banned'' s2)
                         else finish_auth srv c e (tr_UserId resp) 0 (s2, l1))))))"

section \<open>Rooms and messages\<close>

text \<open>The history sent to a client: the given default when there is no store or the query fails.\<close>

definition load_history :: "GatewayServer \<Rightarrow> string \<Rightarrow> int \<Rightarrow> msg_slice \<Rightarrow> gw_state \<Rightarrow> msg_slice \<times> gw_state" where
  "load_history srv room limit dflt s =
     (case gs_Mongo srv of
        None \<Rightarrow> (dflt, s)
      | Some ms \<Rightarrow>
          (case QueryHistory ms room limit (gw_trace s) of
             (Inl err, h) \<Rightarrow> (dflt, s\<lparr>gw_trace := h\<rparr>)
           | (Inr msgs, h) \<Rightarrow> (msgs, s\<lparr>gw_trace := h\<rparr>)))"

definition handle_join :: "GatewayServer \<Rightarrow> nat \<Rightarrow> WSMsg \<Rightarrow> ws_local \<Rightarrow> gw_state \<Rightarrow> gw_state go" where
  "handle_join srv c m l s =
     (case me l of
        None \<Rightarrow> send_error c txt_unauthenticated s
      | Some r \<Rightarrow>
          (let room = m_RoomID m;
               (rr, s1) = getOrCreateRoom room s;
               s2 = addClient rr r s1;
               (his, s3) = load_history srv room 50 (Slice []) s2
           in sendJSON c (joined_payload room his) s3))"

definition handle_leave :: "nat \<Rightarrow> WSMsg \<Rightarrow> ws_local \<Rightarrow> gw_state \<Rightarrow> gw_state go" where
  "handle_leave c m l s =
     (case me l of
        None \<Rightarrow> Returns s
      | Some r \<Rightarrow>
          (let room = m_RoomID m;
               (rr, s1) = getOrCreateRoom room s;
               s2 = removeEmptyRoom room (removeClient rr r s1)
           in sendJSON c (Some (left_payload room)) s2))"

text \<open>\<open>go func() { s.Mongo.SaveMessage(cm) }()\<close>: the goroutine is spawned, its insert comes later.\<close>

definition spawn_save :: "GatewayServer \<Rightarrow> ChatMessage \<Rightarrow> gw_state \<Rightarrow> gw_state" where
  "spawn_save srv cm s =
     (case gs_Mongo srv of None \<Rightarrow> s | Some _ \<Rightarrow> s\<lparr>saves := saves s @ [cm]\<rparr>)"

definition message_frame :: "string \<Rightarrow> WSMsg \<Rightarrow> ws_env \<Rightarrow> bytes" where
  "message_frame uid m e = marshal (message_json uid (m_RoomID m) (UnixMilli (e_clk e 0)) (m_Content m))"

definition room_message :: "string \<Rightarrow> WSMsg \<Rightarrow> ws_env \<Rightarrow> ChatMessage" where
  "room_message uid m e =
     \<lparr>cm_ID = show_int (UnixMilli (e_clk e 1)) @ ''_'' @ uid @ ''_'' @ show_padded 4 (e_rnd e),
      cm_From = uid, cm_To = [], cm_RoomID = m_RoomID m, cm_Content = m_Content m,
      cm_Timestamp = e_clk e 2, cm_Delivered = True\<rparr>"

definition handle_send :: "GatewayServer \<Rightarrow> nat \<Rightarrow> ws_env \<Rightarrow> WSMsg \<Rightarrow> ws_local \<Rightarrow> gw_state \<Rightarrow> gw_state go" where
  "handle_send srv c e m l s =
     (case me l of
        None \<Rightarrow> send_error c txt_unauthenticated s
      | Some r \<Rightarrow>
          (let uid = c_UserID (clientH s r);
               (rr, s1) = getOrCreateRoom (m_RoomID m) s
           in andThen (broadcast rr (e_ord e) (message_frame uid m e) s1)
                (\<lambda>s2. Returns (spawn_save srv (room_message uid m e) s2))))"

definition private_frame :: "string \<Rightarrow> WSMsg \<Rightarrow> ws_env \<Rightarrow> bytes" where
  "private_frame uid m e = marshal (private_json uid (m_To m) (UnixMilli (e_clk e 0)) (m_Content m))"

definition private_message :: "string \<Rightarrow> WSMsg \<Rightarrow> ws_env \<Rightarrow> bool \<Rightarrow> ChatMessage" where
  "private_message uid m e delivered =
     \<lparr>cm_ID = show_int (UnixMilli (e_clk e 1)) @ ''_'' @ uid @ ''_'' @ m_To m @ ''_'' @ show_padded 4 (e_rnd e),
      cm_From = uid, cm_To = m_To m, cm_RoomID = [], cm_Content = m_Content m,
      cm_Timestamp = e_clk e 2, cm_Delivered = delivered\<rparr>"

definition handle_private :: "GatewayServer \<Rightarrow> nat \<Rightarrow> ws_env \<Rightarrow> WSMsg \<Rightarrow> ws_local \<Rightarrow> gw_state \<Rightarrow> gw_state go" where
  "handle_private srv c e m l s =
     (case me l of
        None \<Rightarrow> send_error c txt_unauthenticated s
      | Some r \<Rightarrow>
          (let uid = c_UserID (clientH s r) in
           andThen
             (case getOnlineClient (m_To m) s of
                Some target \<Rightarrow>
                  andThen (send_client target (private_frame uid m e) s)
                    (\<lambda>s1. Returns (spawn_save srv (private_message uid m e True) s1))
              | None \<Rightarrow> Returns (spawn_save srv (private_message uid m e False) s))
             (sendJSON c (Some (ack_payload (m_To m))))))"

definition effective_limit :: "int \<Rightarrow> int" where
  "effective_limit limit = (if limit \<le> 0 then 50 else limit)"

definition handle_history :: "GatewayServer \<Rightarrow> nat \<Rightarrow> WSMsg \<Rightarrow> ws_local \<Rightarrow> gw_state \<Rightarrow> gw_state go" where
  "handle_history srv c m l s =
     (case me l of
        None \<Rightarrow> send_error c txt_unauthenticated s
      | Some r \<Rightarrow>
          (let (his, s1) = load_history srv (m_RoomID m) (effective_limit (m_Limit m)) NilSlice s
           in sendJSON c (history_payload his) s1))"

definition handle_ping :: "GatewayServer \<Rightarrow> nat \<Rightarrow> ws_env \<Rightarrow> ws_local \<Rightarrow> gw_state \<Rightarrow> gw_state go" where
  "handle_ping srv c e l s =
     andThen (sendJSON c (Some (pong_payload (UnixMilli (e_clk e 0)))) s)
       (\<lambda>s1. case me l of
          None \<Rightarrow> Returns s1
        | Some r \<Rightarrow>
            (let s2 = touch (UnixMilli (e_clk e 1)) r s1
             in Returns (case gs_Redis srv of
                  None \<Rightarrow> s2
                | Some _ \<Rightarrow>
                    log_call (CallRedisSet (last_seen_key (c_UserID (clientH s2 r)))
                      (show_int (c_lastSeen (clientH s2 r))) 0) s2)))"

section \<open>Dispatch\<close>

definition dispatch ::
    "GatewayServer \<Rightarrow> nat \<Rightarrow> ws_env \<Rightarrow> WSMsg \<Rightarrow> gw_state \<times> ws_local \<Rightarrow> (gw_state \<times> ws_local) go" where
  "dispatch srv c e m sl =
     (let (s, l) = sl in
      if m_Type m = ''auth'' then handle_auth srv c e m (s, l)
      else with_local l
       (if m_Type m = ''join'' then handle_join srv c m l s
        else if m_Type m = ''leave'' then handle_leave c m l s
        else if m_Type m = ''send'' then handle_send srv c e m l s
        else if m_Type m = ''private'' then handle_private srv c e m l s
        else if m_Type m = ''history'' then handle_history srv c m l s
        else if m_Type m = ''ping'' then handle_ping srv c e l s
        else send_error c txt_unknown_type s))"

text \<open>One iteration of the read loop, after a successful \<open>ReadMessage\<close>.\<close>

definition handle_frame ::
    "GatewayServer \<Rightarrow> nat \<Rightarrow> ws_env \<Rightarrow> bytes \<Rightarrow> gw_state \<times> ws_local \<Rightarrow> (gw_state \<times> ws_local) go" where
  "handle_frame srv c e data sl =
     (case unmarshal_WSMsg data of
        None \<Rightarrow> with_local (snd sl) (send_error c ''invalid message format'' (fst sl))
      | Some m \<Rightarrow> dispatch srv c e m sl)"

section \<open>Cleanup\<close>

text \<open>The IDs of the rooms whose member table has the user ID, in the order visited.\<close>

fun my_rooms :: "string \<Rightarrow> string list \<Rightarrow> gw_state \<Rightarrow> string list" where
  "my_rooms uid [] s = []"
| "my_rooms uid (rid # rids) s =
     (case rooms s rid of
        None \<Rightarrow> my_rooms uid rids s
      | Some rr \<Rightarrow> (if Contains uid (roomH s rr) then rid # my_rooms uid rids s else my_rooms uid rids s))"

definition leave_room :: "nat \<Rightarrow> string \<Rightarrow> gw_state \<Rightarrow> gw_state" where
  "leave_room r rid s =
     (let (rr, s1) = getOrCreateRoom rid s in removeEmptyRoom rid (removeClient rr r s1))"

definition cleanup :: "GatewayServer \<Rightarrow> ws_env \<Rightarrow> ws_local \<Rightarrow> gw_state \<Rightarrow> gw_state" where
  "cleanup srv e l s =
     (case me l of
        None \<Rightarrow> s
      | Some r \<Rightarrow>
          (let uid = c_UserID (clientH s r);
               s1 = fold (leave_room r) (my_rooms uid (e_ord e) s) s;
               s2 = unregisterOnline uid s1
           in case gs_Redis srv of
                None \<Rightarrow> s2
              | Some _ \<Rightarrow>
                  log_call (CallRedisSet (last_seen_key uid) (show_int (UnixMilli (e_clk e 0))) 0)
                    (log_call (CallRedisDel (online_key uid)) s2)))"

text \<open>A spawned \<open>SaveMessage\<close> goroutine runs; its error is only logged.\<close>

definition run_save :: "MangoStore \<Rightarrow> time_ns \<Rightarrow> ChatMessage \<Rightarrow> gw_state \<Rightarrow> gw_state" where
  "run_save ms now cm s = s\<lparr>gw_trace := snd (SaveMessage ms now cm (gw_trace s)), saves := remove1 cm (saves s)\<rparr>"

end
