(* ===== verification/WsFacts.thy ===== *)
theory WsFacts
  imports WsHandle
begin

text \<open>
  What one message does to the shared tables. \<open>same_tables\<close> relates two states that differ in
  channel buffers, traces and heartbeats only; \<open>tables_ok\<close> is the invariant that every entry of the
  online table and of a room belongs to a connection that is alive under that user ID, given by an
  ownership map \<open>\<sigma>\<close> from connections to identities. Under it no send hits a closed channel.
\<close>

lemma with_local_simps [simp]:
  "state_of (with_local l r) = (state_of r, l)" "returns (with_local l r) = returns r"
  by (cases r; simp)+

section \<open>States with the same tables\<close>

definition same_tables :: "gw_state \<Rightarrow> gw_state \<Rightarrow> bool" where
  "same_tables s t \<longleftrightarrow>
     onlineUsers t = onlineUsers s \<and> nextClient t = nextClient s
   \<and> (\<forall>r. c_UserID (clientH t r) = c_UserID (clientH s r) \<and> c_Send (clientH t r) = c_Send (clientH s r)
        \<and> c_Conn (clientH t r) = c_Conn (clientH s r))
   \<and> rooms t = rooms s \<and> roomH t = roomH s \<and> nextRoom t = nextRoom s
   \<and> (\<forall>c. ch_closed (chanH t c) = ch_closed (chanH s c))"

lemma same_tables_refl [simp]: "same_tables s s"
  by (simp add: same_tables_def)

lemma same_tables_trans: "same_tables s t \<Longrightarrow> same_tables t u \<Longrightarrow> same_tables s u"
  by (auto simp: same_tables_def)

lemma same_tables_abs: "same_tables s t \<Longrightarrow> abs_rooms t = abs_rooms s"
  by (rule abs_rooms_cong) (auto simp: same_tables_def)

lemma same_tables_wf: "same_tables s t \<Longrightarrow> rooms_wf t = rooms_wf s"
  by (rule rooms_wf_cong) (auto simp: same_tables_def)

lemma same_tables_send [simp, intro]: "same_tables s (state_of (send_nb c b s))"
  by (simp add: same_tables_def send_nb_closed)

lemma same_tables_sendJSON [simp, intro]: "same_tables s (state_of (sendJSON c v s))"
  by (simp add: sendJSON_def split: option.split)

lemma same_tables_send_error [simp, intro]: "same_tables s (state_of (send_error c msg s))"
  by (simp add: send_error_def)

lemma same_tables_send_client [simp, intro]: "same_tables s (state_of (send_client r b s))"
  by (simp add: send_client_def)

lemma same_tables_trace [simp, intro]: "same_tables s (s\<lparr>gw_trace := h\<rparr>)"
  by (simp add: same_tables_def)

lemma same_tables_log [simp, intro]: "same_tables s (log_call c s)"
  by (simp add: log_call_def)

lemma same_tables_close_conn [simp, intro]: "same_tables s (close_conn c s)"
  by (simp add: same_tables_def close_conn_def)

lemma same_tables_touch [simp, intro]: "same_tables s (touch now r s)"
  by (simp add: same_tables_def touch_def)

lemma same_tables_spawn [simp, intro]: "same_tables s (spawn_save srv cm s)"
  by (simp add: same_tables_def spawn_save_def split: option.split)

lemma same_tables_run_save [simp, intro]: "same_tables s (run_save ms now cm s)"
  by (simp add: same_tables_def run_save_def)

lemma same_tables_broadcast [simp, intro]: "same_tables s (state_of (broadcast rr ord b s))"
  by (simp add: same_tables_def)

lemma same_tables_ban_check [simp, intro]: "same_tables s (log_ban_check srv uid s)"
  by (simp add: log_ban_check_def split: option.split)

lemma same_tables_redis [simp, intro]: "same_tables s (redis_set_online srv uid ttl now s)"
  using same_tables_trans [OF same_tables_log same_tables_log]
  by (simp add: redis_set_online_def split: option.split)

lemma same_tables_load_history: "load_history srv room limit d s = (his, t) \<Longrightarrow> same_tables s t"
  by (auto simp: load_history_def split: option.splits prod.splits sum.splits)

lemma same_tables_for_each:
  assumes "\<And>x t. same_tables t (state_of (body x t))"
  shows "same_tables s (state_of (for_each body xs s))"
proof (rule for_each_inv [where P = "same_tables s"])
  show "same_tables s s" by simp
  show "same_tables s (state_of (body x t))" if "same_tables s t" for x t
    by (rule same_tables_trans [OF that assms])
qed

lemma same_tables_push [simp, intro]: "same_tables s (state_of (pushUndelivered srv uid s))"
proof -
  have loop: "same_tables t (state_of (for_each (\<lambda>m. send_client r (undelivered_frame uid m)) ms t))" for t r ms
    by (rule same_tables_for_each) simp
  have "same_tables s (state_of (for_each (\<lambda>m. send_client r (undelivered_frame uid m)) ms (s\<lparr>gw_trace := h\<rparr>)))"
    for r ms h
    by (rule same_tables_trans [OF same_tables_trace loop])
  note pushed = this
  show ?thesis
  proof (cases "gs_Mongo srv")
    case None
    then show ?thesis by (simp add: pushUndelivered_def)
  next
    case (Some ms)
    obtain res h where "PullUndeliveredForUser ms uid (gw_trace s) = (res, h)" by fastforce
    then show ?thesis
      using Some pushed by (cases res) (simp_all add: pushUndelivered_def Let_def split: option.split)
  qed
qed

lemma same_tables_andThen:
  assumes "same_tables s (state_of r)" "\<And>t. r = Returns t \<Longrightarrow> same_tables t (state_of (f t))"
  shows "same_tables s (state_of (andThen r f))"
  using assms by (cases r) (auto intro: same_tables_trans)

section \<open>The invariant of the tables\<close>

definition ref_ok :: "(nat \<Rightarrow> string option) \<Rightarrow> gw_state \<Rightarrow> string \<Rightarrow> nat \<Rightarrow> bool" where
  "ref_ok \<sigma> s u r \<longleftrightarrow> r < nextClient s \<and> c_UserID (clientH s r) = u \<and> \<sigma> (c_Send (clientH s r)) = Some u"

definition tables_ok :: "(nat \<Rightarrow> string option) \<Rightarrow> gw_state \<Rightarrow> bool" where
  "tables_ok \<sigma> s \<longleftrightarrow> rooms_wf s
   \<and> (\<forall>u r. onlineUsers s u = Some r \<longrightarrow> ref_ok \<sigma> s u r)
   \<and> (\<forall>rid u r. abs_members (abs_rooms s) rid u = Some r \<longrightarrow> ref_ok \<sigma> s u r)
   \<and> (\<forall>c. \<sigma> c \<noteq> None \<longrightarrow> \<not> ch_closed (chanH s c))"

text \<open>The connection \<open>c\<close> with local state \<open>l\<close> is the one \<open>\<sigma>\<close> says it is, and its channel is open.\<close>

definition identity :: "gw_state \<Rightarrow> ws_local \<Rightarrow> string option" where
  "identity s l = map_option (\<lambda>r. c_UserID (clientH s r)) (me l)"

definition owns :: "(nat \<Rightarrow> string option) \<Rightarrow> gw_state \<Rightarrow> nat \<Rightarrow> ws_local \<Rightarrow> bool" where
  "owns \<sigma> s c l \<longleftrightarrow> \<not> ch_closed (chanH s c) \<and> \<sigma> c = identity s l
     \<and> (\<forall>r. me l = Some r \<longrightarrow> r < nextClient s \<and> c_Send (clientH s r) = c \<and> c_Conn (clientH s r) = c)"

lemma ref_ok_same: "same_tables s t \<Longrightarrow> ref_ok \<sigma> t u r = ref_ok \<sigma> s u r"
  by (simp add: ref_ok_def same_tables_def)

lemma tables_ok_same:
  assumes "same_tables s t"
  shows "tables_ok \<sigma> t = tables_ok \<sigma> s"
proof -
  have "onlineUsers t = onlineUsers s" "\<And>c. ch_closed (chanH t c) = ch_closed (chanH s c)"
    using assms by (simp_all add: same_tables_def)
  then show ?thesis
    by (simp add: tables_ok_def ref_ok_same [OF assms] same_tables_abs [OF assms] same_tables_wf [OF assms])
qed

lemma identity_same: "same_tables s t \<Longrightarrow> identity t l = identity s l"
  by (simp add: identity_def same_tables_def)

lemma owns_same: "same_tables s t \<Longrightarrow> owns \<sigma> t c l = owns \<sigma> s c l"
  by (auto simp: owns_def identity_same) (auto simp: same_tables_def)

lemma tables_okD:
  assumes "tables_ok \<sigma> s"
  shows "rooms_wf s"
    and "onlineUsers s u = Some r \<Longrightarrow> ref_ok \<sigma> s u r"
    and "abs_members (abs_rooms s) rid u = Some r \<Longrightarrow> ref_ok \<sigma> s u r"
    and "\<sigma> c = Some v \<Longrightarrow> \<not> ch_closed (chanH s c)"
  using assms by (auto simp: tables_ok_def)

lemma ref_ok_open:
  assumes "tables_ok \<sigma> s" "ref_ok \<sigma> s u r"
  shows "\<not> ch_closed (chanH s (c_Send (clientH s r)))"
  using assms tables_okD(4) by (auto simp: ref_ok_def)

lemma own_ref_ok: "owns \<sigma> s c l \<Longrightarrow> me l = Some r \<Longrightarrow> ref_ok \<sigma> s (c_UserID (clientH s r)) r"
  by (auto simp: owns_def ref_ok_def identity_def)

text \<open>Giving an identity to a connection that had none keeps every entry valid.\<close>

lemma ref_ok_extend:
  assumes "ref_ok \<sigma> s u r" "\<sigma> c = None \<or> \<sigma> c = Some v"
  shows "ref_ok (\<sigma>(c \<mapsto> v)) s u r"
  using assms by (auto simp: ref_ok_def)

section \<open>The operations keep it\<close>

lemma getOrCreateRoom_frame:
  assumes "getOrCreateRoom rid s = (rr, t)"
  shows "onlineUsers t = onlineUsers s" "clientH t = clientH s" "nextClient t = nextClient s" "chanH t = chanH s"
  using assms by (auto simp: getOrCreateRoom_def createRoom_def split: option.splits)

lemma abs_members_open [simp]: "abs_members (abs_open rid a) = abs_members a"
  by (auto simp: abs_members_def abs_open_def fun_eq_iff)

lemma abs_members_join: "abs_members (abs_join rid u c a) = (abs_members a)(rid := (abs_members a rid)(u \<mapsto> c))"
  by (auto simp: abs_members_def abs_join_def fun_eq_iff)

lemma abs_members_leave: "abs_members (abs_leave rid u a) = (abs_members a)(rid := (abs_members a rid)(u := None))"
  by (auto simp: abs_members_def abs_leave_def fun_eq_iff Let_def)

lemma ref_ok_cong:
  "clientH t = clientH s \<Longrightarrow> nextClient t = nextClient s \<Longrightarrow> ref_ok \<sigma> t = ref_ok \<sigma> s"
  by (simp add: ref_ok_def fun_eq_iff)

lemma tables_ok_getOrCreateRoom:
  assumes "tables_ok \<sigma> s" "getOrCreateRoom rid s = (rr, t)"
  shows "tables_ok \<sigma> t"
proof -
  have "rooms_wf t" using rooms_wf_getOrCreateRoom [OF tables_okD(1) [OF assms(1)], of rid] assms(2) by simp
  moreover have "abs_members (abs_rooms t) = abs_members (abs_rooms s)"
    using abs_getOrCreateRoom [OF tables_okD(1) [OF assms(1)] assms(2)] by simp
  moreover have "ref_ok \<sigma> t = ref_ok \<sigma> s" using getOrCreateRoom_frame [OF assms(2)] by (intro ref_ok_cong)
  ultimately show ?thesis
    using assms(1) getOrCreateRoom_frame [OF assms(2)] by (simp add: tables_ok_def)
qed

lemma addClient_frame:
  "onlineUsers (addClient rr r s) = onlineUsers s" "clientH (addClient rr r s) = clientH s"
  "nextClient (addClient rr r s) = nextClient s" "chanH (addClient rr r s) = chanH s"
  by (simp_all add: addClient_def)

lemma leave_frame:
  "onlineUsers (removeEmptyRoom rid (removeClient rr r s)) = onlineUsers s"
  "clientH (removeEmptyRoom rid (removeClient rr r s)) = clientH s"
  "nextClient (removeEmptyRoom rid (removeClient rr r s)) = nextClient s"
  "chanH (removeEmptyRoom rid (removeClient rr r s)) = chanH s"
  by (simp_all add: removeEmptyRoom_def removeClient_def split: option.split)

lemma tables_ok_join:
  assumes "tables_ok \<sigma> s" "getOrCreateRoom rid s = (rr, t)" "ref_ok \<sigma> s (c_UserID (clientH s r)) r"
  shows "tables_ok \<sigma> (addClient rr r t)"
proof -
  note wf = tables_okD(1) [OF assms(1)]
  let ?t = "addClient rr r t"
  have "rooms_wf ?t"
    using rooms_wf_addClient rooms_wf_getOrCreateRoom [OF wf, of rid] assms(2) by simp
  moreover have "abs_members (abs_rooms ?t) =
      (abs_members (abs_rooms s))(rid := (abs_members (abs_rooms s) rid)(c_UserID (clientH s r) \<mapsto> r))"
    using join_refines [OF wf assms(2), of r] by (simp add: abs_members_join)
  moreover have "ref_ok \<sigma> ?t = ref_ok \<sigma> s"
    using getOrCreateRoom_frame [OF assms(2)] by (intro ref_ok_cong) (simp_all add: addClient_frame)
  ultimately show ?thesis
    using assms(1,3) getOrCreateRoom_frame [OF assms(2)]
    by (auto simp: tables_ok_def addClient_frame)
qed

lemma leave_room_frame [simp, go_frame]:
  "onlineUsers (leave_room r rid s) = onlineUsers s" "clientH (leave_room r rid s) = clientH s"
  "nextClient (leave_room r rid s) = nextClient s" "chanH (leave_room r rid s) = chanH s"
  by (auto simp: leave_room_def Let_def leave_frame dest: getOrCreateRoom_frame split: prod.split)

lemma abs_leave_room:
  "rooms_wf s \<Longrightarrow> abs_rooms (leave_room r rid s) = abs_leave rid (c_UserID (clientH s r)) (abs_rooms s)"
  using leave_refines by (auto simp: leave_room_def split: prod.split)

lemma rooms_wf_leave_room: "rooms_wf s \<Longrightarrow> rooms_wf (leave_room r rid s)"
  using rooms_wf_getOrCreateRoom [of s rid]
  by (auto simp: leave_room_def rooms_wf_removeEmptyRoom rooms_wf_removeClient split: prod.split)

lemma tables_ok_leave_room:
  assumes "tables_ok \<sigma> s"
  shows "tables_ok \<sigma> (leave_room r rid s)"
proof -
  note wf = tables_okD(1) [OF assms]
  have "ref_ok \<sigma> (leave_room r rid s) = ref_ok \<sigma> s" by (rule ref_ok_cong) simp_all
  then show ?thesis
    using assms rooms_wf_leave_room [OF wf]
    by (auto simp: tables_ok_def abs_leave_room [OF wf] abs_members_leave)
qed

text \<open>Registering a new client of a connection that has no other identity.\<close>

lemma tables_ok_register:
  assumes ok: "tables_ok \<sigma> s" and new: "new_client uid c s = (r, t)"
    and id: "\<sigma> c = None \<or> \<sigma> c = Some uid" and chan: "\<not> ch_closed (chanH s c)"
  shows "tables_ok (\<sigma>(c \<mapsto> uid)) (registerOnline uid r t)"
proof -
  let ?\<sigma> = "\<sigma>(c \<mapsto> uid)" and ?t = "registerOnline uid r t"
  have t: "?t = s\<lparr>clientH := (clientH s)(nextClient s := \<lparr>c_UserID = uid, c_Conn = c, c_Send = c, c_lastSeen = 0\<rparr>),
      nextClient := Suc (nextClient s), onlineUsers := (onlineUsers s)(uid \<mapsto> nextClient s)\<rparr>"
    and r: "r = nextClient s"
    using new by (auto simp: new_client_def registerOnline_def)
  have old: "ref_ok ?\<sigma> ?t u r'" if "ref_ok \<sigma> s u r'" for u r'
    using ref_ok_extend [OF that id] that by (auto simp: ref_ok_def t)
  have "ref_ok ?\<sigma> ?t uid r" unfolding ref_ok_def t by (simp add: r)
  moreover have "abs_rooms ?t = abs_rooms s" by (rule abs_rooms_cong) (simp_all add: t)
  moreover have "rooms_wf ?t = rooms_wf s" by (rule rooms_wf_cong) (simp_all add: t)
  moreover have "onlineUsers ?t = (onlineUsers s)(uid \<mapsto> r)" "chanH ?t = chanH s"
    unfolding t by (simp_all add: r)
  ultimately show ?thesis
    using ok old chan by (auto simp: tables_ok_def)
qed

lemma owns_register:
  assumes "new_client uid c s = (r, t)" "\<not> ch_closed (chanH s c)"
  shows "owns (\<sigma>(c \<mapsto> uid)) (registerOnline uid r t) c (l\<lparr>me := Some r\<rparr>)"
  using assms by (auto simp: owns_def identity_def new_client_def registerOnline_def)

end
