(* ===== verification/WsSafety.thy ===== *)
theory WsSafety
  imports WsFacts
begin

text \<open>
  One message is handled without a panic in every state that satisfies \<open>tables_ok\<close>, and the
  invariant is kept as long as the connection does not change its user ID.
\<close>

section \<open>Sends that cannot panic\<close>

lemma send_client_returns: "returns (send_client r b s) \<longleftrightarrow> \<not> ch_closed (chanH s (c_Send (clientH s r)))"
  by (simp add: send_client_def sendq.deliver_returns_iff)

lemma sendJSON_returns: "\<not> ch_closed (chanH s c) \<Longrightarrow> returns (sendJSON c v s)"
  by (simp add: sendJSON_def sendq.deliver_returns_iff split: option.split)

lemma send_error_returns: "\<not> ch_closed (chanH s c) \<Longrightarrow> returns (send_error c msg s)"
  by (simp add: send_error_def sendJSON_returns)

lemma same_tables_closed: "same_tables s t \<Longrightarrow> ch_closed (chanH t c) = ch_closed (chanH s c)"
  by (simp add: same_tables_def)

lemma same_tables_send_of: "same_tables s t \<Longrightarrow> c_Send (clientH t r) = c_Send (clientH s r)"
  by (simp add: same_tables_def)

lemma push_loop_returns:
  assumes "\<not> ch_closed (chanH s (c_Send (clientH s r)))"
  shows "returns (for_each (\<lambda>m. send_client r (f m)) ms s)"
proof (rule for_each_returns [where P = "same_tables s"])
  show "same_tables s s" by simp
  fix m t assume st: "same_tables s t"
  have "returns (send_client r (f m) t)"
    using assms by (simp add: send_client_returns same_tables_closed [OF st] same_tables_send_of [OF st])
  then show "returns (send_client r (f m) t) \<and> same_tables s (state_of (send_client r (f m) t))"
    using same_tables_trans [OF st same_tables_send_client] by blast
qed

lemma push_returns:
  assumes "\<And>r. onlineUsers s uid = Some r \<Longrightarrow> \<not> ch_closed (chanH s (c_Send (clientH s r)))"
  shows "returns (pushUndelivered srv uid s)"
proof -
  have loop: "returns (for_each (\<lambda>m. send_client r (undelivered_frame uid m)) ms (s\<lparr>gw_trace := h\<rparr>))"
    if "onlineUsers s uid = Some r" for r ms h
    using assms [OF that] by (intro push_loop_returns) simp
  show ?thesis
  proof (cases "gs_Mongo srv")
    case None
    then show ?thesis by (simp add: pushUndelivered_def)
  next
    case (Some ms)
    obtain res h where "PullUndeliveredForUser ms uid (gw_trace s) = (res, h)" by fastforce
    then show ?thesis
      using Some loop
      by (cases res) (simp_all add: pushUndelivered_def getOnlineClient_def Let_def split: option.split)
  qed
qed

lemma broadcast_returns:
  assumes ok: "tables_ok \<sigma> s" and rr: "rooms s rid = Some rr"
  shows "returns (broadcast rr ord b s)"
proof -
  have mem: "abs_members (abs_rooms s) rid = r_clients (roomH s rr)"
    using rr by (simp add: abs_members_def abs_rooms_def)
  have "all_open rr ord s"
    unfolding all_open_def using ref_ok_open [OF ok] tables_okD(3) [OF ok] mem by metis
  then show ?thesis by (simp add: broadcast_returns_iff)
qed

section \<open>Messages of an established connection\<close>

text \<open>\<open>fine \<sigma> s c l r\<close>: the call returns and leaves the tables and the connection in order.\<close>

definition fine :: "(nat \<Rightarrow> string option) \<Rightarrow> nat \<Rightarrow> ws_local \<Rightarrow> gw_state go \<Rightarrow> bool" where
  "fine \<sigma> c l r \<longleftrightarrow> returns r \<and> tables_ok \<sigma> (state_of r) \<and> owns \<sigma> (state_of r) c l"

lemma fine_same:
  assumes "tables_ok \<sigma> s" "owns \<sigma> s c l" "returns r" "same_tables s (state_of r)"
  shows "fine \<sigma> c l r"
  using assms by (simp add: fine_def tables_ok_same owns_same)

lemma owns_open: "owns \<sigma> s c l \<Longrightarrow> \<not> ch_closed (chanH s c)"
  by (simp add: owns_def)

lemma fine_sendJSON: "tables_ok \<sigma> s \<Longrightarrow> owns \<sigma> s c l \<Longrightarrow> fine \<sigma> c l (sendJSON c v s)"
  by (rule fine_same [OF _ _ sendJSON_returns [OF owns_open] same_tables_sendJSON])

lemma fine_send_error: "tables_ok \<sigma> s \<Longrightarrow> owns \<sigma> s c l \<Longrightarrow> fine \<sigma> c l (send_error c msg s)"
  by (simp add: send_error_def fine_sendJSON)

lemma owns_frame:
  "owns \<sigma> s c l \<Longrightarrow> clientH t = clientH s \<Longrightarrow> nextClient t = nextClient s \<Longrightarrow> chanH t = chanH s \<Longrightarrow> owns \<sigma> t c l"
  by (auto simp: owns_def identity_def)

lemma fine_join:
  assumes ok: "tables_ok \<sigma> s" and own: "owns \<sigma> s c l"
  shows "fine \<sigma> c l (handle_join srv c m l s)"
proof (cases "me l")
  case None
  then show ?thesis using fine_send_error [OF assms] by (simp add: handle_join_def)
next
  case (Some r)
  obtain rr s1 where g: "getOrCreateRoom (m_RoomID m) s = (rr, s1)" by fastforce
  let ?s2 = "addClient rr r s1"
  obtain his s3 where h: "load_history srv (m_RoomID m) 50 (Slice []) ?s2 = (his, s3)" by fastforce
  have "tables_ok \<sigma> ?s2" by (rule tables_ok_join [OF ok g own_ref_ok [OF own Some]])
  moreover have "owns \<sigma> ?s2 c l"
    using owns_frame [OF own] getOrCreateRoom_frame [OF g] by (simp add: addClient_frame)
  ultimately have "tables_ok \<sigma> s3" "owns \<sigma> s3 c l"
    using same_tables_load_history [OF h] by (simp_all add: tables_ok_same owns_same)
  then show ?thesis using Some g h fine_sendJSON by (simp add: handle_join_def)
qed

lemma handle_leave_eq:
  "me l = Some r \<Longrightarrow> handle_leave c m l s = sendJSON c (Some (left_payload (m_RoomID m))) (leave_room r (m_RoomID m) s)"
  by (simp add: handle_leave_def leave_room_def Let_def split: prod.split)

lemma fine_leave:
  assumes ok: "tables_ok \<sigma> s" and own: "owns \<sigma> s c l"
  shows "fine \<sigma> c l (handle_leave c m l s)"
proof (cases "me l")
  case None
  then show ?thesis using assms by (simp add: handle_leave_def fine_def)
next
  case (Some r)
  show ?thesis
    unfolding handle_leave_eq [OF Some]
    by (rule fine_sendJSON [OF tables_ok_leave_room [OF ok] owns_frame [OF own]]) simp_all
qed

lemma fine_send:
  assumes ok: "tables_ok \<sigma> s" and own: "owns \<sigma> s c l"
  shows "fine \<sigma> c l (handle_send srv c e m l s)"
proof (cases "me l")
  case None
  then show ?thesis using fine_send_error [OF assms] by (simp add: handle_send_def)
next
  case (Some r)
  obtain rr s1 where g: "getOrCreateRoom (m_RoomID m) s = (rr, s1)" by fastforce
  let ?b = "message_frame (c_UserID (clientH s r)) m e"
  let ?res = "andThen (broadcast rr (e_ord e) ?b s1)
      (\<lambda>s2. Returns (spawn_save srv (room_message (c_UserID (clientH s r)) m e) s2))"
  have ok1: "tables_ok \<sigma> s1" by (rule tables_ok_getOrCreateRoom [OF ok g])
  have own1: "owns \<sigma> s1 c l" using owns_frame [OF own] getOrCreateRoom_frame [OF g] by simp
  have "returns (broadcast rr (e_ord e) ?b s1)"
    by (rule broadcast_returns [OF ok1 getOrCreateRoom_in_table [OF g]])
  then have "returns ?res" by (simp add: returns_andThen)
  moreover have "same_tables s1 (state_of ?res)" by (rule same_tables_andThen) simp_all
  ultimately have "fine \<sigma> c l ?res" by (rule fine_same [OF ok1 own1])
  then show ?thesis using Some g by (simp add: handle_send_def Let_def)
qed

lemma fine_andThen_sendJSON:
  assumes "tables_ok \<sigma> s" "owns \<sigma> s c l" "returns r" "same_tables s (state_of r)"
  shows "fine \<sigma> c l (andThen r (sendJSON c v))"
proof -
  have "tables_ok \<sigma> (state_of r)" "owns \<sigma> (state_of r) c l"
    using assms by (simp_all add: tables_ok_same owns_same)
  then show ?thesis using fine_sendJSON assms(3) by (cases r) auto
qed

lemma fine_private:
  assumes ok: "tables_ok \<sigma> s" and own: "owns \<sigma> s c l"
  shows "fine \<sigma> c l (handle_private srv c e m l s)"
proof (cases "me l")
  case None
  then show ?thesis using fine_send_error [OF assms] by (simp add: handle_private_def)
next
  case (Some r)
  let ?uid = "c_UserID (clientH s r)"
  let ?res = "case getOnlineClient (m_To m) s of
        Some target \<Rightarrow> andThen (send_client target (private_frame ?uid m e) s)
          (\<lambda>s1. Returns (spawn_save srv (private_message ?uid m e True) s1))
      | None \<Rightarrow> Returns (spawn_save srv (private_message ?uid m e False) s)"
  have "\<not> ch_closed (chanH s (c_Send (clientH s t)))" if "getOnlineClient (m_To m) s = Some t" for t
    using ref_ok_open [OF ok] tables_okD(2) [OF ok] that by (auto simp: getOnlineClient_def)
  then have "returns ?res"
    by (simp add: returns_andThen send_client_returns split: option.split)
  moreover have "same_tables s (state_of ?res)"
    by (auto split: option.split intro: same_tables_andThen)
  ultimately have "fine \<sigma> c l (andThen ?res (sendJSON c (Some (ack_payload (m_To m)))))"
    by (rule fine_andThen_sendJSON [OF ok own])
  then show ?thesis using Some by (simp add: handle_private_def Let_def)
qed

lemma fine_history:
  assumes ok: "tables_ok \<sigma> s" and own: "owns \<sigma> s c l"
  shows "fine \<sigma> c l (handle_history srv c m l s)"
proof (cases "me l")
  case None
  then show ?thesis using fine_send_error [OF assms] by (simp add: handle_history_def)
next
  case (Some r)
  obtain his t where h: "load_history srv (m_RoomID m) (effective_limit (m_Limit m)) NilSlice s = (his, t)"
    by fastforce
  then have "tables_ok \<sigma> t" "owns \<sigma> t c l"
    using assms same_tables_load_history [OF h] by (simp_all add: tables_ok_same owns_same)
  then show ?thesis using Some h fine_sendJSON by (simp add: handle_history_def)
qed

lemma fine_ping:
  assumes ok: "tables_ok \<sigma> s" and own: "owns \<sigma> s c l"
  shows "fine \<sigma> c l (handle_ping srv c e l s)"
proof (rule fine_same [OF ok own])
  show "returns (handle_ping srv c e l s)"
    using sendJSON_returns [OF owns_open [OF own]]
    by (simp add: handle_ping_def returns_andThen Let_def split: option.split)
  have "same_tables t (log_call k (touch now r t))" for k now r and t :: gw_state
    by (rule same_tables_trans [OF same_tables_touch same_tables_log])
  then show "same_tables s (state_of (handle_ping srv c e l s))"
    unfolding handle_ping_def
    by (intro same_tables_andThen) (auto simp: Let_def split: option.split)
qed

section \<open>Authentication\<close>

text \<open>The outcome of a message for the pair of shared and local state.\<close>

definition kept :: "(nat \<Rightarrow> string option) \<Rightarrow> nat \<Rightarrow> gw_state \<times> ws_local \<Rightarrow> bool" where
  "kept \<sigma> c sl \<longleftrightarrow>
     (let (s, l) = sl in tables_ok (\<sigma>(c := identity s l)) s \<and> owns (\<sigma>(c := identity s l)) s c l)"

lemma fine_kept: "fine \<sigma> c l r \<Longrightarrow> kept \<sigma> c (state_of r, l)"
  by (auto simp: fine_def kept_def owns_def fun_upd_idem)

lemma kept_same:
  assumes "tables_ok \<sigma> s" "owns \<sigma> s c l" "same_tables s t" "me l' = me l"
  shows "kept \<sigma> c (t, l')"
proof -
  have "tables_ok \<sigma> t" "owns \<sigma> t c l" using assms(1-3) by (simp_all add: tables_ok_same owns_same)
  moreover have "identity t l' = identity t l" using assms(4) by (simp add: identity_def)
  ultimately show ?thesis using assms(4) by (auto simp: kept_def owns_def fun_upd_idem)
qed

lemma finish_auth_state:
  assumes "new_client uid c s = (r, t)"
  shows "\<exists>u. state_of (finish_auth srv c e uid ttl (s, l)) = (u, l\<lparr>me := Some r\<rparr>)
           \<and> same_tables (registerOnline uid r t) u"
proof -
  let ?s2 = "registerOnline uid r t"
  let ?res = "andThen (pushUndelivered srv uid ?s2)
      (\<lambda>s3. sendJSON c (Some (authed_payload uid)) (redis_set_online srv uid ttl (UnixMilli (e_clk e 0)) s3))"
  have "same_tables ?s2 (state_of ?res)"
    by (rule same_tables_andThen) (auto intro: same_tables_trans [OF same_tables_redis])
  then show ?thesis using assms by (simp add: finish_auth_def Let_def)
qed

lemma finish_auth_returns:
  assumes "\<not> ch_closed (chanH s c)"
  shows "returns (finish_auth srv c e uid ttl (s, l))"
proof -
  obtain r t where new: "new_client uid c s = (r, t)" by fastforce
  let ?s2 = "registerOnline uid r t"
  have open2: "\<not> ch_closed (chanH ?s2 c)" "onlineUsers ?s2 uid = Some r" "c_Send (clientH ?s2 r) = c"
    using new assms by (auto simp: new_client_def registerOnline_def)
  then have push: "returns (pushUndelivered srv uid ?s2)" by (intro push_returns) auto
  let ?s3 = "redis_set_online srv uid ttl (UnixMilli (e_clk e 0)) (state_of (pushUndelivered srv uid ?s2))"
  have "same_tables ?s2 ?s3" by (rule same_tables_trans [OF same_tables_push same_tables_redis])
  then have "\<not> ch_closed (chanH ?s3 c)" using open2 by (simp add: same_tables_closed)
  then show ?thesis
    using new push by (simp add: finish_auth_def Let_def returns_andThen sendJSON_returns)
qed

lemma finish_auth_kept:
  assumes ok: "tables_ok \<sigma> s" and chan: "\<not> ch_closed (chanH s c)"
    and id: "\<sigma> c = None \<or> \<sigma> c = Some uid"
  shows "kept \<sigma> c (state_of (finish_auth srv c e uid ttl (s, l)))"
proof -
  obtain r t where new: "new_client uid c s = (r, t)" by fastforce
  obtain u where u: "state_of (finish_auth srv c e uid ttl (s, l)) = (u, l\<lparr>me := Some r\<rparr>)"
      "same_tables (registerOnline uid r t) u"
    using finish_auth_state [OF new] by blast
  have "tables_ok (\<sigma>(c \<mapsto> uid)) u"
    using tables_ok_register [OF ok new id chan] u(2) by (simp add: tables_ok_same)
  moreover have own: "owns (\<sigma>(c \<mapsto> uid)) u c (l\<lparr>me := Some r\<rparr>)"
    using owns_register [OF new chan] u(2) by (simp add: owns_same)
  moreover have "identity u (l\<lparr>me := Some r\<rparr>) = Some uid"
    using own by (simp add: owns_def)
  ultimately show ?thesis using u(1) by (simp add: kept_def)
qed

lemma finish_auth_identity:
  "identity (fst (state_of (finish_auth srv c e uid ttl (s, l)))) (snd (state_of (finish_auth srv c e uid ttl (s, l)))) = Some uid"
proof -
  obtain r t where new: "new_client uid c s = (r, t)" by fastforce
  then show ?thesis
    using finish_auth_state [OF new, of srv e ttl l]
    by (auto simp: identity_def same_tables_def registerOnline_def new_client_def)
qed

text \<open>
  The two outcomes of an \<open>auth\<close> message: it is refused, leaving the tables and \<open>me\<close> alone, or it
  ends in \<open>finish_auth\<close> from a state with the same tables.
\<close>

inductive auth_outcome ::
    "GatewayServer \<Rightarrow> nat \<Rightarrow> ws_env \<Rightarrow> gw_state \<Rightarrow> ws_local \<Rightarrow> (gw_state \<times> ws_local) go \<Rightarrow> bool"
  for srv c e s l where
  refused: "same_tables s t \<Longrightarrow> me l' = me l \<Longrightarrow>
      auth_outcome srv c e s l (with_local l' (refuse c hangup msg t))"
| accepted: "same_tables s t \<Longrightarrow> me l' = me l \<Longrightarrow>
      auth_outcome srv c e s l (finish_auth srv c e uid ttl (t, l'))"

lemma same_tables_refuse [simp, intro]: "same_tables s (state_of (refuse c hangup msg s))"
  unfolding refuse_def by (rule same_tables_andThen) auto

lemma refuse_returns: "\<not> ch_closed (chanH s c) \<Longrightarrow> returns (refuse c hangup msg s)"
  by (simp add: refuse_def returns_andThen send_error_returns)

lemma handle_auth_outcome: "auth_outcome srv c e s l (handle_auth srv c e m (s, l))"
  unfolding handle_auth_def Let_def
  by (auto split: option.split sum.split
      intro!: auth_outcome.intros same_tables_trans [OF same_tables_log same_tables_ban_check])

lemma handle_auth_returns:
  assumes "\<not> ch_closed (chanH s c)"
  shows "returns (handle_auth srv c e m (s, l))"
  using handle_auth_outcome [of srv c e s l m] assms
  by cases (simp_all add: refuse_returns finish_auth_returns same_tables_closed)

text \<open>Whether a pair of states has the identity the connection had before, if it had one.\<close>

definition keeps_identity :: "gw_state \<times> ws_local \<Rightarrow> gw_state \<times> ws_local \<Rightarrow> bool" where
  "keeps_identity sl sl' \<longleftrightarrow>
     (case identity (fst sl) (snd sl) of None \<Rightarrow> True
      | Some u \<Rightarrow> identity (fst sl') (snd sl') = Some u)"

lemma handle_auth_kept:
  assumes ok: "tables_ok \<sigma> s" and own: "owns \<sigma> s c l"
    and same: "keeps_identity (s, l) (state_of (handle_auth srv c e m (s, l)))"
  shows "kept \<sigma> c (state_of (handle_auth srv c e m (s, l)))"
  using handle_auth_outcome [of srv c e s l m]
proof cases
  case (refused t l' hangup msg)
  have "same_tables s (state_of (refuse c hangup msg t))"
    by (rule same_tables_trans [OF refused(2) same_tables_refuse])
  then show ?thesis using kept_same [OF ok own] refused(1,3) by simp
next
  case (accepted t l' uid ttl)
  have "tables_ok \<sigma> t" "owns \<sigma> t c l" using ok own accepted(2) by (simp_all add: tables_ok_same owns_same)
  moreover have "\<sigma> c = None \<or> \<sigma> c = Some uid"
    using same own finish_auth_identity [of srv c e uid ttl t l'] accepted(1)
    by (auto simp: keeps_identity_def owns_def split: option.splits)
  ultimately show ?thesis
    using accepted(1) finish_auth_kept owns_open by metis
qed

section \<open>Any message\<close>

lemma fine_dispatch:
  assumes "tables_ok \<sigma> s" "owns \<sigma> s c l" "m_Type m \<noteq> ''auth''"
  shows "\<exists>r. dispatch srv c e m (s, l) = with_local l r \<and> fine \<sigma> c l r"
proof
  let ?r = "if m_Type m = ''join'' then handle_join srv c m l s
        else if m_Type m = ''leave'' then handle_leave c m l s
        else if m_Type m = ''send'' then handle_send srv c e m l s
        else if m_Type m = ''private'' then handle_private srv c e m l s
        else if m_Type m = ''history'' then handle_history srv c m l s
        else if m_Type m = ''ping'' then handle_ping srv c e l s
        else send_error c txt_unknown_type s"
  note fines = fine_join [OF assms(1,2)] fine_leave [OF assms(1,2)] fine_send [OF assms(1,2)]
    fine_private [OF assms(1,2)] fine_history [OF assms(1,2)] fine_ping [OF assms(1,2)]
    fine_send_error [OF assms(1,2)]
  have "fine \<sigma> c l ?r" by (simp add: fines)
  then show "dispatch srv c e m (s, l) = with_local l ?r \<and> fine \<sigma> c l ?r"
    using assms(3) by (simp add: dispatch_def)
qed

theorem handle_frame_returns:
  assumes "tables_ok \<sigma> s" "owns \<sigma> s c l"
  shows "returns (handle_frame srv c e data (s, l))"
proof (cases "unmarshal_WSMsg data")
  case None
  then show ?thesis using fine_send_error [OF assms] by (simp add: handle_frame_def fine_def)
next
  case (Some m)
  show ?thesis
  proof (cases "m_Type m = ''auth''")
    case True
    then show ?thesis
      using Some handle_auth_returns [OF owns_open [OF assms(2)]] by (simp add: handle_frame_def dispatch_def)
  next
    case False
    then obtain r where "dispatch srv c e m (s, l) = with_local l r" "fine \<sigma> c l r"
      using fine_dispatch [OF assms] by blast
    then show ?thesis using Some by (simp add: handle_frame_def fine_def)
  qed
qed

theorem handle_frame_kept:
  assumes "tables_ok \<sigma> s" "owns \<sigma> s c l"
    and "keeps_identity (s, l) (state_of (handle_frame srv c e data (s, l)))"
  shows "kept \<sigma> c (state_of (handle_frame srv c e data (s, l)))"
proof (cases "unmarshal_WSMsg data")
  case None
  then show ?thesis
    using fine_kept [OF fine_send_error [OF assms(1,2)]] by (simp add: handle_frame_def)
next
  case (Some m)
  show ?thesis
  proof (cases "m_Type m = ''auth''")
    case True
    then show ?thesis
      using Some assms handle_auth_kept by (simp add: handle_frame_def dispatch_def)
  next
    case False
    then obtain r where "dispatch srv c e m (s, l) = with_local l r" "fine \<sigma> c l r"
      using fine_dispatch [OF assms(1,2)] by blast
    then show ?thesis using Some fine_kept by (simp add: handle_frame_def)
  qed
qed

section \<open>Cleanup\<close>

text \<open>After the cleanup no entry carries the user ID of the connection, so its channel may be closed.\<close>

lemma leave_rooms_frame:
  "onlineUsers (fold (leave_room r) rids s) = onlineUsers s" "clientH (fold (leave_room r) rids s) = clientH s"
  "nextClient (fold (leave_room r) rids s) = nextClient s" "chanH (fold (leave_room r) rids s) = chanH s"
  by (induction rids arbitrary: s) simp_all

lemma tables_ok_leave_rooms: "tables_ok \<sigma> s \<Longrightarrow> tables_ok \<sigma> (fold (leave_room r) rids s)"
  by (induction rids arbitrary: s) (simp_all add: tables_ok_leave_room)

lemma rooms_wf_leave_rooms: "rooms_wf s \<Longrightarrow> rooms_wf (fold (leave_room r) rids s)"
  by (induction rids arbitrary: s) (simp_all add: rooms_wf_leave_room)

lemma abs_leave_rooms:
  "rooms_wf s \<Longrightarrow> abs_members (abs_rooms (fold (leave_room r) rids s)) rid u =
     (if rid \<in> set rids \<and> u = c_UserID (clientH s r) then None else abs_members (abs_rooms s) rid u)"
  by (induction rids arbitrary: s)
    (auto simp: rooms_wf_leave_room abs_leave_room abs_members_leave)

lemma my_rooms_set:
  "rid \<in> set (my_rooms uid ord s) \<longleftrightarrow> rid \<in> set ord \<and> abs_members (abs_rooms s) rid uid \<noteq> None"
  by (induction ord) (auto simp: abs_members_def abs_rooms_def Contains_def Room_client_def split: option.splits)

lemma abs_members_dom: "rooms s rid = None \<Longrightarrow> abs_members (abs_rooms s) rid u = None"
  by (simp add: abs_members_def abs_rooms_def)

definition cleaned :: "string \<Rightarrow> gw_state \<Rightarrow> bool" where
  "cleaned uid s \<longleftrightarrow> onlineUsers s uid = None \<and> (\<forall>rid. abs_members (abs_rooms s) rid uid = None)"

lemma cleanup_same_tables:
  assumes "me l = Some r"
  shows "same_tables (unregisterOnline (c_UserID (clientH s r))
            (fold (leave_room r) (my_rooms (c_UserID (clientH s r)) (e_ord e) s) s)) (cleanup srv e l s)"
  using assms same_tables_trans [OF same_tables_log same_tables_log]
  by (simp add: cleanup_def Let_def split: option.split)

lemma unregister_abs [simp]: "abs_rooms (unregisterOnline uid s) = abs_rooms s"
  by (rule abs_rooms_cong) (simp_all add: unregisterOnline_def)

lemma unregister_frame [simp]:
  "clientH (unregisterOnline uid s) = clientH s" "nextClient (unregisterOnline uid s) = nextClient s"
  "chanH (unregisterOnline uid s) = chanH s" "rooms_wf (unregisterOnline uid s) = rooms_wf s"
  by (simp_all add: unregisterOnline_def rooms_wf_def)

lemma tables_ok_unregister: "tables_ok \<sigma> s \<Longrightarrow> tables_ok \<sigma> (unregisterOnline uid s)"
  using ref_ok_cong [of "unregisterOnline uid s" s \<sigma>]
  by (auto simp: tables_ok_def) (auto simp: unregisterOnline_def split: if_splits)

lemma cleanup_abs:
  assumes ok: "rooms_wf s" and me: "me l = Some r" and ord: "range_order (rooms s) (e_ord e)"
  shows "abs_members (abs_rooms (cleanup srv e l s)) rid u =
           (if u = c_UserID (clientH s r) then None else abs_members (abs_rooms s) rid u)"
    and "onlineUsers (cleanup srv e l s) = (onlineUsers s)(c_UserID (clientH s r) := None)"
proof -
  let ?uid = "c_UserID (clientH s r)"
  let ?rids = "my_rooms ?uid (e_ord e) s"
  have visited: "abs_members (abs_rooms s) rid ?uid = None \<or> rid \<in> set (e_ord e)"
    using abs_members_dom [of s rid ?uid] ord by (cases "rooms s rid") (auto simp: range_orderD(2))
  have "abs_members (abs_rooms (cleanup srv e l s)) rid u =
      (if rid \<in> set ?rids \<and> u = ?uid then None else abs_members (abs_rooms s) rid u)"
    using same_tables_abs [OF cleanup_same_tables [OF me, of s e srv]]
    by (simp only: unregister_abs abs_leave_rooms [OF ok])
  then show "abs_members (abs_rooms (cleanup srv e l s)) rid u =
      (if u = ?uid then None else abs_members (abs_rooms s) rid u)"
    using visited by (cases "rid \<in> set ?rids") (auto simp: my_rooms_set)
  show "onlineUsers (cleanup srv e l s) = (onlineUsers s)(?uid := None)"
    using cleanup_same_tables [OF me, of s e srv] leave_rooms_frame(1) [of r ?rids s]
    by (simp add: same_tables_def unregisterOnline_def)
qed

lemma cleanup_tables_ok:
  assumes "tables_ok \<sigma> s"
  shows "tables_ok \<sigma> (cleanup srv e l s)"
proof (cases "me l")
  case None
  then show ?thesis using assms by (simp add: cleanup_def)
next
  case (Some r)
  then show ?thesis
    using tables_ok_same [OF cleanup_same_tables [OF Some]] tables_ok_unregister [OF tables_ok_leave_rooms [OF assms]]
    by blast
qed

lemma ref_ok_drop:
  assumes "ref_ok \<sigma> s u r" "\<sigma> c \<noteq> Some u"
  shows "ref_ok (\<sigma>(c := None)) s u r"
  using assms by (auto simp: ref_ok_def)

theorem cleanup_releases:
  assumes ok: "tables_ok \<sigma> s" and own: "owns \<sigma> s c l" and ord: "range_order (rooms s) (e_ord e)"
  shows "tables_ok (\<sigma>(c := None)) (cleanup srv e l s)"
proof (cases "me l")
  case None
  then have "\<sigma> c = None" using own by (simp add: owns_def identity_def)
  then show ?thesis using ok None by (simp add: cleanup_def fun_upd_idem)
next
  case (Some r)
  let ?uid = "c_UserID (clientH s r)" and ?t = "cleanup srv e l s"
  have id: "\<sigma> c = Some ?uid" using own Some by (simp add: owns_def identity_def)
  note ok' = cleanup_tables_ok [OF ok, of srv e l]
  note clean = cleanup_abs [OF tables_okD(1) [OF ok] Some ord]
  have "ref_ok (\<sigma>(c := None)) ?t u r'" if "onlineUsers ?t u = Some r'" for u r'
    using tables_okD(2) [OF ok' that] that clean(2) id by (intro ref_ok_drop) (auto split: if_splits)
  moreover have "ref_ok (\<sigma>(c := None)) ?t u r'" if "abs_members (abs_rooms ?t) rid u = Some r'" for rid u r'
    using tables_okD(3) [OF ok' that] that clean(1) id by (intro ref_ok_drop) (auto split: if_splits)
  ultimately show ?thesis
    using ok' by (auto simp: tables_ok_def)
qed

end
