(* ===== verification/Gateway.thy ===== *)
theory Gateway
  imports WsSafety
begin

text \<open>
  The gateway process: any number of \<open>HandleWS\<close> goroutines over the shared state, with their write
  goroutines, the spawned \<open>SaveMessage\<close> goroutines and the disconnects of the ban endpoint. A
  connection goes through the phases of \<open>HandleWS\<close>; one step is one message, the cleanup, the
  deferred closes, one receive of a write goroutine, one save or one disconnect. The shared tables
  are only touched inside critical sections, and a step is taken as atomic.

  The server-side ping goroutine and the read deadline only decide when \<open>ReadMessage\<close> fails; here the
  step \<open>read_error\<close> is enabled at any time, and \<open>Heartbeat\<close> adds the clocks.
\<close>

section \<open>A generic rule for invariants\<close>

locale invariant_system =
  fixes start :: 's and step :: "'s \<Rightarrow> 's \<Rightarrow> bool" and inv :: "'s \<Rightarrow> bool"
  assumes inv_start: "inv start"
    and inv_step: "inv s \<Longrightarrow> step s t \<Longrightarrow> inv t"
begin

lemma inv_reachable: "rtranclp step start s \<Longrightarrow> inv s"
  by (induction rule: rtranclp_induct) (auto intro: inv_start inv_step)

lemma reachable_consequence: "(\<And>s. inv s \<Longrightarrow> P s) \<Longrightarrow> rtranclp step start s \<Longrightarrow> P s"
  using inv_reachable by blast

lemma inv_from: "rtranclp step s t \<Longrightarrow> inv s \<Longrightarrow> inv t"
  by (induction rule: rtranclp_induct) (auto intro: inv_step)

end

section \<open>States and steps\<close>

datatype phase = Fresh | Reading | Draining | Ended

record sys =
  gw :: gw_state
  ph :: "nat \<Rightarrow> phase"
  loc :: "nat \<Rightarrow> ws_local"
  writerUp :: "nat \<Rightarrow> bool"
  written :: "nat \<Rightarrow> bytes list"

definition empty_gw :: gw_state where
  "empty_gw =
     \<lparr>chanH = (\<lambda>_. make_chan), onlineUsers = Map.empty,
      clientH = (\<lambda>_. \<lparr>c_UserID = [], c_Conn = 0, c_Send = 0, c_lastSeen = 0\<rparr>), nextClient = 0,
      rooms = Map.empty, roomH = (\<lambda>_. newRoom []), nextRoom = 0,
      wsClosed = (\<lambda>_. False), gw_trace = [], saves = []\<rparr>"

definition start :: sys where
  "start = \<lparr>gw = empty_gw, ph = (\<lambda>_. Fresh), loc = (\<lambda>_. init_local), writerUp = (\<lambda>_. False), written = (\<lambda>_. [])\<rparr>"

text \<open>The upgrade succeeds: a fresh channel, a fresh socket, the write goroutine is started.\<close>

definition do_accept :: "nat \<Rightarrow> sys \<Rightarrow> sys" where
  "do_accept c s =
     s\<lparr>gw := (gw s)\<lparr>chanH := (chanH (gw s))(c := make_chan), wsClosed := (wsClosed (gw s))(c := False)\<rparr>,
       ph := (ph s)(c := Reading), loc := (loc s)(c := init_local), writerUp := (writerUp s)(c := True)\<rparr>"

definition do_message :: "nat \<Rightarrow> gw_state \<times> ws_local \<Rightarrow> sys \<Rightarrow> sys" where
  "do_message c gl s = s\<lparr>gw := fst gl, loc := (loc s)(c := snd gl)\<rparr>"

text \<open>
  The deferred calls \<open>close(sendCh)\<close> and \<open>conn.Close()\<close> at the end of \<open>HandleWS\<close>. After a panic in
  the handler they run as well, but the cleanup does not.
\<close>

definition deferred :: "nat \<Rightarrow> gw_state \<Rightarrow> gw_state" where
  "deferred c g = close_conn c (state_of (close_chan c g))"

definition do_end :: "nat \<Rightarrow> gw_state \<Rightarrow> sys \<Rightarrow> sys" where
  "do_end c g s = s\<lparr>gw := deferred c g, ph := (ph s)(c := Ended)\<rparr>"

definition do_cleanup :: "GatewayServer \<Rightarrow> nat \<Rightarrow> ws_env \<Rightarrow> sys \<Rightarrow> sys" where
  "do_cleanup srv c e s = s\<lparr>gw := cleanup srv e (loc s c) (gw s), ph := (ph s)(c := Draining)\<rparr>"

text \<open>\<open>disconnectUser\<close> of \<open>api.go\<close>, called by the ban endpoint.\<close>

definition disconnectUser :: "string \<Rightarrow> gw_state \<Rightarrow> gw_state" where
  "disconnectUser uid g =
     (case getOnlineClient uid g of None \<Rightarrow> g | Some r \<Rightarrow> close_conn (c_Conn (clientH g r)) g)"

text \<open>The order of the iteration in a broadcast is a possible order of the room's member table.\<close>

definition order_ok :: "ws_env \<Rightarrow> bytes \<Rightarrow> gw_state \<Rightarrow> bool" where
  "order_ok e data g \<longleftrightarrow>
     (case unmarshal_WSMsg data of
        None \<Rightarrow> True
      | Some m \<Rightarrow> m_Type m = ''send'' \<longrightarrow> range_order (abs_members (abs_rooms g) (m_RoomID m)) (e_ord e))"

inductive gstep :: "GatewayServer \<Rightarrow> sys \<Rightarrow> sys \<Rightarrow> bool" for srv :: GatewayServer where
  accept: "ph s c = Fresh \<Longrightarrow> gstep srv s (do_accept c s)"
| message: "ph s c = Reading \<Longrightarrow> e_rnd e < 10000 \<Longrightarrow> order_ok e data (gw s) \<Longrightarrow>
    handle_frame srv c e data (gw s, loc s c) = Returns gl \<Longrightarrow> gstep srv s (do_message c gl s)"
| message_panic: "ph s c = Reading \<Longrightarrow> e_rnd e < 10000 \<Longrightarrow> order_ok e data (gw s) \<Longrightarrow>
    handle_frame srv c e data (gw s, loc s c) = Panics (g, l) \<Longrightarrow> gstep srv s (do_end c g s)"
| read_error: "ph s c = Reading \<Longrightarrow> range_order (rooms (gw s)) (e_ord e) \<Longrightarrow>
    gstep srv s (do_cleanup srv c e s)"
| finish: "ph s c = Draining \<Longrightarrow> gstep srv s (do_end c (gw s) s)"
| conn_write: "writerUp s c \<Longrightarrow> recv_chan c (gw s) = Some (b, g) \<Longrightarrow>
    gstep srv s (s\<lparr>gw := g, written := (written s)(c := written s c @ [b])\<rparr>)"
| conn_write_error: "writerUp s c \<Longrightarrow> recv_chan c (gw s) = Some (b, g) \<Longrightarrow>
    gstep srv s (s\<lparr>gw := g, writerUp := (writerUp s)(c := False)\<rparr>)"
| writer_end: "writerUp s c \<Longrightarrow> recv_chan c (gw s) = None \<Longrightarrow> ch_closed (chanH (gw s) c) \<Longrightarrow>
    gstep srv s (s\<lparr>writerUp := (writerUp s)(c := False)\<rparr>)"
| save: "gs_Mongo srv = Some ms \<Longrightarrow> cm \<in> set (saves (gw s)) \<Longrightarrow>
    gstep srv s (s\<lparr>gw := run_save ms now cm (gw s)\<rparr>)"
| disconnect: "gstep srv s (s\<lparr>gw := disconnectUser uid (gw s)\<rparr>)"

text \<open>The steps in which no connection changes the user ID it has authenticated as.\<close>

definition keeps_ids :: "sys \<Rightarrow> sys \<Rightarrow> bool" where
  "keeps_ids s t \<longleftrightarrow>
     (\<forall>c. ph s c = Reading \<longrightarrow> ph t c = Reading \<longrightarrow> keeps_identity (gw s, loc s c) (gw t, loc t c))"

definition id_step :: "GatewayServer \<Rightarrow> sys \<Rightarrow> sys \<Rightarrow> bool" where
  "id_step srv s t \<longleftrightarrow> gstep srv s t \<and> keeps_ids s t"

section \<open>The invariant\<close>

definition owner :: "sys \<Rightarrow> nat \<Rightarrow> string option" where
  "owner s c = (if ph s c = Reading then identity (gw s) (loc s c) else None)"

definition sys_inv :: "sys \<Rightarrow> bool" where
  "sys_inv s \<longleftrightarrow> tables_ok (owner s) (gw s)
   \<and> (\<forall>c. ph s c = Reading \<longrightarrow> owns (owner s) (gw s) c (loc s c))
   \<and> (\<forall>c. ph s c = Draining \<longrightarrow> \<not> ch_closed (chanH (gw s) c))"

text \<open>What any handler leaves alone of the other connections: their channels and the existing clients.\<close>

definition extends :: "gw_state \<Rightarrow> gw_state \<Rightarrow> bool" where
  "extends s t \<longleftrightarrow> nextClient s \<le> nextClient t
   \<and> (\<forall>r < nextClient s. c_UserID (clientH t r) = c_UserID (clientH s r)
        \<and> c_Send (clientH t r) = c_Send (clientH s r) \<and> c_Conn (clientH t r) = c_Conn (clientH s r))
   \<and> (\<forall>c. ch_closed (chanH t c) = ch_closed (chanH s c))"

lemma extends_refl [simp]: "extends s s"
  by (simp add: extends_def)

lemma extends_trans: "extends s t \<Longrightarrow> extends t u \<Longrightarrow> extends s u"
  by (auto simp: extends_def)

lemma same_tables_extends: "same_tables s t \<Longrightarrow> extends s t"
  by (simp add: same_tables_def extends_def)

lemma extends_frame:
  "clientH t = clientH s \<Longrightarrow> nextClient t = nextClient s \<Longrightarrow> chanH t = chanH s \<Longrightarrow> extends s t"
  by (simp add: extends_def)

lemma extends_andThen:
  assumes "extends s (state_of r)" "\<And>t. r = Returns t \<Longrightarrow> extends t (state_of (f t))"
  shows "extends s (state_of (andThen r f))"
  using assms by (cases r) (auto intro: extends_trans)

lemma extends_sendJSON: "extends s (state_of (sendJSON c v s))"
  by (simp add: same_tables_extends)

lemma extends_register:
  "new_client uid c s = (r, t) \<Longrightarrow> extends s (registerOnline uid r t)"
  by (auto simp: extends_def new_client_def registerOnline_def)

lemma extends_finish_auth: "extends s (fst (state_of (finish_auth srv c e uid ttl (s, l))))"
proof -
  obtain r t where new: "new_client uid c s = (r, t)" by fastforce
  then obtain u where "state_of (finish_auth srv c e uid ttl (s, l)) = (u, l\<lparr>me := Some r\<rparr>)"
      "same_tables (registerOnline uid r t) u"
    using finish_auth_state [OF new] by blast
  then show ?thesis
    using extends_trans [OF extends_register [OF new] same_tables_extends] by simp
qed

lemma extends_handle_auth: "extends s (fst (state_of (handle_auth srv c e m (s, l))))"
  using handle_auth_outcome [of srv c e s l m]
proof cases
  case (refused t l' hangup msg)
  then show ?thesis
    using extends_trans [OF same_tables_extends same_tables_extends [OF same_tables_refuse]] by simp
next
  case (accepted t l' uid ttl)
  then show ?thesis
    using extends_trans [OF same_tables_extends extends_finish_auth] by simp
qed

lemma extends_getOrCreateRoom: "getOrCreateRoom rid s = (rr, t) \<Longrightarrow> extends s t"
  using getOrCreateRoom_frame by (intro extends_frame)

lemma extends_join: "extends s (state_of (handle_join srv c m l s))"
proof (cases "me l")
  case None
  then show ?thesis by (simp add: handle_join_def same_tables_extends)
next
  case (Some r)
  obtain rr s1 where g: "getOrCreateRoom (m_RoomID m) s = (rr, s1)" by fastforce
  obtain his s3 where h: "load_history srv (m_RoomID m) 50 (Slice []) (addClient rr r s1) = (his, s3)"
    by fastforce
  have "extends s1 (addClient rr r s1)" by (rule extends_frame) (simp_all add: addClient_frame)
  then have "extends s s3"
    using extends_trans extends_getOrCreateRoom [OF g] same_tables_extends [OF same_tables_load_history [OF h]]
    by blast
  then show ?thesis
    using Some g h extends_trans extends_sendJSON by (fastforce simp: handle_join_def)
qed

lemma extends_leave: "extends s (state_of (handle_leave c m l s))"
proof (cases "me l")
  case None
  then show ?thesis by (simp add: handle_leave_def)
next
  case (Some r)
  have "extends s (leave_room r (m_RoomID m) s)" by (rule extends_frame) simp_all
  then show ?thesis
    unfolding handle_leave_eq [OF Some] by (rule extends_trans [OF _ extends_sendJSON])
qed

lemma extends_send: "extends s (state_of (handle_send srv c e m l s))"
proof (cases "me l")
  case None
  then show ?thesis by (simp add: handle_send_def same_tables_extends)
next
  case (Some r)
  obtain rr s1 where g: "getOrCreateRoom (m_RoomID m) s = (rr, s1)" by fastforce
  let ?res = "andThen (broadcast rr (e_ord e) (message_frame (c_UserID (clientH s r)) m e) s1)
      (\<lambda>s2. Returns (spawn_save srv (room_message (c_UserID (clientH s r)) m e) s2))"
  have "extends s1 (state_of ?res)" by (rule extends_andThen) (simp_all add: same_tables_extends)
  then show ?thesis
    using Some g extends_trans [OF extends_getOrCreateRoom [OF g]] by (simp add: handle_send_def Let_def)
qed

lemma same_tables_private: "same_tables s (state_of (handle_private srv c e m l s))"
proof (cases "me l")
  case None
  then show ?thesis by (simp add: handle_private_def)
next
  case (Some r)
  let ?uid = "c_UserID (clientH s r)"
  have "same_tables s (state_of (case getOnlineClient (m_To m) s of
      Some target \<Rightarrow> andThen (send_client target (private_frame ?uid m e) s)
        (\<lambda>s1. Returns (spawn_save srv (private_message ?uid m e True) s1))
    | None \<Rightarrow> Returns (spawn_save srv (private_message ?uid m e False) s)))"
    by (auto split: option.split intro: same_tables_andThen)
  from same_tables_andThen [OF this same_tables_sendJSON] show ?thesis
    using Some by (simp add: handle_private_def Let_def)
qed

lemma same_tables_history: "same_tables s (state_of (handle_history srv c m l s))"
proof (cases "me l")
  case None
  then show ?thesis by (simp add: handle_history_def)
next
  case (Some r)
  obtain his t where h: "load_history srv (m_RoomID m) (effective_limit (m_Limit m)) NilSlice s = (his, t)"
    by fastforce
  then show ?thesis
    using Some same_tables_trans [OF same_tables_load_history [OF h] same_tables_sendJSON]
    by (simp add: handle_history_def)
qed

lemma same_tables_ping: "same_tables s (state_of (handle_ping srv c e l s))"
  unfolding handle_ping_def Let_def
  by (intro same_tables_andThen)
    (auto split: option.split intro: same_tables_trans [OF same_tables_touch same_tables_log])

lemmas extends_handlers = extends_join extends_leave extends_send
  same_tables_extends [OF same_tables_private] same_tables_extends [OF same_tables_history]
  same_tables_extends [OF same_tables_ping] same_tables_extends [OF same_tables_send_error]

lemma extends_handle_frame: "extends s (fst (state_of (handle_frame srv c e data (s, l))))"
proof (cases "unmarshal_WSMsg data")
  case None
  then show ?thesis by (simp add: handle_frame_def extends_handlers)
next
  case (Some m)
  then show ?thesis
    by (simp add: handle_frame_def dispatch_def extends_handle_auth extends_handlers)
qed

section \<open>Every step keeps the invariant\<close>

lemma identity_extends:
  assumes "owns \<sigma> s c l" "extends s t"
  shows "identity t l = identity s l"
  using assms by (cases "me l") (auto simp: owns_def extends_def identity_def)

lemma owns_extends:
  assumes "owns \<sigma> s c l" "extends s t" "\<tau> c = \<sigma> c"
  shows "owns \<tau> t c l"
proof -
  have "identity t l = identity s l" by (rule identity_extends [OF assms(1,2)])
  then show ?thesis using assms by (auto simp: owns_def extends_def)
qed

lemma sys_invD:
  assumes "sys_inv s"
  shows "tables_ok (owner s) (gw s)" and "ph s c = Reading \<Longrightarrow> owns (owner s) (gw s) c (loc s c)"
    and "ph s c = Draining \<Longrightarrow> \<not> ch_closed (chanH (gw s) c)"
  using assms by (simp_all add: sys_inv_def)

lemma sys_inv_start: "sys_inv start"
  by (simp add: sys_inv_def start_def owner_def tables_ok_def rooms_wf_def empty_gw_def abs_rooms_def abs_members_def)

text \<open>A step that changes neither the tables nor any phase or local state.\<close>

lemma owner_same: "same_tables (gw s) (gw t) \<Longrightarrow> ph t = ph s \<Longrightarrow> loc t = loc s \<Longrightarrow> owner t = owner s"
  by (auto simp: owner_def identity_same fun_eq_iff)

lemma sys_inv_same:
  assumes "sys_inv s" "same_tables (gw s) (gw t)" "ph t = ph s" "loc t = loc s"
  shows "sys_inv t"
proof -
  show ?thesis
    using assms owner_same [OF assms(2-4)] same_tables_closed [OF assms(2)]
    by (simp add: sys_inv_def tables_ok_same owns_same)
qed

lemma same_tables_recv: "recv_chan c g = Some (b, g') \<Longrightarrow> same_tables g g'"
  by (auto simp: recv_chan_def same_tables_def split: list.splits if_splits)

lemma same_tables_disconnect: "same_tables g (disconnectUser uid g)"
  by (simp add: disconnectUser_def split: option.split)

text \<open>Who is authenticated after a step.\<close>

lemma owner_accept: "ph s c = Fresh \<Longrightarrow> owner (do_accept c s) = owner s"
  by (auto simp: owner_def do_accept_def init_local_def identity_def fun_eq_iff)

lemma owner_message:
  assumes "sys_inv s" "ph s c = Reading" "handle_frame srv c e data (gw s, loc s c) = Returns (g, l)"
  shows "owner (do_message c (g, l) s) = (owner s)(c := identity g l)"
proof
  fix d
  have "extends (gw s) g" using extends_handle_frame [of "gw s" srv c e data "loc s c"] assms(3) by simp
  from identity_extends [OF sys_invD(2) [OF assms(1)] this, of d]
  show "owner (do_message c (g, l) s) d = ((owner s)(c := identity g l)) d"
    using assms(2) by (auto simp: owner_def do_message_def)
qed

lemma owner_cleanup:
  assumes "sys_inv s" "extends (gw s) (cleanup srv e (loc s c) (gw s))"
  shows "owner (do_cleanup srv c e s) = (owner s)(c := None)"
proof
  fix d
  show "owner (do_cleanup srv c e s) d = ((owner s)(c := None)) d"
    using identity_extends [OF sys_invD(2) [OF assms(1)] assms(2), of d] by (auto simp: owner_def do_cleanup_def)
qed

lemma sys_inv_accept:
  assumes inv: "sys_inv s" and fresh: "ph s c = Fresh"
  shows "sys_inv (do_accept c s)"
proof -
  let ?t = "do_accept c s"
  let ?h = "(gw s)\<lparr>chanH := (chanH (gw s))(c := make_chan), wsClosed := (wsClosed (gw s))(c := False)\<rparr>"
  note own = owner_accept [OF fresh]
  have "abs_rooms ?h = abs_rooms (gw s)" "rooms_wf ?h = rooms_wf (gw s)"
    by (rule abs_rooms_cong rooms_wf_cong; simp)+
  moreover have "ref_ok \<sigma> ?h = ref_ok \<sigma> (gw s)" for \<sigma> by (rule ref_ok_cong) simp_all
  ultimately have "tables_ok (owner s) ?h"
    using sys_invD(1) [OF inv] by (simp add: tables_ok_def make_chan_def)
  moreover have "owns (owner s) ?h d (loc ?t d)" if "ph ?t d = Reading" for d
    using that fresh sys_invD(2) [OF inv, of d]
    by (cases "d = c") (auto simp: owns_def identity_def do_accept_def init_local_def make_chan_def owner_def)
  moreover have "\<not> ch_closed (chanH ?h d)" if "ph ?t d = Draining" for d
    using that sys_invD(3) [OF inv, of d] by (auto simp: do_accept_def split: if_splits)
  moreover have "gw ?t = ?h" by (simp add: do_accept_def)
  ultimately show ?thesis unfolding sys_inv_def own by simp
qed

lemma sys_inv_message:
  assumes inv: "sys_inv s" and ph: "ph s c = Reading"
    and res: "handle_frame srv c e data (gw s, loc s c) = Returns (g, l)"
    and ids: "keeps_ids s (do_message c (g, l) s)"
  shows "sys_inv (do_message c (g, l) s)"
proof -
  let ?t = "do_message c (g, l) s"
  note own = sys_invD(2) [OF inv]
  have ext: "extends (gw s) g" using extends_handle_frame [of "gw s" srv c e data "loc s c"] res by simp
  have "keeps_identity (gw s, loc s c) (g, l)"
    using ids ph by (auto simp: keeps_ids_def do_message_def)
  then have kept: "kept (owner s) c (g, l)"
    using handle_frame_kept [OF sys_invD(1) [OF inv] own [OF ph], of srv e data] res by simp
  note owner = owner_message [OF inv ph res]
  have "owns (owner ?t) g d (loc ?t d)" if "ph s d = Reading" for d
    using kept owns_extends [OF own [OF that] ext, of "owner ?t"] unfolding owner
    by (cases "d = c") (auto simp: kept_def do_message_def)
  moreover have "tables_ok (owner ?t) g" using kept unfolding owner by (simp add: kept_def)
  moreover have "\<not> ch_closed (chanH g d)" if "ph s d = Draining" for d
    using sys_invD(3) [OF inv that] ext by (simp add: extends_def)
  ultimately show ?thesis by (simp add: sys_inv_def do_message_def)
qed

lemma extends_cleanup: "extends g (cleanup srv e l g)"
proof (cases "me l")
  case None
  then show ?thesis by (simp add: cleanup_def)
next
  case (Some r)
  show ?thesis
    by (rule extends_trans [OF _ same_tables_extends [OF cleanup_same_tables [OF Some]]])
      (simp add: extends_def leave_rooms_frame)
qed

lemma sys_inv_cleanup:
  assumes inv: "sys_inv s" and ph: "ph s c = Reading" and ord: "range_order (rooms (gw s)) (e_ord e)"
  shows "sys_inv (do_cleanup srv c e s)"
proof -
  let ?t = "do_cleanup srv c e s" and ?g = "cleanup srv e (loc s c) (gw s)"
  note own = sys_invD(2) [OF inv]
  note ext = extends_cleanup [of "gw s" srv e "loc s c"]
  note owner = owner_cleanup [OF inv ext]
  have "tables_ok (owner ?t) ?g"
    unfolding owner by (rule cleanup_releases [OF sys_invD(1) [OF inv] own [OF ph] ord])
  moreover have "owns (owner ?t) ?g d (loc s d)" if "ph s d = Reading" "d \<noteq> c" for d
    using owns_extends [OF own [OF that(1)] ext, of "owner ?t"] that(2) unfolding owner by simp
  moreover have "\<not> ch_closed (chanH ?g d)" if "ph s d = Draining \<or> d = c" for d
    using that sys_invD(3) [OF inv, of d] owns_open [OF own [OF ph]] ext by (auto simp: extends_def)
  ultimately show ?thesis by (auto simp: sys_inv_def do_cleanup_def)
qed

lemma deferred_frame:
  "onlineUsers (deferred c g) = onlineUsers g" "clientH (deferred c g) = clientH g"
  "nextClient (deferred c g) = nextClient g" "rooms (deferred c g) = rooms g" "roomH (deferred c g) = roomH g"
  "nextRoom (deferred c g) = nextRoom g"
  "ch_closed (chanH (deferred c g) d) = (d = c \<or> ch_closed (chanH g d))"
  by (auto simp: deferred_def close_conn_def close_chan_def)

lemma owner_finish: "ph s c = Draining \<Longrightarrow> owner (do_end c (gw s) s) = owner s"
  by (auto simp: owner_def do_end_def identity_def deferred_frame fun_eq_iff)

lemma sys_inv_finish:
  assumes inv: "sys_inv s" and ph: "ph s c = Draining"
  shows "sys_inv (do_end c (gw s) s)"
proof -
  let ?t = "do_end c (gw s) s" and ?g = "deferred c (gw s)"
  note owner = owner_finish [OF ph]
  have "abs_rooms ?g = abs_rooms (gw s)" "rooms_wf ?g = rooms_wf (gw s)"
    by (rule abs_rooms_cong rooms_wf_cong; simp add: deferred_frame)+
  moreover have "ref_ok (owner s) ?g = ref_ok (owner s) (gw s)"
    by (rule ref_ok_cong) (simp_all add: deferred_frame)
  moreover have "owner s c = None" using ph by (simp add: owner_def)
  ultimately have "tables_ok (owner s) ?g"
    using sys_invD(1) [OF inv] by (auto simp: tables_ok_def deferred_frame)
  moreover have "owns (owner s) ?g d (loc s d)" if "ph s d = Reading" for d
    using sys_invD(2) [OF inv that] that ph by (auto simp: owns_def identity_def deferred_frame)
  moreover have "\<not> ch_closed (chanH ?g d)" if "ph s d = Draining" "d \<noteq> c" for d
    using sys_invD(3) [OF inv that(1)] that(2) by (simp add: deferred_frame)
  ultimately show ?thesis unfolding sys_inv_def owner by (auto simp: do_end_def)
qed

lemma sys_inv_step:
  assumes inv: "sys_inv s" and step: "id_step srv s t"
  shows "sys_inv t"
proof -
  have g: "gstep srv s t" and ids: "keeps_ids s t" using step by (simp_all add: id_step_def)
  from g show ?thesis
  proof cases
    case (accept c)
    then show ?thesis using sys_inv_accept [OF inv] by simp
  next
    case (message c e data gl)
    then show ?thesis using sys_inv_message [OF inv] ids by (cases gl) simp
  next
    case (message_panic c e data g l)
    then show ?thesis
      using handle_frame_returns [OF sys_invD(1) [OF inv] sys_invD(2) [OF inv], of c srv e data] by simp
  next
    case (read_error c e)
    then show ?thesis using sys_inv_cleanup [OF inv] by simp
  next
    case (finish c)
    then show ?thesis using sys_inv_finish [OF inv] by simp
  next
    case (conn_write c b g)
    then show ?thesis using same_tables_recv by (intro sys_inv_same [OF inv]) auto
  next
    case (conn_write_error c b g)
    then show ?thesis using same_tables_recv by (intro sys_inv_same [OF inv]) auto
  next
    case (writer_end c)
    then show ?thesis by (intro sys_inv_same [OF inv]) auto
  next
    case (save ms cm now)
    then show ?thesis by (intro sys_inv_same [OF inv]) auto
  next
    case (disconnect uid)
    then show ?thesis using same_tables_disconnect by (intro sys_inv_same [OF inv]) auto
  qed
qed

interpretation gateway: invariant_system start "id_step srv" sys_inv for srv :: GatewayServer
  by unfold_locales (auto intro: sys_inv_start sys_inv_step)

end
