(* ===== verification/Frames.thy ===== *)
theory Frames
  imports Wire
begin

text \<open>
  What can be read in the frames the gateway sends. Every payload it marshals is an object whose
  numbers are integers and which is nested a few levels deep, so the text of the frame parses again,
  whatever bytes its strings hold; its \<open>type\<close> is one of the types of the protocol.
\<close>

section \<open>Objects read back\<close>

lemma int_fields_all: "int_fields fs \<longleftrightarrow> (\<forall>(k, v) \<in> set fs. int_json v)"
  by (induction fs) auto

lemma depth_fields_le: "depth_fields fs \<le> n \<longleftrightarrow> (\<forall>(k, v) \<in> set fs. depth v \<le> n)"
  by (induction fs) auto

lemma clean_fields_valid:
  "(\<And>k v. (k, v) \<in> set fs \<Longrightarrow> valid_utf8 k) \<Longrightarrow> clean_fields fs = map (\<lambda>(k, v). (k, clean v)) fs"
proof (induction fs)
  case Nil
  then show ?case by simp
next
  case (Cons f fs)
  obtain k v where f: "f = (k, v)" by (cases f)
  have "valid_utf8 k" using Cons.prems f by auto
  moreover have "clean_fields fs = map (\<lambda>(k, v). (k, clean v)) fs" using Cons by auto
  ultimately show ?case using f by simp
qed

lemma map_of_sort_key: "distinct (map fst kvs) \<Longrightarrow> map_of (sort_key fst kvs) = map_of kvs"
  by (intro map_of_eqI) (auto simp: distinct_map distinct_insort)

lemma parse_json_map:
  assumes "\<And>k v. (k, v) \<in> set kvs \<Longrightarrow> valid_utf8 k \<and> int_json v \<and> depth v = 0" "distinct (map fst kvs)"
  shows "\<exists>fs. parse_json (marshal (json_map kvs)) = Some (JObj fs) \<and> map_of fs = map_option clean \<circ> map_of kvs"
proof -
  let ?fs = "sort_key fst kvs"
  have int: "int_json (json_map kvs)" using assms(1) by (auto simp: json_map_def int_fields_all)
  have "depth_fields ?fs \<le> 0" unfolding depth_fields_le using assms(1) by fastforce
  then have depth: "depth (json_map kvs) \<le> max_depth" by (simp add: json_map_def max_depth_def)
  have "clean_fields ?fs = map (\<lambda>(k, v). (k, clean v)) ?fs"
    by (rule clean_fields_valid) (use assms(1) in auto)
  then have "map_of (clean_fields ?fs) = map_option clean \<circ> map_of kvs"
    using map_of_sort_key [OF assms(2)] by (simp add: map_of_map)
  then show ?thesis using parse_json_marshal_clean [OF int depth] by (simp add: json_map_def)
qed

lemma depth_JInt [simp]: "depth (JInt i) = 0" "clean (JInt i) = JInt i" "int_json (JInt i)"
  by (auto simp: JInt_def)

lemma ascii_keys [simp]:
  "valid_utf8 ''type''" "valid_utf8 ''from''" "valid_utf8 ''room''" "valid_utf8 ''ts''" "valid_utf8 ''msg''" "valid_utf8 ''to''"
  "valid_utf8 ''message''" "valid_utf8 ''private''" "valid_utf8 ''data''" "valid_utf8 ''error''" "valid_utf8 ''authed''"
  "valid_utf8 ''joined''" "valid_utf8 ''left''" "valid_utf8 ''history''" "valid_utf8 ''ack''" "valid_utf8 ''pong''"
  by (rule valid_utf8_ascii, simp add: code_def)+

section \<open>The types of the protocol\<close>

definition frame_types :: "string list" where
  "frame_types = [''authed'', ''joined'', ''left'', ''message'', ''private'', ''history'', ''ack'', ''pong'', ''error'']"

definition typed_frame :: "bytes \<Rightarrow> bool" where
  "typed_frame b \<longleftrightarrow>
     (\<exists>fs t. parse_json b = Some (JObj fs) \<and> map_of fs ''type'' = Some (JStr t) \<and> t \<in> set frame_types)"

lemma typed_frameI:
  "parse_json b = Some (JObj fs) \<Longrightarrow> map_of fs ''type'' = Some (JStr t) \<Longrightarrow> t \<in> set frame_types \<Longrightarrow> typed_frame b"
  unfolding typed_frame_def by blast

lemma frame_types_valid: "t \<in> set frame_types \<Longrightarrow> valid_utf8 t"
  by (auto simp: frame_types_def)

lemma payload_typed:
  assumes "p_Type p \<in> set frame_types" "int_json (p_Data p)" "depth (p_Data p) < max_depth"
  shows "typed_frame (marshal (WSPayload_json p))"
proof (rule typed_frameI)
  have "int_json (WSPayload_json p)" "depth (WSPayload_json p) \<le> max_depth"
    using assms(2,3) by (simp_all add: WSPayload_json_def)
  moreover have "clean (WSPayload_json p) = JObj [(''type'', JStr (p_Type p)), (''data'', clean (p_Data p))]"
    using frame_types_valid [OF assms(1)] by (simp add: WSPayload_json_def)
  ultimately show "parse_json (marshal (WSPayload_json p)) = Some (JObj [(''type'', JStr (p_Type p)), (''data'', clean (p_Data p))])"
    by (simp only: parse_json_marshal_clean)
qed (use assms(1) in simp_all)

lemma json_map_typed:
  assumes "\<exists>fs. parse_json b = Some (JObj fs) \<and> map_of fs = map_option clean \<circ> map_of kvs"
    and "map_of kvs ''type'' = Some (JStr t)" "t \<in> set frame_types"
  shows "typed_frame b"
proof -
  obtain fs where "parse_json b = Some (JObj fs)" "map_of fs = map_option clean \<circ> map_of kvs"
    using assms(1) by blast
  then show ?thesis
    using assms(2,3) frame_types_valid [OF assms(3)] by (intro typed_frameI [of b fs t]) simp_all
qed

lemma message_read_back:
  "\<exists>fs. parse_json (marshal (message_json from room ts msg)) = Some (JObj fs) \<and> map_of fs = map_option clean \<circ>
     map_of [(''type'', JStr ''message''), (''from'', JStr from), (''room'', JStr room), (''ts'', JInt ts), (''msg'', JStr msg)]"
  unfolding message_json_def by (rule parse_json_map) auto

lemma private_read_back:
  "\<exists>fs. parse_json (marshal (private_json from to ts msg)) = Some (JObj fs) \<and> map_of fs = map_option clean \<circ>
     map_of [(''type'', JStr ''private''), (''from'', JStr from), (''to'', JStr to), (''ts'', JInt ts), (''msg'', JStr msg)]"
  unfolding private_json_def by (rule parse_json_map) auto

lemma live_typed [simp]:
  "typed_frame (marshal (message_json from room ts msg))" "typed_frame (marshal (private_json from to ts msg))"
proof -
  show "typed_frame (marshal (message_json from room ts msg))"
    by (rule json_map_typed [OF message_read_back, where t = "''message''"]) (simp_all add: frame_types_def)
  show "typed_frame (marshal (private_json from to ts msg))"
    by (rule json_map_typed [OF private_read_back, where t = "''private''"]) (simp_all add: frame_types_def)
qed

lemma ChatMessage_json_shape: "ChatMessage_json m = Some j \<Longrightarrow> int_json j \<and> depth j = 1"
  by (auto simp: ChatMessage_json_def)

lemma sequence_shape:
  "sequence_opt (map ChatMessage_json ms) = Some js \<Longrightarrow> int_elems js \<and> depth_elems js \<le> 1"
  by (induction ms arbitrary: js) (auto split: option.splits dest: ChatMessage_json_shape)

lemma history_shape: "history_json his = Some h \<Longrightarrow> int_json h \<and> depth h \<le> 2"
  by (cases his) (auto dest: sequence_shape)

lemma small_depth [simp]: "0 < max_depth" "Suc 0 < max_depth" "n \<le> 3 \<Longrightarrow> n < max_depth"
  by (simp_all add: max_depth_def)

lemma replies_typed [simp]:
  "typed_frame (marshal (error_payload msg))" "typed_frame (marshal (authed_payload uid))"
  "typed_frame (marshal (left_payload room))" "typed_frame (marshal (ack_payload to))"
  "typed_frame (marshal (pong_payload ms))"
  unfolding error_payload_def authed_payload_def left_payload_def ack_payload_def pong_payload_def
  by (rule payload_typed, simp_all add: frame_types_def json_map_def)+

lemma history_replies_typed:
  "history_payload his = Some j \<Longrightarrow> typed_frame (marshal j)"
  "joined_payload room his = Some j \<Longrightarrow> typed_frame (marshal j)"
proof -
  assume "history_payload his = Some j"
  then show "typed_frame (marshal j)"
    by (auto simp: history_payload_def frame_types_def dest!: history_shape intro!: payload_typed)
next
  assume "joined_payload room his = Some j"
  then show "typed_frame (marshal j)"
    by (auto simp: joined_payload_def frame_types_def json_map_def dest!: history_shape intro!: payload_typed)
qed

end
