(* ===== verification/HandlerFrame.thy ===== *)
theory HandlerFrame
  imports WsSafety Frames
begin

text \<open>
  What no handler can do: a relation between states that every primitive effect of a handler
  respects holds between the states before and after any message. The effects are sends of frames of
  the protocol, appended calls, changes of the tables and closed sockets (\<open>effect_relation\<close>), the
  presence keys (\<open>presence_relation\<close>), the spawned saves of \<open>send\<close> and \<open>private\<close> messages
  (\<open>handler_relation\<close>) and the calls of the auth service (\<open>auth_relation\<close>); \<open>any_call_relation\<close> has
  them all. Three instances are given here: a
  channel only grows at its end and within its capacity, by frames of the protocol, and \<open>Validate\<close> is
  called by \<open>auth\<close> messages only.
\<close>

section \<open>The interface\<close>

text \<open>
  The calls that are neither one of \<open>Validate\<close> nor a change of a presence key in Redis; no handler
  inserts a message itself.
\<close>

definition plain_call :: "call \<Rightarrow> bool" where
  "plain_call k \<longleftrightarrow>
     (case k of CallValidate tok \<Rightarrow> False | CallMongoInsert cm \<Rightarrow> False | CallRedisDel key \<Rightarrow> False
      | CallRedisSet key v ttl \<Rightarrow> key \<notin> range online_key | _ \<Rightarrow> True)"

lemma last_seen_not_online: "last_seen_key u \<noteq> online_key v"
proof
  assume "last_seen_key u = online_key v"
  then have "last (last_seen_key u) = last (online_key v)" by simp
  then show False by (simp add: last_seen_key_def online_key_def)
qed

lemma plain_calls [simp]:
  "plain_call (CallRedisSet (last_seen_key u) v ttl)" "plain_call (CallMongoFind f opts)" "plain_call (CallMongoUpdate f)"
  "plain_call (CallSelectRole u)"
  by (auto simp: plain_call_def last_seen_not_online)

lemma plain_callD: "plain_call k \<Longrightarrow> k \<noteq> CallValidate tok" "plain_call k \<Longrightarrow> k \<noteq> CallMongoInsert cm"
  by (auto simp: plain_call_def)

text \<open>Every effect of a handler but a spawned save and the other calls.\<close>

locale effect_relation =
  fixes R :: "gw_state \<Rightarrow> gw_state \<Rightarrow> bool"
  assumes refl: "R s s"
    and trans: "R s t \<Longrightarrow> R t u \<Longrightarrow> R s u"
    and send: "typed_frame b \<Longrightarrow> R s (state_of (send_nb c b s))"
    and call: "plain_call k \<Longrightarrow> R s (s\<lparr>gw_trace := gw_trace s @ [k]\<rparr>)"
    and tables: "R s (s\<lparr>onlineUsers := ou, clientH := ch, nextClient := nc, rooms := rs, roomH := rh, nextRoom := nr\<rparr>)"
    and closing: "R s (s\<lparr>wsClosed := cl\<rparr>)"
begin

lemma onlineUsers_only: "R s (s\<lparr>onlineUsers := ou\<rparr>)"
  using tables [where s = s and ou = ou and ch = "clientH s" and nc = "nextClient s" and rs = "rooms s" and rh = "roomH s" and nr = "nextRoom s"] by simp

lemma clients_only: "R s (s\<lparr>clientH := ch, nextClient := nc\<rparr>)"
  using tables [where s = s and ou = "onlineUsers s" and ch = ch and nc = nc and rs = "rooms s" and rh = "roomH s" and nr = "nextRoom s"] by simp

lemma heartbeat_only: "R s (s\<lparr>clientH := ch\<rparr>)"
  using clients_only [where s = s and ch = ch and nc = "nextClient s"] by simp

lemma rooms_only: "R s (s\<lparr>rooms := rs, roomH := rh, nextRoom := nr\<rparr>)"
  using tables [where s = s and ou = "onlineUsers s" and ch = "clientH s" and nc = "nextClient s" and rs = rs and rh = rh and nr = nr] by simp

lemma room_table_only: "R s (s\<lparr>rooms := rs\<rparr>)"
  using rooms_only [where s = s and rs = rs and rh = "roomH s" and nr = "nextRoom s"] by simp

lemma room_objects_only: "R s (s\<lparr>roomH := rh\<rparr>)"
  using rooms_only [where s = s and rs = "rooms s" and rh = rh and nr = "nextRoom s"] by simp

lemma log: "plain_call k \<Longrightarrow> R s (log_call k s)"
  by (simp add: log_call_def call)

lemma bind:
  "R s (state_of r) \<Longrightarrow> (\<And>t. r = Returns t \<Longrightarrow> R t (state_of (f t))) \<Longrightarrow> R s (state_of (andThen r f))"
  by (cases r) (auto intro: trans)

lemma loop: "(\<And>x t. R t (state_of (body x t))) \<Longrightarrow> R s (state_of (for_each body xs s))"
  using for_each_inv [where P = "R s" and body = body and xs = xs and s = s] refl trans by blast

lemma send_json: "(\<And>j. v = Some j \<Longrightarrow> typed_frame (marshal j)) \<Longrightarrow> R s (state_of (sendJSON c v s))"
  by (simp add: sendJSON_def refl send split: option.split)

lemma send_payload: "typed_frame (marshal j) \<Longrightarrow> R s (state_of (sendJSON c (Some j) s))"
  by (rule send_json) auto

lemma error: "R s (state_of (send_error c msg s))"
  by (simp add: send_error_def send_payload)

lemma to_client: "typed_frame b \<Longrightarrow> R s (state_of (send_client r b s))"
  by (simp add: send_client_def send)

lemma to_room: "typed_frame b \<Longrightarrow> R s (state_of (broadcast rr ord b s))"
  unfolding broadcast_def
  by (rule loop) (simp add: broadcast_to_def refl send split: option.split)

lemma room_opened: "getOrCreateRoom rid s = (rr, t) \<Longrightarrow> R s t"
  by (auto simp: getOrCreateRoom_def createRoom_def refl rooms_only split: option.splits)

lemma room_joined: "R s (addClient rr r s)"
  by (simp add: addClient_def room_objects_only)

lemma room_left: "R s (leave_room r rid s)"
proof -
  obtain rr t where g: "getOrCreateRoom rid s = (rr, t)" by fastforce
  have "R t (removeClient rr r t)" by (simp add: removeClient_def room_objects_only)
  moreover have "R (removeClient rr r t) (removeEmptyRoom rid (removeClient rr r t))"
    by (simp add: removeEmptyRoom_def refl room_table_only split: option.split)
  ultimately show ?thesis using trans [OF room_opened [OF g] trans] g by (simp add: leave_room_def)
qed

text \<open>The store operations append plain calls.\<close>

lemma found: "R s (s\<lparr>gw_trace := gw_trace s @ [CallMongoFind f opts]\<rparr>)"
  by (rule call) simp_all

lemma found_marked: "R s (s\<lparr>gw_trace := gw_trace s @ [CallMongoFind f opts, CallMongoUpdate f']\<rparr>)"
  using trans [OF found call [of "CallMongoUpdate f'" "s\<lparr>gw_trace := gw_trace s @ [CallMongoFind f opts]\<rparr>"]]
  by simp

lemma pulled: "PullUndeliveredForUser ms u (gw_trace s) = (res, h) \<Longrightarrow> R s (s\<lparr>gw_trace := h\<rparr>)"
  by (auto simp: PullUndeliveredForUser_def Let_def found found_marked split: sum.splits option.splits if_splits)

lemma queried: "QueryHistory ms room n (gw_trace s) = (res, h) \<Longrightarrow> R s (s\<lparr>gw_trace := h\<rparr>)"
  by (auto simp: QueryHistory_def Let_def found split: sum.splits option.splits)

lemma history_loaded: "load_history srv room n d s = (his, t) \<Longrightarrow> R s t"
  by (auto simp: load_history_def refl intro: queried split: option.splits prod.splits sum.splits)

lemma pushed: "R s (state_of (pushUndelivered srv uid s))"
proof (cases "gs_Mongo srv")
  case None
  then show ?thesis by (simp add: pushUndelivered_def refl)
next
  case (Some ms)
  obtain res h where p: "PullUndeliveredForUser ms uid (gw_trace s) = (res, h)" by fastforce
  let ?s1 = "s\<lparr>gw_trace := h\<rparr>"
  have loops: "R ?s1 (state_of (for_each (\<lambda>m. send_client r (undelivered_frame uid m)) msgs ?s1))" for r msgs
    by (rule loop) (simp add: to_client undelivered_frame_def)
  show ?thesis
    using Some p trans [OF pulled [OF p]] loops refl pulled [OF p]
    by (cases res) (simp_all add: pushUndelivered_def Let_def split: option.split)
qed

lemma registered: "new_client uid c s = (r, t) \<Longrightarrow> R s (registerOnline uid r t)"
  by (auto simp: new_client_def registerOnline_def intro: trans [OF clients_only onlineUsers_only])

lemma refused: "R s (state_of (refuse c hangup msg s))"
  unfolding refuse_def by (rule bind [OF error]) (auto simp: refl close_conn_def closing)

lemma ban_checked: "R s (log_ban_check srv uid s)"
  by (auto simp: log_ban_check_def refl split: option.split intro!: log)

lemma joined: "R s (state_of (handle_join srv c m l s))"
proof (cases "me l")
  case None
  then show ?thesis by (simp add: handle_join_def error)
next
  case (Some r)
  obtain rr s1 where g: "getOrCreateRoom (m_RoomID m) s = (rr, s1)" by fastforce
  obtain his s3 where h: "load_history srv (m_RoomID m) 50 (Slice []) (addClient rr r s1) = (his, s3)"
    by fastforce
  have "R s s3" using trans [OF trans [OF room_opened [OF g] room_joined] history_loaded [OF h]] .
  then show ?thesis
    using Some g h trans [OF _ send_json] history_replies_typed(2) by (simp add: handle_join_def)
qed

lemma departed: "R s (state_of (handle_leave c m l s))"
proof (cases "me l")
  case None
  then show ?thesis by (simp add: handle_leave_def refl)
next
  case (Some r)
  show ?thesis unfolding handle_leave_eq [OF Some] by (rule trans [OF room_left send_payload]) simp
qed

lemma history_sent: "R s (state_of (handle_history srv c m l s))"
proof (cases "me l")
  case None
  then show ?thesis by (simp add: handle_history_def error)
next
  case (Some r)
  obtain his t where h: "load_history srv (m_RoomID m) (effective_limit (m_Limit m)) NilSlice s = (his, t)"
    by fastforce
  then show ?thesis
    using Some trans [OF history_loaded [OF h] send_json] history_replies_typed(1) by (simp add: handle_history_def)
qed

lemma ponged: "R s (state_of (handle_ping srv c e l s))"
  unfolding handle_ping_def
  by (rule bind [OF send_payload], simp)
    (auto simp: Let_def refl touch_def heartbeat_only intro!: trans [OF heartbeat_only log] split: option.split)

end

text \<open>With the presence keys.\<close>

locale presence_relation = effect_relation +
  assumes presence_set: "R s (s\<lparr>gw_trace := gw_trace s @ [CallRedisSet (online_key u) v ttl]\<rparr>)"
    and presence_del: "R s (s\<lparr>gw_trace := gw_trace s @ [CallRedisDel key]\<rparr>)"
begin

lemma redis_set: "R s (redis_set_online srv uid ttl now s)"
proof -
  have "R s (log_call (CallRedisSet (online_key uid) ''1'' ttl) s)" by (simp add: log_call_def presence_set)
  then show ?thesis by (simp add: redis_set_online_def refl trans [OF _ log] split: option.split)
qed

lemma authenticated: "R s (fst (state_of (finish_auth srv c e uid ttl (s, l))))"
proof -
  obtain r t where new: "new_client uid c s = (r, t)" by fastforce
  have "R (registerOnline uid r t)
      (state_of (andThen (pushUndelivered srv uid (registerOnline uid r t))
         (\<lambda>s3. sendJSON c (Some (authed_payload uid)) (redis_set_online srv uid ttl (UnixMilli (e_clk e 0)) s3))))"
    by (rule bind [OF pushed]) (simp add: trans [OF redis_set send_payload])
  then show ?thesis
    using new trans [OF registered [OF new]] by (simp add: finish_auth_def Let_def)
qed

end

text \<open>With the messages of \<open>send\<close> and \<open>private\<close> that are to be stored.\<close>

locale handler_relation = effect_relation +
  assumes saving: "R s (s\<lparr>saves := sv\<rparr>)"
begin

lemma spawned: "R s (spawn_save srv cm s)"
  by (simp add: spawn_save_def refl saving split: option.split)

lemma sent: "R s (state_of (handle_send srv c e m l s))"
proof (cases "me l")
  case None
  then show ?thesis by (simp add: handle_send_def error)
next
  case (Some r)
  obtain rr s1 where g: "getOrCreateRoom (m_RoomID m) s = (rr, s1)" by fastforce
  let ?uid = "c_UserID (clientH s r)"
  have "R s1 (state_of (andThen (broadcast rr (e_ord e) (message_frame ?uid m e) s1)
      (\<lambda>s2. Returns (spawn_save srv (room_message ?uid m e) s2))))"
    by (rule bind [OF to_room]) (simp_all add: spawned message_frame_def)
  then show ?thesis using Some g trans [OF room_opened [OF g]] by (simp add: handle_send_def Let_def)
qed

lemma private_sent: "R s (state_of (handle_private srv c e m l s))"
proof (cases "me l")
  case None
  then show ?thesis by (simp add: handle_private_def error)
next
  case (Some r)
  let ?uid = "c_UserID (clientH s r)"
  have "R s (state_of (andThen (send_client r' (private_frame ?uid m e) s) (\<lambda>s1. Returns (spawn_save srv cm s1))))" for r' cm
    by (rule bind [OF to_client]) (simp_all add: spawned private_frame_def)
  then have "R s (state_of (case getOnlineClient (m_To m) s of
      Some target \<Rightarrow> andThen (send_client target (private_frame ?uid m e) s)
        (\<lambda>s1. Returns (spawn_save srv (private_message ?uid m e True) s1))
    | None \<Rightarrow> Returns (spawn_save srv (private_message ?uid m e False) s)))"
    by (auto intro: spawned split: option.split)
  from bind [OF this send_payload] show ?thesis
    using Some by (simp add: handle_private_def Let_def)
qed

lemma dispatched:
  "m_Type m \<noteq> ''auth'' \<Longrightarrow> R s (fst (state_of (dispatch srv c e m (s, l))))"
  by (simp add: dispatch_def joined departed sent private_sent history_sent ponged error)

lemma not_auth:
  assumes "\<And>m. unmarshal_WSMsg data = Some m \<Longrightarrow> m_Type m \<noteq> ''auth''"
  shows "R s (fst (state_of (handle_frame srv c e data (s, l))))"
  using assms by (simp add: handle_frame_def error dispatched split: option.split)

end

text \<open>With the calls of the auth service.\<close>

locale auth_relation = presence_relation +
  assumes validating: "R s (s\<lparr>gw_trace := gw_trace s @ [CallValidate tok]\<rparr>)"
begin

lemma auth_handled: "R s (fst (state_of (handle_auth srv c e m (s, l))))"
proof -
  have v: "R s (log_call (CallValidate tok) s)" for tok by (simp add: log_call_def validating)
  have vb: "R s (log_ban_check srv uid (log_call (CallValidate tok) s))" for uid tok
    by (rule trans [OF v ban_checked])
  show ?thesis
    unfolding handle_auth_def Let_def
    by (auto simp: refused authenticated intro: trans [OF v refused] trans [OF vb refused] trans [OF vb authenticated]
        split: option.split sum.split)
qed

end

locale any_call_relation = handler_relation + auth_relation
begin

lemma handled: "R s (fst (state_of (handle_frame srv c e data (s, l))))"
  by (simp add: handle_frame_def error split: option.split)
    (auto simp: dispatch_def joined departed sent private_sent history_sent ponged error auth_handled)

end

section \<open>A channel only grows at its end\<close>

definition grows :: "gw_state \<Rightarrow> gw_state \<Rightarrow> bool" where
  "grows s t \<longleftrightarrow> (\<forall>c. \<exists>bs. ch_buf (chanH t c) = ch_buf (chanH s c) @ bs
      \<and> (bs = [] \<or> length (ch_buf (chanH t c)) \<le> sendCap))"

lemma grows_trans: "grows s t \<Longrightarrow> grows t u \<Longrightarrow> grows s u"
  unfolding grows_def by (metis append.assoc append_is_Nil_conv append_Nil2)

lemma grows_send: "grows s (state_of (send_nb c b s))"
proof (cases rule: send_nb_cases [of s c b])
  case closed
  then show ?thesis by (simp add: grows_def)
next
  case room
  then show ?thesis by (simp add: grows_def)
next
  case full
  then show ?thesis by (simp add: grows_def)
qed

interpretation growth: any_call_relation grows
  by unfold_locales (auto intro: grows_trans grows_send, auto simp: grows_def)

section \<open>Every queued frame is one of the protocol\<close>

definition frames_typed :: "gw_state \<Rightarrow> bool" where
  "frames_typed s \<longleftrightarrow> (\<forall>c. \<forall>b \<in> set (ch_buf (chanH s c)). typed_frame b)"

definition keeps_typed :: "gw_state \<Rightarrow> gw_state \<Rightarrow> bool" where
  "keeps_typed s t \<longleftrightarrow> (frames_typed s \<longrightarrow> frames_typed t)"

lemma keeps_typed_send: "typed_frame b \<Longrightarrow> keeps_typed s (state_of (send_nb c b s))"
  by (cases rule: send_nb_cases [of s c b]) (auto simp: keeps_typed_def frames_typed_def)

interpretation typing: any_call_relation keeps_typed
  by unfold_locales (simp_all add: keeps_typed_send, simp_all add: keeps_typed_def frames_typed_def)

section \<open>Which messages call the auth service\<close>

definition validations :: "trace \<Rightarrow> nat" where
  "validations h = length (filter (\<lambda>k. \<exists>tok. k = CallValidate tok) h)"

text \<open>The trace grows, by no call of \<open>Validate\<close>.\<close>

definition quiet :: "gw_state \<Rightarrow> gw_state \<Rightarrow> bool" where
  "quiet s t \<longleftrightarrow> (\<exists>h. gw_trace t = gw_trace s @ h \<and> validations h = 0)"

lemma validations_append [simp]: "validations (h @ h') = validations h + validations h'"
  by (simp add: validations_def)

lemma quiet_same: "gw_trace t = gw_trace s \<Longrightarrow> quiet s t"
  by (simp add: quiet_def validations_def)

lemma quiet_trans: "quiet s t \<Longrightarrow> quiet t u \<Longrightarrow> quiet s u"
  by (auto simp: quiet_def)

lemma quiet_send: "quiet s (state_of (send_nb c b s))"
  by (cases rule: send_nb_cases [of s c b]) (simp_all add: quiet_same)

lemma quiet_call: "(\<And>tok. k \<noteq> CallValidate tok) \<Longrightarrow> quiet s (s\<lparr>gw_trace := gw_trace s @ [k]\<rparr>)"
  by (auto simp: quiet_def validations_def)

interpretation quietly: presence_relation quiet
  by unfold_locales (auto intro: quiet_same quiet_trans quiet_send quiet_call dest: plain_callD)

interpretation quietly: handler_relation quiet
  by unfold_locales (auto intro: quiet_same)

end
