(* ===== verification/SystemProperties.thy ===== *)
theory SystemProperties
  imports Gateway HandlerFrame
begin

text \<open>
  Properties of the running gateway: what holds in every reachable state, what a connection that
  changes its user ID breaks, and what a second connection of the same user loses.
\<close>

section \<open>A gateway without services, and two messages\<close>

definition dev_srv :: GatewayServer where
  "dev_srv = \<lparr>gs_AuthClient = None, gs_Mongo = None, gs_Redis = None, gs_DB = None\<rparr>"

definition env0 :: ws_env where
  "env0 = \<lparr>e_clk = (\<lambda>_. 0), e_rnd = 0, e_ord = []\<rparr>"

definition auth_msg :: "string \<Rightarrow> WSMsg" where
  "auth_msg tok = zero_WSMsg\<lparr>m_Type := ''auth'', m_Token := tok\<rparr>"

definition private_msg :: "string \<Rightarrow> string \<Rightarrow> WSMsg" where
  "private_msg to txt = zero_WSMsg\<lparr>m_Type := ''private'', m_To := to, m_Content := txt\<rparr>"

definition frame :: "WSMsg \<Rightarrow> bytes" where
  "frame m = marshal (WSMsg_json m)"

lemma ascii_words [simp]: "valid_utf8 ''auth''" "valid_utf8 ''private''" "valid_utf8 ''a''" "valid_utf8 ''b''" "valid_utf8 ''c''"
  by (rule valid_utf8_ascii, simp add: code_def)+

lemma unmarshal_auth: "valid_utf8 tok \<Longrightarrow> unmarshal_WSMsg (frame (auth_msg tok)) = Some (auth_msg tok)"
  unfolding frame_def by (rule unmarshal_marshal_WSMsg) (simp_all add: auth_msg_def zero_WSMsg_def utf8_WSMsg_def)

lemma unmarshal_private:
  "valid_utf8 to \<Longrightarrow> valid_utf8 txt \<Longrightarrow> unmarshal_WSMsg (frame (private_msg to txt)) = Some (private_msg to txt)"
  unfolding frame_def by (rule unmarshal_marshal_WSMsg) (simp_all add: private_msg_def zero_WSMsg_def utf8_WSMsg_def)

text \<open>A login of the development mode, on a channel with room.\<close>

definition dev_login :: "string \<Rightarrow> nat \<Rightarrow> gw_state \<Rightarrow> gw_state" where
  "dev_login u c g =
     g\<lparr>chanH := (chanH g)(c := (chanH g c)\<lparr>ch_buf := ch_buf (chanH g c) @ [marshal (authed_payload u)]\<rparr>),
       clientH := (clientH g)(nextClient g := \<lparr>c_UserID = u, c_Conn = c, c_Send = c, c_lastSeen = 0\<rparr>),
       nextClient := Suc (nextClient g), onlineUsers := (onlineUsers g)(u \<mapsto> nextClient g)\<rparr>"

lemma dev_auth:
  assumes "u \<noteq> []" "valid_utf8 u" "\<not> ch_closed (chanH g c)" "length (ch_buf (chanH g c)) < sendCap"
  shows "handle_frame dev_srv c e (frame (auth_msg u)) (g, l) = Returns (dev_login u c g, l\<lparr>me := Some (nextClient g)\<rparr>)"
  unfolding handle_frame_def unmarshal_auth [OF assms(2)]
  using assms
  by (simp add: dispatch_def handle_auth_def dev_srv_def Let_def
      finish_auth_def new_client_def pushUndelivered_def redis_set_online_def sendJSON_def send_nb_def
      registerOnline_def dev_login_def auth_msg_def)

lemma step_auth:
  assumes "ph s c = Reading" "u \<noteq> []" "valid_utf8 u"
    "\<not> ch_closed (chanH (gw s) c)" "length (ch_buf (chanH (gw s) c)) < sendCap"
  shows "gstep dev_srv s (do_message c (dev_login u c (gw s), (loc s c)\<lparr>me := Some (nextClient (gw s))\<rparr>) s)"
proof (rule gstep.message [where e = env0 and data = "frame (auth_msg u)"])
  show "order_ok env0 (frame (auth_msg u)) (gw s)"
    using unmarshal_auth [OF assms(3)] by (simp add: order_ok_def) (simp add: auth_msg_def)
qed (use assms dev_auth in \<open>simp_all add: env0_def\<close>)

section \<open>Reachable states\<close>

text \<open>
  In every state the gateway can reach while no connection changes its user ID, any frame read
  by any connection is handled without a panic: no send hits a closed channel, whatever the
  services answer.
\<close>

theorem no_reachable_panic:
  assumes "rtranclp (id_step srv) start s" "ph s c = Reading"
  shows "returns (handle_frame srv c e data (gw s, loc s c))"
  using gateway.inv_reachable [OF assms(1)] sys_invD assms(2) handle_frame_returns by blast

definition accepted0 :: sys where
  "accepted0 = do_accept 0 start"

definition logged0 :: sys where
  "logged0 = do_message 0 (dev_login ''a'' 0 (gw accepted0), (loc accepted0 0)\<lparr>me := Some (nextClient (gw accepted0))\<rparr>) accepted0"

lemmas run_defs = accepted0_def logged0_def do_accept_def do_message_def start_def empty_gw_def
  init_local_def make_chan_def dev_login_def sendCap_def

lemma id_stepI:
  assumes "gstep srv s t" "\<And>c. ph s c = Reading \<Longrightarrow> ph t c = Reading \<Longrightarrow> keeps_identity (gw s, loc s c) (gw t, loc t c)"
  shows "id_step srv s t"
  using assms by (simp add: id_step_def keeps_ids_def)

lemma accepted0_step: "id_step srv start accepted0"
  unfolding accepted0_def
  by (rule id_stepI [OF gstep.accept]) (simp_all add: run_defs)

lemma logged0_step: "id_step dev_srv accepted0 logged0"
  unfolding logged0_def
proof (rule id_stepI [OF step_auth])
  show "keeps_identity (gw accepted0, loc accepted0 c)
     (gw (do_message 0 (dev_login ''a'' 0 (gw accepted0), (loc accepted0 0)\<lparr>me := Some (nextClient (gw accepted0))\<rparr>) accepted0),
      loc (do_message 0 (dev_login ''a'' 0 (gw accepted0), (loc accepted0 0)\<lparr>me := Some (nextClient (gw accepted0))\<rparr>) accepted0) c)"
    for c by (simp add: keeps_identity_def identity_def run_defs)
qed (simp_all add: run_defs)

lemma logged0_reachable: "rtranclp (id_step dev_srv) start logged0"
  using accepted0_step logged0_step by (meson rtranclp.rtrancl_into_rtrancl rtranclp.rtrancl_refl)

theorem no_reachable_panic_witness:
  "returns (handle_frame dev_srv 0 env0 (frame (private_msg ''a'' ''b'')) (gw logged0, loc logged0 0))"
  by (rule no_reachable_panic [OF logged0_reachable]) (simp add: run_defs)

lemma entries_live:
  assumes "sys_inv s" "onlineUsers (gw s) u = Some r \<or> abs_members (abs_rooms (gw s)) rid u = Some r"
  shows "ph s (c_Send (clientH (gw s) r)) = Reading
       \<and> identity (gw s) (loc s (c_Send (clientH (gw s) r))) = Some u
       \<and> \<not> ch_closed (chanH (gw s) (c_Send (clientH (gw s) r)))"
proof -
  note ok = sys_invD(1) [OF assms(1)]
  have "ref_ok (owner s) (gw s) u r" using assms(2) tables_okD(2,3) [OF ok] by blast
  then show ?thesis
    using ref_ok_open [OF ok] by (auto simp: ref_ok_def owner_def split: if_splits)
qed

text \<open>
  In every such state the online table and the rooms only hold live entries: the client object
  under a user ID, online or in a room, sends to a connection that is still in its read loop, is
  authenticated as exactly that user, and has an open channel.
\<close>

theorem reachable_entries_live:
  assumes "rtranclp (id_step srv) start s"
    and "onlineUsers (gw s) u = Some r \<or> abs_members (abs_rooms (gw s)) rid u = Some r"
  shows "ph s (c_Send (clientH (gw s) r)) = Reading
       \<and> identity (gw s) (loc s (c_Send (clientH (gw s) r))) = Some u
       \<and> \<not> ch_closed (chanH (gw s) (c_Send (clientH (gw s) r)))"
  using gateway.inv_reachable [OF assms(1)] assms(2) by (rule entries_live)

theorem reachable_entries_live_witness:
  "ph logged0 (c_Send (clientH (gw logged0) 0)) = Reading
   \<and> identity (gw logged0) (loc logged0 (c_Send (clientH (gw logged0) 0))) = Some ''a''
   \<and> \<not> ch_closed (chanH (gw logged0) (c_Send (clientH (gw logged0) 0)))"
  by (rule reachable_entries_live [OF logged0_reachable, where rid = "[]"]) (simp add: run_defs)

section \<open>A connection that authenticates again\<close>

definition auth_step :: "nat \<Rightarrow> string \<Rightarrow> sys \<Rightarrow> sys" where
  "auth_step c u s = do_message c (dev_login u c (gw s), (loc s c)\<lparr>me := Some (nextClient (gw s))\<rparr>) s"

text \<open>Connection 0 logs in as \<open>a\<close>, then as \<open>b\<close>, and goes away; connection 1 logs in as \<open>c\<close>.\<close>

definition stale_run :: sys where
  "stale_run =
     auth_step 1 ''c'' (do_accept 1
       (let s = do_cleanup dev_srv 0 env0 (auth_step 0 ''b'' (auth_step 0 ''a'' (do_accept 0 start)))
        in do_end 0 (gw s) s))"

lemmas stale_defs = auth_step_def do_cleanup_def do_end_def deferred_def close_chan_def close_conn_def
  cleanup_def dev_srv_def env0_def unregisterOnline_def run_defs

lemma stale_run_reachable: "rtranclp (gstep dev_srv) start stale_run"
proof -
  let ?s1 = "do_accept 0 start"
  let ?s2 = "auth_step 0 ''a'' ?s1"
  let ?s3 = "auth_step 0 ''b'' ?s2"
  let ?s4 = "do_cleanup dev_srv 0 env0 ?s3"
  let ?s5 = "do_end 0 (gw ?s4) ?s4"
  let ?s6 = "do_accept 1 ?s5"
  have "gstep dev_srv start ?s1" by (rule gstep.accept) (simp add: stale_defs)
  moreover have "gstep dev_srv ?s1 ?s2"
    unfolding auth_step_def by (rule step_auth) (simp_all add: stale_defs)
  moreover have "gstep dev_srv ?s2 ?s3"
    unfolding auth_step_def [of 0 "''b''"] by (rule step_auth) (simp_all add: stale_defs)
  moreover have "gstep dev_srv ?s3 ?s4" by (rule gstep.read_error) (simp_all add: stale_defs)
  moreover have "gstep dev_srv ?s4 ?s5" by (rule gstep.finish) (simp add: stale_defs)
  moreover have "gstep dev_srv ?s5 ?s6" by (rule gstep.accept) (simp add: stale_defs)
  moreover have "gstep dev_srv ?s6 stale_run"
    unfolding stale_run_def Let_def auth_step_def [of 1] by (rule step_auth) (simp_all add: stale_defs)
  ultimately show ?thesis
    by (meson rtranclp.rtrancl_into_rtrancl rtranclp.rtrancl_refl)
qed

text \<open>What a private message to a stale client does: the send hits the closed channel.\<close>

lemma private_to_closed:
  assumes "me l = Some r" "getOnlineClient to g = Some target" "ch_closed (chanH g (c_Send (clientH g target)))"
    "valid_utf8 to" "valid_utf8 txt"
  shows "handle_frame srv c e (frame (private_msg to txt)) (g, l) = Panics (g, l)"
  unfolding handle_frame_def unmarshal_private [OF assms(4,5)]
  using assms(1-3) by (simp add: dispatch_def handle_private_def private_msg_def send_client_def send_nb_def Let_def)

text \<open>
  C6: without that restriction the gateway can crash. A connection that authenticates under a
  second user ID leaves its first client object in the online table; when it goes away only the
  second entry is removed and the channel is closed, so a later private message to the first user
  ID, from any authenticated connection, panics with a send on a closed channel.
\<close>

theorem reauth_reaches_panic:
  "\<exists>s c. rtranclp (gstep dev_srv) start s \<and> ph s c = Reading \<and> \<not> wsClosed (gw s) c
     \<and> \<not> returns (handle_frame dev_srv c env0 (frame (private_msg ''a'' ''b'')) (gw s, loc s c))"
proof (intro exI conjI)
  show "rtranclp (gstep dev_srv) start stale_run" by (rule stale_run_reachable)
  show "ph stale_run 1 = Reading" "\<not> wsClosed (gw stale_run) 1"
    by (simp_all add: stale_run_def stale_defs Let_def)
  have "handle_frame dev_srv 1 env0 (frame (private_msg ''a'' ''b'')) (gw stale_run, loc stale_run 1)
      = Panics (gw stale_run, loc stale_run 1)"
    by (rule private_to_closed [where target = 0])
      (simp_all add: stale_run_def stale_defs Let_def getOnlineClient_def)
  then show "\<not> returns (handle_frame dev_srv 1 env0 (frame (private_msg ''a'' ''b'')) (gw stale_run, loc stale_run 1))"
    by simp
qed

section \<open>Two connections of one user\<close>

lemma do_cleanup_simps [simp]:
  "gw (do_cleanup srv c e s) = cleanup srv e (loc s c) (gw s)"
  "ph (do_cleanup srv c e s) = (ph s)(c := Draining)" "loc (do_cleanup srv c e s) = loc s"
  by (simp_all add: do_cleanup_def)

text \<open>
  C30: a user with two live connections is forgotten when either goes away. The cleanup of one of
  them removes the user ID from the online table and from every room, while the other connection
  is still in its read loop with the same identity: it is neither listed, nor reachable by private
  messages, nor a member of the rooms it joined.
\<close>

theorem second_connection_forgotten:
  assumes "rtranclp (id_step srv) start s" "ph s c = Reading" "ph s d = Reading" "c \<noteq> d"
    and "identity (gw s) (loc s c) = Some u" "identity (gw s) (loc s d) = Some u"
    and "range_order (rooms (gw s)) (e_ord e)"
  shows "let t = do_cleanup srv c e s in
      ph t d = Reading \<and> identity (gw t) (loc t d) = Some u
      \<and> getOnlineClient u (gw t) = None \<and> (\<forall>rid. abs_members (abs_rooms (gw t)) rid u = None)"
proof -
  have inv: "sys_inv s" using gateway.inv_reachable [OF assms(1)] .
  obtain r where r: "me (loc s c) = Some r" "c_UserID (clientH (gw s) r) = u"
    using assms(5) by (auto simp: identity_def)
  note clean = cleanup_abs [OF tables_okD(1) [OF sys_invD(1) [OF inv]] r(1) assms(7), of srv]
  have "identity (cleanup srv e (loc s c) (gw s)) (loc s d) = Some u"
    using identity_extends [OF sys_invD(2) [OF inv assms(3)] extends_cleanup] assms(6) by simp
  then show ?thesis
    using assms(3,4) clean r(2) by (simp add: Let_def getOnlineClient_def)
qed

definition twice :: sys where
  "twice = auth_step 1 ''a'' (do_accept 1 (auth_step 0 ''a'' (do_accept 0 start)))"

lemma twice_reachable: "rtranclp (id_step dev_srv) start twice"
proof -
  let ?s1 = "do_accept 0 start"
  let ?s2 = "auth_step 0 ''a'' ?s1"
  let ?s3 = "do_accept 1 ?s2"
  have "id_step dev_srv start ?s1"
    by (rule id_stepI [OF gstep.accept]) (simp_all add: stale_defs)
  moreover have "id_step dev_srv ?s1 ?s2"
  proof (rule id_stepI)
    show "gstep dev_srv ?s1 ?s2" unfolding auth_step_def by (rule step_auth) (simp_all add: stale_defs)
  qed (simp add: keeps_identity_def identity_def stale_defs split: if_splits)
  moreover have "id_step dev_srv ?s2 ?s3"
  proof (rule id_stepI)
    show "gstep dev_srv ?s2 ?s3" by (rule gstep.accept) (simp add: stale_defs)
  qed (auto simp add: keeps_identity_def identity_def stale_defs split: if_splits)
  moreover have "id_step dev_srv ?s3 twice"
  proof (rule id_stepI)
    show "gstep dev_srv ?s3 twice"
      unfolding twice_def auth_step_def [of 1] by (rule step_auth) (simp_all add: stale_defs)
  qed (auto simp add: keeps_identity_def identity_def twice_def stale_defs split: if_splits)
  ultimately show ?thesis
    by (meson rtranclp.rtrancl_into_rtrancl rtranclp.rtrancl_refl)
qed

theorem second_connection_forgotten_witness:
  "let t = do_cleanup dev_srv 0 env0 twice in
      ph t 1 = Reading \<and> identity (gw t) (loc t 1) = Some ''a''
      \<and> getOnlineClient ''a'' (gw t) = None \<and> (\<forall>rid. abs_members (abs_rooms (gw t)) rid ''a'' = None)"
  by (rule second_connection_forgotten [OF twice_reachable])
    (simp_all add: twice_def identity_def stale_defs)

end
