(* ===== verification/ChatProperties.thy ===== *)
theory ChatProperties
  imports SystemProperties
begin

text \<open>
  Properties of the message handler: authentication, the room operations as an abstract map, group
  and private messages.
\<close>

section \<open>Before authentication\<close>

lemma sendJSON_one_channel: "\<exists>ch. state_of (sendJSON c v s) = s\<lparr>chanH := (chanH s)(c := ch)\<rparr>"
proof (cases v)
  case None
  then show ?thesis by (auto simp: sendJSON_def intro: exI [of _ "chanH s c"])
next
  case (Some j)
  then show ?thesis
    by (cases rule: send_nb_cases [of s c "marshal j"])
      (auto simp: sendJSON_def intro: exI [of _ "chanH s c"])
qed

lemma error_one_channel: "\<exists>ch. state_of (send_error c msg s) = s\<lparr>chanH := (chanH s)(c := ch)\<rparr>"
  unfolding send_error_def by (rule sendJSON_one_channel)

lemma same_one_channel: "\<exists>ch. s = s\<lparr>chanH := (chanH s)(c := ch)\<rparr>"
  by (rule exI [of _ "chanH s c"]) simp



section \<open>Authentication\<close>

text \<open>The user ID an \<open>auth\<close> message is entitled to when there is an auth service.\<close>

definition admitted :: "GatewayServer \<Rightarrow> AuthServiceClient \<Rightarrow> string \<Rightarrow> gw_state \<Rightarrow> ws_local \<Rightarrow> string option" where
  "admitted srv ac tok s l =
     (if 3 \<le> authAttempts l then None
      else case ac_Validate ac (gw_trace s) tok of
          Inl _ \<Rightarrow> None
        | Inr None \<Rightarrow> None
        | Inr (Some resp) \<Rightarrow>
            (if tr_Valid resp \<and> \<not> is_banned srv (tr_UserId resp) (log_call (CallValidate tok) s)
             then Some (tr_UserId resp) else None))"

lemma finished_auth:
  "identity (fst (state_of (finish_auth srv c e uid ttl (s, l)))) (snd (state_of (finish_auth srv c e uid ttl (s, l)))) = Some uid
   \<and> getOnlineClient uid (fst (state_of (finish_auth srv c e uid ttl (s, l)))) = me (snd (state_of (finish_auth srv c e uid ttl (s, l))))"
proof -
  obtain r t where new: "new_client uid c s = (r, t)" by fastforce
  then show ?thesis
    using finish_auth_state [OF new, of srv e ttl l] finish_auth_identity [of srv c e uid ttl s l]
    by (auto simp: same_tables_def registerOnline_def getOnlineClient_def)
qed

lemma handle_auth_admitted:
  assumes "gs_AuthClient srv = Some ac"
  shows "case admitted srv ac (m_Token m) s l of
      Some uid \<Rightarrow> identity (fst (state_of (handle_auth srv c e m (s, l)))) (snd (state_of (handle_auth srv c e m (s, l)))) = Some uid
        \<and> getOnlineClient uid (fst (state_of (handle_auth srv c e m (s, l)))) = me (snd (state_of (handle_auth srv c e m (s, l))))
    | None \<Rightarrow> me (snd (state_of (handle_auth srv c e m (s, l)))) = me l
        \<and> same_tables s (fst (state_of (handle_auth srv c e m (s, l))))"
proof -
  let ?v = "log_call (CallValidate (m_Token m)) s"
  have banned: "same_tables s (log_ban_check srv uid ?v)" for uid
    by (rule same_tables_trans [OF same_tables_log same_tables_ban_check])
  note refused = same_tables_trans [OF same_tables_log same_tables_refuse] same_tables_trans [OF banned same_tables_refuse]
  show ?thesis
  proof (cases "3 \<le> authAttempts l")
    case True
    then show ?thesis using assms by (simp add: handle_auth_def admitted_def maxAuthAttempts_def)
  next
    case False
    note few = this
    show ?thesis
    proof (cases "ac_Validate ac (gw_trace s) (m_Token m)")
      case (Inl err)
      then show ?thesis using assms few by (simp add: handle_auth_def admitted_def maxAuthAttempts_def refused)
    next
      case (Inr reply)
      then show ?thesis using assms few
        by (cases reply) (simp_all add: handle_auth_def admitted_def maxAuthAttempts_def Let_def refused finished_auth)
    qed
  qed
qed

text \<open>
  C10: with an auth service, an \<open>auth\<close> message authenticates the connection exactly when it is one
  of the first three of the connection, the service answers that the token is valid, and the user
  the service names is not known to be banned; the connection then has that user ID and is the one
  registered under it. In every other case (too many attempts, an error, a nil answer, an invalid
  token, a ban) it keeps the identity it had, and the online table and all rooms stay as they were.
\<close>

theorem auth_admits_exactly:
  assumes "gs_AuthClient srv = Some ac" "unmarshal_WSMsg data = Some m" "m_Type m = ''auth''"
  shows "let (t, l') = state_of (handle_frame srv c e data (s, l)) in
     (case admitted srv ac (m_Token m) s l of
        Some uid \<Rightarrow> identity t l' = Some uid \<and> getOnlineClient uid t = me l'
      | None \<Rightarrow> me l' = me l \<and> onlineUsers t = onlineUsers s \<and> abs_rooms t = abs_rooms s)"
proof -
  obtain t l' where r: "state_of (handle_auth srv c e m (s, l)) = (t, l')" by fastforce
  have "state_of (handle_frame srv c e data (s, l)) = (t, l')"
    using assms(2,3) r by (simp add: handle_frame_def dispatch_def)
  moreover have "same_tables s t \<Longrightarrow> onlineUsers t = onlineUsers s \<and> abs_rooms t = abs_rooms s"
    using same_tables_abs by (auto simp: same_tables_def)
  ultimately show ?thesis
    using handle_auth_admitted [OF assms(1), where m = m and s = s and l = l and c = c and e = e] r
    by (cases "admitted srv ac (m_Token m) s l") simp_all
qed

definition yes_auth :: AuthServiceClient where
  "yes_auth = \<lparr>ac_Validate = (\<lambda>_ tok. Inr (Some \<lparr>tr_Valid = True, tr_UserId = tok\<rparr>)),
     ac_Register = (\<lambda>_ _ _. Inl []), ac_Login = (\<lambda>_ _ _. Inl [])\<rparr>"

definition auth_srv :: GatewayServer where
  "auth_srv = dev_srv\<lparr>gs_AuthClient := Some yes_auth\<rparr>"

theorem auth_admits_exactly_witness:
  "let (t, l') = state_of (handle_frame auth_srv 0 env0 (frame (auth_msg ''a'')) (empty_gw, init_local)) in
     identity t l' = Some ''a'' \<and> getOnlineClient ''a'' t = me l'"
proof -
  have "admitted auth_srv yes_auth (m_Token (auth_msg ''a'')) empty_gw init_local = Some ''a''"
    by (simp add: admitted_def auth_msg_def yes_auth_def auth_srv_def dev_srv_def init_local_def is_banned_def)
  moreover have "let (t, l') = state_of (handle_frame auth_srv 0 env0 (frame (auth_msg ''a'')) (empty_gw, init_local)) in
     (case admitted auth_srv yes_auth (m_Token (auth_msg ''a'')) empty_gw init_local of
        Some uid \<Rightarrow> identity t l' = Some uid \<and> getOnlineClient uid t = me l'
      | None \<Rightarrow> me l' = me init_local \<and> onlineUsers t = onlineUsers empty_gw \<and> abs_rooms t = abs_rooms empty_gw)"
    by (rule auth_admits_exactly [OF _ unmarshal_auth]) (simp_all add: auth_srv_def, simp add: auth_msg_def)
  ultimately show ?thesis by (simp only: option.case)
qed

text \<open>
  The frames of one connection, each handled in a shared state of its own (whatever other
  connections did in between); the sum counts the calls of \<open>Validate\<close> these frames make.
\<close>

fun talk :: "GatewayServer \<Rightarrow> nat \<Rightarrow> (gw_state \<times> ws_env \<times> bytes) list \<Rightarrow> ws_local \<Rightarrow> nat" where
  "talk srv c [] l = 0"
| "talk srv c ((s, e, data) # fs) l =
     (let (t, l') = state_of (handle_frame srv c e data (s, l))
      in (validations (gw_trace t) - validations (gw_trace s)) + talk srv c fs l')"

lemma finish_auth_attempts [simp]: "authAttempts (snd (state_of (finish_auth srv c e uid ttl (s, l)))) = authAttempts l"
  by (simp add: finish_auth_def Let_def split: prod.split)

lemma quiet_validations: "quiet s t \<Longrightarrow> validations (gw_trace t) = validations (gw_trace s)"
  by (auto simp: quiet_def)

lemma log_validate: "validations (gw_trace (log_call (CallValidate tok) s)) = Suc (validations (gw_trace s))"
  by (simp add: log_call_def validations_def)

lemma handle_auth_attempts:
  "(validations (gw_trace (fst (state_of (handle_auth srv c e m (s, l))))) = validations (gw_trace s)
      \<and> authAttempts l \<le> authAttempts (snd (state_of (handle_auth srv c e m (s, l)))))
   \<or> (validations (gw_trace (fst (state_of (handle_auth srv c e m (s, l))))) = Suc (validations (gw_trace s))
      \<and> authAttempts l < 3 \<and> authAttempts (snd (state_of (handle_auth srv c e m (s, l)))) = authAttempts l + 1)"
proof -
  note counts = quiet_validations [OF quietly.refused] quiet_validations [OF quietly.authenticated]
    quiet_validations [OF quietly.ban_checked] log_validate
  show ?thesis
    unfolding handle_auth_def Let_def maxAuthAttempts_def
    by (auto simp: counts split: option.split sum.split)
qed

text \<open>Any frame: no call and no fewer attempts, or one call and one attempt more, of the first three.\<close>

lemma frame_attempts:
  assumes "state_of (handle_frame srv c e data (s, l)) = (t, l')"
  shows "(validations (gw_trace t) = validations (gw_trace s) \<and> authAttempts l \<le> authAttempts l')
    \<or> (validations (gw_trace t) = Suc (validations (gw_trace s)) \<and> authAttempts l < 3 \<and> authAttempts l' = authAttempts l + 1)"
proof (cases "\<exists>m. unmarshal_WSMsg data = Some m \<and> m_Type m = ''auth''")
  case True
  then obtain m where "unmarshal_WSMsg data = Some m" "m_Type m = ''auth''" by blast
  then have "state_of (handle_auth srv c e m (s, l)) = (t, l')"
    using assms by (simp add: handle_frame_def dispatch_def)
  then show ?thesis using handle_auth_attempts [of srv c e m s l] by simp
next
  case False
  then have "quiet s t" using quietly.not_auth [of data s srv c e l] assms by auto
  moreover have "l' = l" using False assms
    by (auto simp: handle_frame_def dispatch_def split: option.splits)
  ultimately show ?thesis by (simp add: quiet_validations)
qed

lemma talk_bound: "0 \<le> authAttempts l \<Longrightarrow> int (talk srv c fs l) \<le> max 0 (3 - authAttempts l)"
proof (induction fs arbitrary: l)
  case Nil
  then show ?case by simp
next
  case (Cons f fs)
  obtain s e data where f: "f = (s, e, data)" by (cases f)
  obtain t l' where res: "state_of (handle_frame srv c e data (s, l)) = (t, l')" by fastforce
  note step = frame_attempts [OF res]
  then have "0 \<le> authAttempts l'" using Cons.prems by auto
  then show ?case using Cons.IH [of l'] step f res by auto
qed

text \<open>
  One connection makes the gateway call \<open>Validate\<close> at most three times in its life, however many
  frames it sends and whatever happens in the shared state in between.
\<close>

theorem validate_at_most_three: "talk srv c fs init_local \<le> 3"
  using talk_bound [of init_local srv c fs] by (simp add: init_local_def)

end
