(* ===== verification/RoomProperties.thy ===== *)
theory RoomProperties
  imports ChatProperties
begin

text \<open>
  Properties of group and private messages: the room operations as a partial map from room IDs to
  member tables, who receives a frame, and what is stored.
\<close>

section \<open>The rooms as an abstract map\<close>

text \<open>What a message of an authenticated client does to the abstract rooms.\<close>

definition room_effect :: "WSMsg \<Rightarrow> string \<Rightarrow> nat \<Rightarrow> abs_rooms \<Rightarrow> abs_rooms" where
  "room_effect m uid r a =
     (if m_Type m = ''join'' then abs_join (m_RoomID m) uid r a
      else if m_Type m = ''leave'' then abs_leave (m_RoomID m) uid a
      else if m_Type m = ''send'' then abs_open (m_RoomID m) a
      else a)"

lemma abs_same_sendJSON: "abs_rooms (state_of (sendJSON c v s)) = abs_rooms s"
  by (rule same_tables_abs [OF same_tables_sendJSON])

lemma join_abs:
  assumes "rooms_wf s" "me l = Some r"
  shows "abs_rooms (state_of (handle_join srv c m l s)) = abs_join (m_RoomID m) (c_UserID (clientH s r)) r (abs_rooms s)"
proof -
  obtain rr s1 where g: "getOrCreateRoom (m_RoomID m) s = (rr, s1)" by fastforce
  obtain his s3 where h: "load_history srv (m_RoomID m) 50 (Slice []) (addClient rr r s1) = (his, s3)"
    by fastforce
  have "abs_rooms s3 = abs_rooms (addClient rr r s1)"
    using same_tables_abs [OF same_tables_load_history [OF h]] .
  then show ?thesis
    using join_refines [OF assms(1) g, of r] assms(2) g h
    by (simp add: handle_join_def abs_same_sendJSON)
qed

lemma leave_abs:
  assumes "rooms_wf s" "me l = Some r"
  shows "abs_rooms (state_of (handle_leave c m l s)) = abs_leave (m_RoomID m) (c_UserID (clientH s r)) (abs_rooms s)"
  unfolding handle_leave_eq [OF assms(2)] by (simp add: abs_same_sendJSON abs_leave_room [OF assms(1)])

lemma send_abs:
  assumes "rooms_wf s" "me l = Some r"
  shows "abs_rooms (state_of (handle_send srv c e m l s)) = abs_open (m_RoomID m) (abs_rooms s)"
proof -
  obtain rr s1 where g: "getOrCreateRoom (m_RoomID m) s = (rr, s1)" by fastforce
  have st: "same_tables s1 (state_of (andThen (broadcast rr (e_ord e) b s1) (\<lambda>s2. Returns (spawn_save srv cm s2))))" for b cm
    by (rule same_tables_andThen) simp_all
  then show ?thesis
    using abs_getOrCreateRoom [OF assms(1) g] assms(2) g by (simp add: handle_send_def Let_def same_tables_abs [OF st])
qed

lemma auth_abs: "abs_rooms (fst (state_of (handle_auth srv c e m (s, l)))) = abs_rooms s"
  using handle_auth_outcome [of srv c e s l m]
proof cases
  case (refused t l' hangup msg)
  then show ?thesis using same_tables_abs [OF same_tables_trans [OF refused(2) same_tables_refuse]] by simp
next
  case (accepted t l' uid ttl)
  obtain r' t' where new: "new_client uid c t = (r', t')" by fastforce
  have "abs_rooms (registerOnline uid r' t') = abs_rooms s"
    using new abs_rooms_cong [of "registerOnline uid r' t'" t] same_tables_abs [OF accepted(2)]
    by (simp add: new_client_def registerOnline_def) (auto simp: abs_rooms_def)
  then show ?thesis
    using finish_auth_state [OF new, of srv e ttl l'] accepted(1) same_tables_abs by force
qed

lemma not_auth_abs:
  assumes "rooms_wf s" "me l = Some r" "unmarshal_WSMsg data = Some m" "m_Type m \<noteq> ''auth''"
  shows "abs_rooms (fst (state_of (handle_frame srv c e data (s, l))))
       = room_effect m (c_UserID (clientH s r)) r (abs_rooms s)"
  using assms join_abs [OF assms(1,2)] leave_abs [OF assms(1,2)] send_abs [OF assms(1,2)]
    same_tables_abs [OF same_tables_private] same_tables_abs [OF same_tables_history]
    same_tables_abs [OF same_tables_ping] same_tables_abs [OF same_tables_send_error]
  by (simp add: handle_frame_def dispatch_def room_effect_def)

text \<open>
  C11: the handler refines the abstract map of rooms. For an authenticated client, \<open>join\<close> adds the
  user to the room (creating it), \<open>leave\<close> removes the user and the room with its last member, \<open>send\<close>
  only makes sure the room exists, and every other message leaves the rooms alone; no message
  touches another room or another user's membership.
\<close>

theorem handler_refines_rooms:
  assumes "rooms_wf s" "me l = Some r" "unmarshal_WSMsg data = Some m"
  shows "abs_rooms (fst (state_of (handle_frame srv c e data (s, l))))
       = room_effect m (c_UserID (clientH s r)) r (abs_rooms s)"
proof (cases "m_Type m = ''auth''")
  case True
  then show ?thesis using assms(3) auth_abs by (simp add: handle_frame_def dispatch_def room_effect_def)
next
  case False
  then show ?thesis by (rule not_auth_abs [OF assms])
qed

definition join_msg :: "string \<Rightarrow> WSMsg" where
  "join_msg room = zero_WSMsg\<lparr>m_Type := ''join'', m_RoomID := room\<rparr>"

definition send_msg :: "string \<Rightarrow> string \<Rightarrow> WSMsg" where
  "send_msg room txt = zero_WSMsg\<lparr>m_Type := ''send'', m_RoomID := room, m_Content := txt\<rparr>"

lemma ascii_types [simp]: "valid_utf8 ''join''" "valid_utf8 ''send''" "valid_utf8 ''r''"
  by (rule valid_utf8_ascii, simp add: code_def)+

lemma unmarshal_join: "valid_utf8 room \<Longrightarrow> unmarshal_WSMsg (frame (join_msg room)) = Some (join_msg room)"
  unfolding frame_def by (rule unmarshal_marshal_WSMsg) (simp_all add: join_msg_def zero_WSMsg_def utf8_WSMsg_def)

lemma unmarshal_send:
  "valid_utf8 room \<Longrightarrow> valid_utf8 txt \<Longrightarrow> unmarshal_WSMsg (frame (send_msg room txt)) = Some (send_msg room txt)"
  unfolding frame_def by (rule unmarshal_marshal_WSMsg) (simp_all add: send_msg_def zero_WSMsg_def utf8_WSMsg_def)

lemma logged0_inv: "sys_inv logged0"
  by (rule gateway.inv_reachable [OF logged0_reachable])

theorem handler_refines_rooms_witness:
  "abs_rooms (fst (state_of (handle_frame dev_srv 0 env0 (frame (join_msg ''r'')) (gw logged0, loc logged0 0))))
     = room_effect (join_msg ''r'') ''a'' 0 (abs_rooms (gw logged0))"
proof -
  have "me (loc logged0 0) = Some 0" "c_UserID (clientH (gw logged0) 0) = ''a''" by (simp_all add: run_defs)
  then show ?thesis
    using handler_refines_rooms [OF tables_okD(1) [OF sys_invD(1) [OF logged0_inv]] _ unmarshal_join [of "''r''"]]
    by simp
qed

section \<open>Group messages\<close>

lemma tables_ok_distinct:
  assumes "tables_ok \<sigma> s" "r_clients (roomH s rr) = abs_members (abs_rooms s) rid"
  shows "distinct_sends rr s" "all_open rr ord s"
proof -
  have ref: "ref_ok \<sigma> s u r" if "r_clients (roomH s rr) u = Some r" for u r
    using tables_okD(3) [OF assms(1), where rid = rid] that assms(2) by simp
  show "all_open rr ord s"
    using ref_ok_open [OF assms(1) ref] by (simp add: all_open_def)
  show "distinct_sends rr s"
    unfolding distinct_sends_def
  proof (intro allI impI)
    fix u v c d
    assume "r_clients (roomH s rr) u = Some c" "r_clients (roomH s rr) v = Some d"
      and same: "c_Send (clientH s c) = c_Send (clientH s d)"
    then have "\<sigma> (c_Send (clientH s c)) = Some u" "\<sigma> (c_Send (clientH s d)) = Some v"
      using ref [of u c] ref [of v d] by (simp_all only: ref_ok_def)
    then show "u = v" using same by simp
  qed
qed

text \<open>Who has the channel \<open>k\<close> in a room.\<close>

definition listens :: "gw_state \<Rightarrow> string \<Rightarrow> nat \<Rightarrow> bool" where
  "listens s room k \<longleftrightarrow> (\<exists>u r. abs_members (abs_rooms s) room u = Some r \<and> c_Send (clientH s r) = k)"

lemma handle_send_effect:
  assumes ok: "tables_ok \<sigma> s" and r: "me l = Some r"
    and ord: "range_order (abs_members (abs_rooms s) (m_RoomID m)) (e_ord e)"
  shows "\<exists>t. handle_send srv c e m l s = Returns t
    \<and> (\<forall>k. chanH t k = (if listens s (m_RoomID m) k then Rooms.accept (message_frame (c_UserID (clientH s r)) m e) (chanH s k)
                       else chanH s k))
    \<and> saves t = saves s @ (if gs_Mongo srv = None then [] else [room_message (c_UserID (clientH s r)) m e])"
proof -
  let ?uid = "c_UserID (clientH s r)" and ?b = "message_frame (c_UserID (clientH s r)) m e"
  obtain rr s1 where g: "getOrCreateRoom (m_RoomID m) s = (rr, s1)" by fastforce
  note frame1 = getOrCreateRoom_frame [OF g]
  have ok1: "tables_ok \<sigma> s1" by (rule tables_ok_getOrCreateRoom [OF ok g])
  have mem: "r_clients (roomH s1 rr) = abs_members (abs_rooms s) (m_RoomID m)"
    by (rule getOrCreateRoom_members [OF tables_okD(1) [OF ok] g])
  moreover have "abs_members (abs_rooms s1) = abs_members (abs_rooms s)"
    using abs_getOrCreateRoom [OF tables_okD(1) [OF ok] g] by simp
  ultimately have d: "distinct_sends rr s1" "all_open rr (e_ord e) s1"
    using tables_ok_distinct [OF ok1, of rr "m_RoomID m"] by simp_all
  have ret: "returns (broadcast rr (e_ord e) ?b s1)" using d(2) by (simp add: broadcast_returns_iff)
  then obtain s2 where s2: "broadcast rr (e_ord e) ?b s1 = Returns s2" by (auto simp: returns_iff)
  have "chanH s2 k = (if listens s (m_RoomID m) k then Rooms.accept ?b (chanH s k) else chanH s k)" for k
  proof -
    have "(\<exists>u \<in> set (e_ord e). \<exists>c. r_clients (roomH s1 rr) u = Some c \<and> c_Send (clientH s1 c) = k) = listens s (m_RoomID m) k"
      using range_orderD(2) [OF ord] frame1 by (auto simp: mem listens_def)
    then show ?thesis
      using broadcast_channels [OF d(2,1) range_orderD(1) [OF ord], of ?b k] s2 frame1 by simp
  qed
  moreover have "saves s2 = saves s"
  proof -
    have "saves s1 = saves s" using g by (auto simp: getOrCreateRoom_def createRoom_def split: option.splits)
    moreover have "saves (state_of (broadcast rr (e_ord e) ?b s1)) = saves s1"
      unfolding broadcast_def
      by (rule for_each_inv [where P = "\<lambda>t. saves t = saves s1"])
        (simp_all add: broadcast_to_def send_nb_def Let_def split: option.split)
    ultimately show ?thesis using s2 by simp
  qed
  ultimately show ?thesis
    using r g s2 by (simp add: handle_send_def Let_def spawn_save_def split: option.split)
qed

text \<open>
  C8: in every state reachable with stable identities, a \<open>send\<close> of an authenticated connection
  returns; the channel of every member of the room, and no other channel, gets the frame once (when
  it is not full, else it is dropped), and the message is handed to the store exactly when there is
  one. The sender need not be a member of the room.
\<close>

theorem send_reaches_exactly_the_members:
  assumes "rtranclp (id_step srv) start s" "ph s c = Reading" "me (loc s c) = Some r"
    and "unmarshal_WSMsg data = Some m" "m_Type m = ''send''"
    and "range_order (abs_members (abs_rooms (gw s)) (m_RoomID m)) (e_ord e)"
  shows "\<exists>t. handle_frame srv c e data (gw s, loc s c) = Returns (t, loc s c)
    \<and> (\<forall>k. chanH t k = (if listens (gw s) (m_RoomID m) k
           then Rooms.accept (message_frame (c_UserID (clientH (gw s) r)) m e) (chanH (gw s) k) else chanH (gw s) k))
    \<and> saves t = saves (gw s) @ (if gs_Mongo srv = None then [] else [room_message (c_UserID (clientH (gw s) r)) m e])"
proof -
  have "tables_ok (owner s) (gw s)" using gateway.inv_reachable [OF assms(1)] sys_invD(1) by blast
  from handle_send_effect [where e = e and srv = srv and c = c, OF this assms(3,6)] show ?thesis
    using assms(4,5) by (auto simp: handle_frame_def dispatch_def)
qed

theorem send_reaches_exactly_the_members_witness:
  "\<exists>t. handle_frame dev_srv 0 env0 (frame (send_msg ''r'' ''b'')) (gw logged0, loc logged0 0) = Returns (t, loc logged0 0)
    \<and> (\<forall>k. chanH t k = (if listens (gw logged0) ''r'' k
           then Rooms.accept (message_frame (c_UserID (clientH (gw logged0) 0)) (send_msg ''r'' ''b'') env0) (chanH (gw logged0) k)
           else chanH (gw logged0) k))
    \<and> saves t = saves (gw logged0) @ (if gs_Mongo dev_srv = None then [] else
         [room_message (c_UserID (clientH (gw logged0) 0)) (send_msg ''r'' ''b'') env0])"
proof -
  have "m_RoomID (send_msg ''r'' ''b'') = ''r''" "m_Type (send_msg ''r'' ''b'') = ''send''"
    by (simp_all add: send_msg_def)
  moreover have "ph logged0 0 = Reading" "me (loc logged0 0) = Some 0"
    "abs_members (abs_rooms (gw logged0)) ''r'' = Map.empty" "e_ord env0 = []"
    by (simp_all add: run_defs env0_def abs_members_def abs_rooms_def)
  ultimately show ?thesis
    using send_reaches_exactly_the_members [where s = logged0 and e = env0, OF logged0_reachable _ _ unmarshal_send
        [of "''r''" "''b''"]] by simp
qed

end
