(* ===== verification/PrivateProperties.thy ===== *)
theory PrivateProperties
  imports RoomProperties
begin

text \<open>
  Private messages: who receives one, what is stored, how a stored one reaches its addressee, and
  which ones are lost. A store in memory that satisfies \<open>mongo_laws\<close> serves the witnesses.
\<close>

section \<open>Sending a private message\<close>

lemma send_nb_Returns:
  "\<not> ch_closed (chanH s c) \<Longrightarrow> send_nb c b s = Returns (s\<lparr>chanH := (chanH s)(c := Rooms.accept b (chanH s c))\<rparr>)"
  by (cases rule: send_nb_cases [of s c b]) (auto simp: Rooms.accept_def)

lemma accept_closed [simp]: "ch_closed (Rooms.accept b ch) = ch_closed ch"
  by (simp add: Rooms.accept_def)

lemma spawn_save_eq: "spawn_save srv cm s = s\<lparr>saves := saves s @ (if gs_Mongo srv = None then [] else [cm])\<rparr>"
  by (simp add: spawn_save_def split: option.split)

text \<open>The channels after a private message: the target's, if the addressee is online, then the sender's.\<close>

definition after_private :: "gw_state \<Rightarrow> nat \<Rightarrow> string \<Rightarrow> bytes \<Rightarrow> nat \<Rightarrow> chan" where
  "after_private s c to b =
     (let h = (case getOnlineClient to s of
                 None \<Rightarrow> chanH s
               | Some tgt \<Rightarrow> (chanH s)(c_Send (clientH s tgt) := Rooms.accept b (chanH s (c_Send (clientH s tgt)))))
      in h(c := Rooms.accept (marshal (ack_payload to)) (h c)))"

lemma handle_private_effect:
  assumes r: "me l = Some r" and own: "\<not> ch_closed (chanH s c)"
    and tgt: "\<And>t. getOnlineClient (m_To m) s = Some t \<Longrightarrow> \<not> ch_closed (chanH s (c_Send (clientH s t)))"
  shows "handle_private srv c e m l s = Returns (s
     \<lparr>chanH := after_private s c (m_To m) (private_frame (c_UserID (clientH s r)) m e),
      saves := saves s @ (if gs_Mongo srv = None then []
        else [private_message (c_UserID (clientH s r)) m e (getOnlineClient (m_To m) s \<noteq> None)])\<rparr>)"
proof (cases "getOnlineClient (m_To m) s")
  case None
  then show ?thesis
    using r own by (simp add: handle_private_def Let_def sendJSON_def spawn_save_eq send_nb_Returns after_private_def)
next
  case (Some t)
  then show ?thesis
    using r own tgt [OF Some]
    by (simp add: handle_private_def Let_def sendJSON_def send_client_def spawn_save_eq send_nb_Returns after_private_def)
qed

text \<open>
  C9: in every state reachable with stable identities, a \<open>private\<close> message of an authenticated
  connection returns and changes nothing but two channels and the pending saves: the addressee's
  connection, when there is one online, gets the frame, the sender gets the acknowledgement, and,
  when there is a store, one message is handed to it, marked delivered exactly when the addressee
  was online.
\<close>

theorem private_message_effect:
  assumes "rtranclp (id_step srv) start s" "ph s c = Reading" "me (loc s c) = Some r"
    and "unmarshal_WSMsg data = Some m" "m_Type m = ''private''"
  shows "handle_frame srv c e data (gw s, loc s c) = Returns ((gw s)
     \<lparr>chanH := after_private (gw s) c (m_To m) (private_frame (c_UserID (clientH (gw s) r)) m e),
      saves := saves (gw s) @ (if gs_Mongo srv = None then []
        else [private_message (c_UserID (clientH (gw s) r)) m e (getOnlineClient (m_To m) (gw s) \<noteq> None)])\<rparr>, loc s c)"
proof -
  have inv: "sys_inv s" using gateway.inv_reachable [OF assms(1)] .
  note ok = sys_invD(1) [OF inv]
  have "\<not> ch_closed (chanH (gw s) (c_Send (clientH (gw s) t)))" if "getOnlineClient (m_To m) (gw s) = Some t" for t
    using ref_ok_open [OF ok tables_okD(2) [OF ok]] that by (simp add: getOnlineClient_def)
  from handle_private_effect [OF assms(3) owns_open [OF sys_invD(2) [OF inv assms(2)]] this]
  show ?thesis using assms(4,5) by (simp add: handle_frame_def dispatch_def)
qed

theorem private_message_effect_witness:
  "handle_frame dev_srv 0 env0 (frame (private_msg ''a'' ''b'')) (gw logged0, loc logged0 0) = Returns ((gw logged0)
     \<lparr>chanH := after_private (gw logged0) 0 (m_To (private_msg ''a'' ''b''))
        (private_frame (c_UserID (clientH (gw logged0) 0)) (private_msg ''a'' ''b'') env0),
      saves := saves (gw logged0) @ (if gs_Mongo dev_srv = None then []
        else [private_message (c_UserID (clientH (gw logged0) 0)) (private_msg ''a'' ''b'') env0
           (getOnlineClient (m_To (private_msg ''a'' ''b'')) (gw logged0) \<noteq> None)])\<rparr>, loc logged0 0)"
  by (rule private_message_effect [OF logged0_reachable _ _ unmarshal_private])
    (simp_all add: run_defs private_msg_def)

text \<open>
  A private message to a user whose send channel is full is lost: it is not queued, and it is
  stored as already delivered, so that no later login pulls it; the sender is told \<open>ack\<close> all the same.
\<close>

theorem private_to_full_channel_lost:
  assumes "me l = Some r" "getOnlineClient (m_To m) s = Some tgt" "c_Send (clientH s tgt) = k" "k \<noteq> c"
    and "\<not> ch_closed (chanH s c)" "\<not> ch_closed (chanH s k)" "sendCap \<le> length (ch_buf (chanH s k))" "gs_Mongo srv = Some ms"
  shows "\<exists>t cm. handle_private srv c e m l s = Returns t \<and> chanH t k = chanH s k \<and> saves t = saves s @ [cm]
     \<and> cm_To cm = m_To m \<and> cm_Delivered cm
     \<and> chanH t c = Rooms.accept (marshal (ack_payload (m_To m))) (chanH s c)"
proof -
  have "chanH s k = Rooms.accept b (chanH s k)" for b using assms(7) by (simp add: Rooms.accept_def)
  then show ?thesis
    using handle_private_effect [where s = s and c = c and m = m and srv = srv and e = e, OF assms(1,5)] assms
    by (simp add: after_private_def Let_def private_message_def)
qed

definition no_store :: MangoStore where
  "no_store = \<lparr>mc_InsertOne = (\<lambda>_ _. Some []), mc_Find = (\<lambda>_ _ _. Inl []), mc_UpdateMany = (\<lambda>_ _. Some []), mc_Ping = (\<lambda>_. Some [])\<rparr>"

definition store_srv :: GatewayServer where
  "store_srv = dev_srv\<lparr>gs_Mongo := Some no_store\<rparr>"

text \<open>Connection 1 is user \<open>b\<close> with a full channel; connection 0 is user \<open>a\<close>.\<close>

definition jammed :: gw_state where
  "jammed = (let g = dev_login ''b'' 1 (dev_login ''a'' 0 empty_gw)
     in g\<lparr>chanH := (chanH g)(1 := \<lparr>ch_buf = replicate 256 [], ch_closed = False\<rparr>)\<rparr>)"

theorem private_to_full_channel_lost_witness:
  "\<exists>t cm. handle_private store_srv 0 env0 (private_msg ''b'' ''c'') (init_local\<lparr>me := Some 0\<rparr>) jammed = Returns t
     \<and> chanH t 1 = chanH jammed 1 \<and> saves t = saves jammed @ [cm]
     \<and> cm_To cm = m_To (private_msg ''b'' ''c'') \<and> cm_Delivered cm
     \<and> chanH t 0 = Rooms.accept (marshal (ack_payload (m_To (private_msg ''b'' ''c'')))) (chanH jammed 0)"
  by (rule private_to_full_channel_lost [where tgt = "1" and r = "0" and ms = no_store])
    (simp_all add: jammed_def private_msg_def getOnlineClient_def store_srv_def run_defs Let_def)

end
