(* ===== verification/MemStore.thy ===== *)
theory MemStore
  imports Storage
begin

text \<open>
  A message store in memory: the documents are recomputed from the trace of calls. It satisfies
  \<open>mongo_laws\<close>, so the hypotheses on MongoDB can hold.
\<close>

fun mem_step :: "ChatMessage list \<Rightarrow> call \<Rightarrow> ChatMessage list" where
  "mem_step ds (CallMongoInsert m) = ds @ [as_stored m]"
| "mem_step ds (CallMongoUpdate f) = map (\<lambda>m. if matches f m then mark_delivered m else m) ds"
| "mem_step ds _ = ds"

definition mem_docs :: "ChatMessage list \<Rightarrow> trace \<Rightarrow> ChatMessage list" where
  "mem_docs init h = foldl mem_step init h"

definition mem_answer :: "mongo_filter \<Rightarrow> find_opts \<Rightarrow> ChatMessage list \<Rightarrow> ChatMessage list" where
  "mem_answer f opts docs =
     (let hits = filter (matches f) docs in
      take (nat (fo_limit opts))
        (if fo_sortDesc opts = None then hits else sort_key (\<lambda>m. - cm_Timestamp m) hits))"

definition mem_store :: "ChatMessage list \<Rightarrow> MangoStore" where
  "mem_store init =
     \<lparr>mc_InsertOne = (\<lambda>_ _. None),
      mc_Find = (\<lambda>h f opts. Inr \<lparr>cur_items = map Inr (mem_answer f opts (mem_docs init h)), cur_err = None\<rparr>),
      mc_UpdateMany = (\<lambda>_ _. None), mc_Ping = (\<lambda>_. None)\<rparr>"

lemma mem_docs_snoc: "mem_docs init (h @ [c]) = mem_step (mem_docs init h) c"
  by (simp add: mem_docs_def)

lemma sorted_take_drop:
  assumes "sorted (map k (xs :: 'a list))"
  shows "sorted (map k (take n xs))" and "m \<in> set (drop n xs) \<Longrightarrow> a \<in> set (take n xs) \<Longrightarrow> k a \<le> (k m :: int)"
proof -
  have "sorted (map k (take n xs) @ map k (drop n xs))" using assms by (simp flip: map_append)
  then show "sorted (map k (take n xs))" "m \<in> set (drop n xs) \<Longrightarrow> a \<in> set (take n xs) \<Longrightarrow> k a \<le> k m"
    by (auto simp: sorted_append)
qed

lemma mset_take_diff: "mset xs - mset (take n xs) = mset (drop n xs)"
  by (metis add_diff_cancel_left' append_take_drop_id mset_append)

lemma mem_answer_ok: "find_answer f opts docs (mem_answer f opts docs)"
proof -
  define hits where "hits = filter (matches f) docs"
  define xs where "xs = (if fo_sortDesc opts = None then hits else sort_key (\<lambda>m. - cm_Timestamp m) hits)"
  have xs: "mset xs = mset hits" "length xs = length hits" by (simp_all add: xs_def)
  have ans: "mem_answer f opts docs = take (nat (fo_limit opts)) xs"
    by (simp add: mem_answer_def xs_def hits_def Let_def)
  have "mset (take n xs) \<subseteq># mset hits" for n
    by (metis append_take_drop_id mset_append mset_subset_eq_add_left xs(1))
  moreover have "newest_first (take n xs) \<and> (\<forall>m \<in># mset hits - mset (take n xs). \<forall>a \<in> set (take n xs). cm_Timestamp m \<le> cm_Timestamp a)"
    if "fo_sortDesc opts = Some ''timestamp''" for n
  proof -
    have "sorted (map (\<lambda>m. - cm_Timestamp m) xs)" using that by (simp add: xs_def)
    from sorted_take_drop [OF this, where n = n] show ?thesis
      by (auto simp: newest_first_def sorted_wrt_map simp flip: xs(1) simp: mset_take_diff)
  qed
  ultimately show ?thesis by (simp add: find_answer_def ans xs(2) flip: hits_def)
qed

theorem mem_laws: "mongo_laws (mem_store init) (mem_docs init)"
proof -
  have "mem_step ds c = ds" if "\<forall>m. c \<noteq> CallMongoInsert m" "\<forall>f. c \<noteq> CallMongoUpdate f" for ds c
    using that by (cases c) auto
  then show ?thesis
    using mem_answer_ok by (fastforce simp: mongo_laws_def mem_store_def mem_docs_snoc)
qed

end
