(* ===== verification/StoreProperties.thy ===== *)
theory StoreProperties
  imports PrivateProperties MemStore
begin

text \<open>
  The path of a stored message: undelivered private messages at the next login, the 200 that one
  login can take, and room history.
\<close>

section \<open>Undelivered messages at login\<close>

lemma push_loop_eq:
  "for_each (\<lambda>m. send_client r (f m)) msgs s = for_each (send_nb (c_Send (clientH s r))) (map f msgs) s"
proof (induction msgs arbitrary: s)
  case Nil
  then show ?case by simp
next
  case (Cons m msgs)
  have same: "c_Send (clientH (state_of (send_nb c b s)) r) = c_Send (clientH s r)" for c b by simp
  show ?case
    using Cons.IH same [of "c_Send (clientH s r)" "f m"]
    by (cases "send_nb (c_Send (clientH s r)) (f m) s") (simp_all add: send_client_def)
qed

lemma push_appends:
  assumes "gs_Mongo srv = Some ms" "PullUndeliveredForUser ms uid (gw_trace s) = (Inr msgs, h)"
    and "onlineUsers s uid = Some r" "c_Send (clientH s r) = k" "\<not> ch_closed (chanH s k)"
    and "length (ch_buf (chanH s k)) + length msgs \<le> sendCap"
  shows "\<exists>t. pushUndelivered srv uid s = Returns t \<and> \<not> ch_closed (chanH t k)
     \<and> ch_buf (chanH t k) = ch_buf (chanH s k) @ map (undelivered_frame uid) msgs"
proof -
  let ?s1 = "s\<lparr>gw_trace := h\<rparr>"
  obtain t where "for_each (send_nb k) (map (undelivered_frame uid) msgs) ?s1 = Returns t" "\<not> ch_closed (chanH t k)"
      "ch_buf (chanH t k) = ch_buf (chanH s k) @ map (undelivered_frame uid) msgs"
    using sendq.deliver_all_fit [where c = k and s = ?s1 and bs = "map (undelivered_frame uid) msgs"] assms(5,6) by auto
  then show ?thesis
    using assms(1-4) push_loop_eq [of r "undelivered_frame uid" msgs ?s1]
    by (auto simp: pushUndelivered_def Let_def getOnlineClient_def)
qed

lemma finish_auth_pushes:
  assumes srv: "gs_Mongo srv = Some ms" "PullUndeliveredForUser ms uid (gw_trace s) = (Inr msgs, h)"
    and chan: "\<not> ch_closed (chanH s c)" "length (ch_buf (chanH s c)) + length msgs < sendCap"
  shows "\<exists>t l'. finish_auth srv c e uid ttl (s, l) = Returns (t, l')
     \<and> ch_buf (chanH t c) = ch_buf (chanH s c) @ map (undelivered_frame uid) msgs @ [marshal (authed_payload uid)]"
proof -
  obtain r s1 where new: "new_client uid c s = (r, s1)" by fastforce
  let ?s2 = "registerOnline uid r s1"
  have s2: "gw_trace ?s2 = gw_trace s" "onlineUsers ?s2 uid = Some r" "c_Send (clientH ?s2 r) = c" "chanH ?s2 = chanH s"
    using new by (auto simp: new_client_def registerOnline_def)
  obtain t where t: "pushUndelivered srv uid ?s2 = Returns t" "\<not> ch_closed (chanH t c)"
      "ch_buf (chanH t c) = ch_buf (chanH s c) @ map (undelivered_frame uid) msgs"
    using push_appends [OF srv(1), of uid ?s2 msgs h r c] srv(2) s2 chan by auto
  let ?u = "redis_set_online srv uid ttl (UnixMilli (e_clk e 0)) t"
  have "chanH ?u = chanH t" by (simp add: redis_set_online_def log_call_def split: option.split)
  then show ?thesis
    using new t chan(2) by (simp add: finish_auth_def Let_def sendJSON_def send_nb_Returns Rooms.accept_def)
qed

text \<open>
  C22: a user with at most 200 undelivered messages gets all of them at login, in the order the store
  returns them and before the \<open>authed\<close> reply, each once, and afterwards none is undelivered, while
  those of other users are as they were: under the laws of the store, when the pull succeeds and the
  connection's channel has room for them.
\<close>

theorem login_pushes_all_pending:
  assumes "mongo_laws ms docs" "gs_Mongo srv = Some ms" "length (pending (docs (gw_trace s)) uid) \<le> 200"
    and "PullUndeliveredForUser ms uid (gw_trace s) = (Inr msgs, h)"
    and "\<not> ch_closed (chanH s c)" "length (ch_buf (chanH s c)) < 56"
  shows "\<exists>t l'. finish_auth srv c e uid ttl (s, l) = Returns (t, l')
     \<and> ch_buf (chanH t c) = ch_buf (chanH s c) @ map (undelivered_frame uid) msgs @ [marshal (authed_payload uid)]
     \<and> mset msgs = mset (pending (docs (gw_trace s)) uid)
     \<and> pending (docs h) uid = [] \<and> (\<forall>v. v = uid \<or> pending (docs h) v = pending (docs (gw_trace s)) v)"
proof -
  note pull = pull_success [OF assms(1,4)]
  have len: "length msgs = length (pending (docs (gw_trace s)) uid)" using pull(2) assms(3) by simp
  then have "mset msgs = mset (pending (docs (gw_trace s)) uid)"
    using pull(1) mset_subset_size [of "mset msgs" "mset (pending (docs (gw_trace s)) uid)"]
    by (auto simp: subset_mset.le_less)
  moreover have "length (ch_buf (chanH s c)) + length msgs < sendCap"
    using assms(3,6) len by (simp add: sendCap_def)
  ultimately show ?thesis
    using finish_auth_pushes [OF assms(2,4,5)] pull(3,4) by blast
qed

definition memo :: ChatMessage where
  "memo = \<lparr>cm_ID = ''1'', cm_From = ''b'', cm_To = ''a'', cm_RoomID = [], cm_Content = ''c'',
     cm_Timestamp = 0, cm_Delivered = False\<rparr>"

definition mem_srv :: "ChatMessage list \<Rightarrow> GatewayServer" where
  "mem_srv ds = dev_srv\<lparr>gs_Mongo := Some (mem_store ds)\<rparr>"

lemma matches_memo: "matches (undelivered_filter ''a'') memo"
  by (simp add: matches_undelivered memo_def)

lemma mem_pull:
  "PullUndeliveredForUser (mem_store (replicate (Suc n) memo)) ''a'' [] =
     (Inr (replicate (min 200 (Suc n)) memo),
      [CallMongoFind (undelivered_filter ''a'') \<lparr>fo_sortDesc = None, fo_limit = pullLimit\<rparr>,
       CallMongoUpdate (undelivered_filter ''a'')])"
  by (simp add: PullUndeliveredForUser_def mem_store_def mem_answer_def mem_docs_def Let_def decode_rows_app
      filter_replicate matches_memo pullLimit_def del: replicate_Suc)

lemma mem_pending: "pending (mem_docs (replicate n memo) []) ''a'' = replicate n memo"
  by (simp add: pending_def mem_docs_def filter_replicate matches_memo)

theorem login_pushes_all_pending_witness:
  "\<exists>t l'. finish_auth (mem_srv [memo]) 0 env0 ''a'' 0 (empty_gw, init_local) = Returns (t, l')
     \<and> ch_buf (chanH t 0) = ch_buf (chanH empty_gw 0) @ map (undelivered_frame ''a'') [memo] @ [marshal (authed_payload ''a'')]
     \<and> mset [memo] = mset (pending (mem_docs [memo] (gw_trace empty_gw)) ''a'')
     \<and> pending (mem_docs [memo] (snd (PullUndeliveredForUser (mem_store [memo]) ''a'' []))) ''a'' = []
     \<and> (\<forall>v. v = ''a'' \<or> pending (mem_docs [memo] (snd (PullUndeliveredForUser (mem_store [memo]) ''a'' []))) v
          = pending (mem_docs [memo] (gw_trace empty_gw)) v)"
  by (rule login_pushes_all_pending [OF mem_laws])
    (use mem_pull [of 0] mem_pending [of 1] in \<open>simp_all add: mem_srv_def dev_srv_def empty_gw_def make_chan_def\<close>)

text \<open>
  C24: a user with more than 200 undelivered messages loses the rest. One pull returns 200 of them
  and marks all of them delivered, so that the others are neither returned nor undelivered any more.
\<close>

theorem pull_loses_beyond_200:
  assumes "mongo_laws ms docs" "PullUndeliveredForUser ms uid h = (Inr msgs, h')"
    and "200 < length (pending (docs h) uid)"
  shows "length msgs = 200 \<and> pending (docs h') uid = []
     \<and> size (mset (pending (docs h) uid) - mset msgs) = length (pending (docs h) uid) - 200"
  using pull_success [OF assms(1,2)] assms(3) by (simp add: size_Diff_submset)

theorem pull_loses_beyond_200_witness:
  "length (replicate 200 memo) = 200
   \<and> pending (mem_docs (replicate 201 memo) (snd (PullUndeliveredForUser (mem_store (replicate 201 memo)) ''a'' []))) ''a'' = []
   \<and> size (mset (pending (mem_docs (replicate 201 memo) []) ''a'') - mset (replicate 200 memo))
       = length (pending (mem_docs (replicate 201 memo) []) ''a'') - 200"
proof (rule pull_loses_beyond_200 [OF mem_laws])
  show "PullUndeliveredForUser (mem_store (replicate 201 memo)) ''a'' [] =
      (Inr (replicate 200 memo), snd (PullUndeliveredForUser (mem_store (replicate 201 memo)) ''a'' []))"
    using mem_pull [of 200] by (simp del: replicate_Suc add: numeral_eq_Suc)
  show "200 < length (pending (mem_docs (replicate 201 memo) []) ''a'')"
    by (simp only: mem_pending length_replicate)
qed

section \<open>From sender to addressee\<close>


definition sender :: gw_state where
  "sender = dev_login ''b'' 0 empty_gw"

definition stored_run :: gw_state where
  "stored_run = run_save (mem_store []) 0 (private_message ''b'' (private_msg ''a'' ''c'') env0 False)
     (state_of (handle_private (mem_srv []) 0 env0 (private_msg ''a'' ''c'') (init_local\<lparr>me := Some 0\<rparr>) sender))"

lemma sender_private:
  "handle_private (mem_srv []) 0 env0 (private_msg ''a'' ''c'') (init_local\<lparr>me := Some 0\<rparr>) sender =
     Returns (state_of (handle_private (mem_srv []) 0 env0 (private_msg ''a'' ''c'') (init_local\<lparr>me := Some 0\<rparr>) sender))"
  "gw_trace (state_of (handle_private (mem_srv []) 0 env0 (private_msg ''a'' ''c'') (init_local\<lparr>me := Some 0\<rparr>) sender)) = []"
proof -
  have me: "me (init_local\<lparr>me := Some 0\<rparr>) = Some 0" by simp
  have closed: "\<not> ch_closed (chanH sender 0)" and offline: "getOnlineClient (m_To (private_msg ''a'' ''c'')) sender = None"
    and trace: "gw_trace sender = []"
    by (simp_all add: sender_def run_defs getOnlineClient_def private_msg_def)
  have none: "\<not> ch_closed (chanH sender (c_Send (clientH sender t)))"
    if "getOnlineClient (m_To (private_msg ''a'' ''c'')) sender = Some t" for t
    using that offline by simp
  obtain ch sv where eff: "handle_private (mem_srv []) 0 env0 (private_msg ''a'' ''c'') (init_local\<lparr>me := Some 0\<rparr>) sender =
      Returns (sender\<lparr>chanH := ch, saves := sv\<rparr>)"
    by (rule that [OF handle_private_effect [where m = "private_msg ''a'' ''c''", OF me closed none]])
  show "handle_private (mem_srv []) 0 env0 (private_msg ''a'' ''c'') (init_local\<lparr>me := Some 0\<rparr>) sender =
     Returns (state_of (handle_private (mem_srv []) 0 env0 (private_msg ''a'' ''c'') (init_local\<lparr>me := Some 0\<rparr>) sender))"
    unfolding eff by simp
  show "gw_trace (state_of (handle_private (mem_srv []) 0 env0 (private_msg ''a'' ''c'') (init_local\<lparr>me := Some 0\<rparr>) sender)) = []"
    unfolding eff by (simp add: trace)
qed

lemma stored_trace:
  "gw_trace stored_run = [CallMongoInsert (private_message ''b'' (private_msg ''a'' ''c'') env0 False)]"
  by (simp add: stored_run_def run_save_def SaveMessage_def with_ID_def Let_def sender_private(2) private_message_def)

lemma stored_pending:
  "pending (mem_docs [] (gw_trace stored_run)) ''a'' = [as_stored (private_message ''b'' (private_msg ''a'' ''c'') env0 False)]"
  unfolding stored_trace
  by (simp add: pending_def mem_docs_def matches_undelivered as_stored_def private_message_def private_msg_def)

lemma stored_pull:
  "PullUndeliveredForUser (mem_store []) ''a'' (gw_trace stored_run) =
     (Inr [as_stored (private_message ''b'' (private_msg ''a'' ''c'') env0 False)],
      snd (PullUndeliveredForUser (mem_store []) ''a'' (gw_trace stored_run)))"
  using stored_pending
  by (simp add: PullUndeliveredForUser_def mem_store_def mem_answer_def Let_def decode_rows_app pullLimit_def pending_def)


section \<open>History\<close>

text \<open>
  C36: a \<open>history\<close> message is answered with the newest messages of the room: under the laws of the
  store and when the query succeeds, the answer lists messages of that room only, newest first, as
  many as there are up to the limit (50 when the client gave none or a negative one), and none that
  is left out is newer than one that is listed.
\<close>

theorem history_is_newest_first:
  assumes "mongo_laws ms docs" "gs_Mongo srv = Some ms" "me l = Some r"
    and "QueryHistory ms (m_RoomID m) (effective_limit (m_Limit m)) (gw_trace s) = (Inr his, h)"
  shows "\<exists>ans. handle_history srv c m l s = sendJSON c (history_payload (slice_of ans)) (s\<lparr>gw_trace := h\<rparr>)
     \<and> (\<forall>a \<in> set ans. a \<in> set (docs (gw_trace s)) \<and> cm_RoomID a = m_RoomID m) \<and> newest_first ans
     \<and> length ans = min (nat (effective_limit (m_Limit m))) (length (filter (matches (room_filter (m_RoomID m))) (docs (gw_trace s))))
     \<and> (\<forall>x \<in># mset (filter (matches (room_filter (m_RoomID m))) (docs (gw_trace s))) - mset ans.
          \<forall>a \<in> set ans. cm_Timestamp x \<le> cm_Timestamp a)"
proof -
  have "0 < effective_limit (m_Limit m)" by (simp add: effective_limit_def)
  from history_success [OF assms(1) this assms(4)] obtain ans where
    his: "his = slice_of ans" and ans: "find_answer (room_filter (m_RoomID m))
      \<lparr>fo_sortDesc = Some ''timestamp'', fo_limit = effective_limit (m_Limit m)\<rparr> (docs (gw_trace s)) ans" by blast
  have "handle_history srv c m l s = sendJSON c (history_payload (slice_of ans)) (s\<lparr>gw_trace := h\<rparr>)"
    using assms(2-4) his by (simp add: handle_history_def load_history_def)
  then show ?thesis
    using ans find_answer_room [OF ans] by (auto simp: find_answer_def Let_def)
qed

definition room_note :: ChatMessage where
  "room_note = memo\<lparr>cm_RoomID := ''r'', cm_To := []\<rparr>"

theorem history_is_newest_first_witness:
  "\<exists>ans. handle_history (mem_srv [room_note]) 0 (join_msg ''r'') (init_local\<lparr>me := Some 0\<rparr>) sender
       = sendJSON 0 (history_payload (slice_of ans))
           (sender\<lparr>gw_trace := snd (QueryHistory (mem_store [room_note]) ''r'' 50 (gw_trace sender))\<rparr>)
     \<and> (\<forall>a \<in> set ans. a \<in> set (mem_docs [room_note] (gw_trace sender)) \<and> cm_RoomID a = m_RoomID (join_msg ''r'')) \<and> newest_first ans
     \<and> length ans = min (nat (effective_limit (m_Limit (join_msg ''r''))))
         (length (filter (matches (room_filter (m_RoomID (join_msg ''r'')))) (mem_docs [room_note] (gw_trace sender))))
     \<and> (\<forall>x \<in># mset (filter (matches (room_filter (m_RoomID (join_msg ''r'')))) (mem_docs [room_note] (gw_trace sender))) - mset ans.
          \<forall>a \<in> set ans. cm_Timestamp x \<le> cm_Timestamp a)"
  by (rule history_is_newest_first [OF mem_laws, where r = "0"
        and his = "slice_of (mem_answer (room_filter ''r'') \<lparr>fo_sortDesc = Some ''timestamp'', fo_limit = 50\<rparr> [room_note])"])
    (simp_all add: mem_srv_def QueryHistory_def mem_store_def Let_def decode_rows_app effective_limit_def
      join_msg_def zero_WSMsg_def mem_docs_def sender_def run_defs)

end
