(* ===== verification/JsonFuel.thy ===== *)
theory JsonFuel
  imports Json
begin

text \<open>
  The fuel of the parser is enough: whenever any amount of fuel gives a value, the amount that
  \<open>parse_json\<close> uses gives the same value. So a document that the model refuses is refused for its
  syntax or its depth, never because the recursion was cut off.
\<close>

section \<open>Every parser consumes input\<close>

lemma skip_ws_length: "length (skip_ws s) \<le> length s"
  by (simp add: skip_ws_def length_dropWhile_le)

lemma skip_ws_shorter: "skip_ws s = c # cs \<Longrightarrow> length cs < length s"
  using skip_ws_length [of s] by simp

lemma shorter_than_skipped: "length r < length (skip_ws s) \<Longrightarrow> length r < length s"
  using skip_ws_length [of s] by simp

lemma push_SomeE: "push w x = Some (t, rest) \<Longrightarrow> (\<And>t'. x = Some (t', rest) \<Longrightarrow> P) \<Longrightarrow> P"
  by (auto simp: push_def)

lemma parse_str_length: "parse_str s = Some (t, rest) \<Longrightarrow> length rest < length s"
proof (induction s arbitrary: t rest rule: length_induct)
  case (1 s)
  then have IH: "parse_str u = Some (t', rest) \<Longrightarrow> length u < length s \<Longrightarrow> length rest < length s" for u t'
    using less_trans by blast
  show ?case
  proof (cases s)
    case Nil
    then show ?thesis using 1(2) by simp
  next
    case (Cons c cs)
    show ?thesis
      using 1(2) Cons
      by (auto split: if_splits list.splits option.splits nat.splits elim!: push_SomeE) (drule IH, simp, simp)+
  qed
qed

lemma digits_split_length: "digits_split s = (ds, rest) \<Longrightarrow> length rest \<le> length s"
  by (auto simp: digits_split_def length_dropWhile_le)

lemma digits_split_shorter: "digits_split s = (ds, rest) \<Longrightarrow> ds \<noteq> [] \<Longrightarrow> length rest < length s"
  by (cases s) (auto simp: digits_split_def length_dropWhile_le le_imp_less_Suc split: if_splits)

lemma parse_frac_length: "parse_frac s = Some (f, rest) \<Longrightarrow> length rest \<le> length s"
  by (auto simp: parse_frac_def dest: digits_split_length split: list.splits if_splits prod.splits)

lemma parse_exp_length: "parse_exp s = Some (f, rest) \<Longrightarrow> length rest \<le> length s"
  by (auto simp: parse_exp_def Let_def dest: digits_split_length split: list.splits if_splits prod.splits)

lemma parse_int_part_length: "parse_int_part s = Some (i, rest) \<Longrightarrow> length rest < length s"
  by (auto simp: parse_int_part_def digits_split_def length_dropWhile_le le_imp_less_Suc
      split: list.splits if_splits)

lemma parse_num_length:
  assumes "parse_num s = Some (lit, rest)"
  shows "length rest < length s"
proof -
  obtain sg t where st: "(case s of c # cs \<Rightarrow> if c = CHR ''-'' then ([c], cs) else ([], s) | [] \<Rightarrow> ([], s)) = (sg, t)"
    by fastforce
  then have "length t \<le> length s" by (auto split: list.splits if_splits)
  moreover have "length rest < length t"
    using assms st
    by (auto simp: parse_num_def Let_def dest!: parse_int_part_length parse_frac_length parse_exp_length
        split: option.splits prod.splits)
  ultimately show ?thesis by simp
qed

lemma take_shorter: "take (Suc n) s = c # t \<Longrightarrow> length (drop (Suc n) s) < length s"
  by (cases s) auto

text \<open>The three mutually recursive parsers, by induction on the fuel.\<close>

lemma parse_length:
  "(\<forall>d s v rest. parse_value k d s = Some (v, rest) \<longrightarrow> length rest < length s)
   \<and> (\<forall>d s xs rest. parse_elems k d s = Some (xs, rest) \<longrightarrow> length rest < length s)
   \<and> (\<forall>d s fs rest. parse_fields k d s = Some (fs, rest) \<longrightarrow> length rest < length s)"
proof (induction k)
  case 0
  then show ?case by simp
next
  case (Suc k)
  have V: "parse_value k d s = Some (v, rest) \<Longrightarrow> length rest < length s"
    and E: "parse_elems k d s = Some (xs, rest) \<Longrightarrow> length rest < length s"
    and F: "parse_fields k d s = Some (fs, rest) \<Longrightarrow> length rest < length s" for d s v rest xs fs
    using Suc by blast+
  show ?case
  proof (intro conjI allI impI)
    fix d s v rest
    assume "parse_value (Suc k) d s = Some (v, rest)"
    then show "length rest < length s"
      by (auto simp del: take_Suc_Cons split: list.splits if_splits
          dest!: E F parse_str_length parse_num_length skip_ws_shorter)
  next
    fix d s xs rest
    assume "parse_elems (Suc k) d s = Some (xs, rest)"
    then show "length rest < length s"
      by (auto split: list.splits if_splits option.splits dest!: V E skip_ws_shorter shorter_than_skipped)
  next
    fix d s fs rest
    assume "parse_fields (Suc k) d s = Some (fs, rest)"
    then show "length rest < length s"
      by (auto split: list.splits if_splits option.splits dest!: V F parse_str_length skip_ws_shorter shorter_than_skipped)
  qed
qed

lemmas parse_value_length = parse_length [THEN conjunct1, rule_format]
lemmas parse_elems_length = parse_length [THEN conjunct2, THEN conjunct1, rule_format]
lemmas parse_fields_length = parse_length [THEN conjunct2, THEN conjunct2, rule_format]

section \<open>Enough fuel\<close>

text \<open>A value that some fuel finds is found with any fuel above a bound in the length of the input.\<close>

lemma parse_enough:
  "(\<forall>d s v rest K. parse_value k d s = Some (v, rest) \<longrightarrow> 2 * length s + 1 \<le> K \<longrightarrow> parse_value K d s = Some (v, rest))
   \<and> (\<forall>d s xs rest K. parse_elems k d s = Some (xs, rest) \<longrightarrow> 2 * length s + 2 \<le> K \<longrightarrow> parse_elems K d s = Some (xs, rest))
   \<and> (\<forall>d s fs rest K. parse_fields k d s = Some (fs, rest) \<longrightarrow> 2 * length s + 2 \<le> K \<longrightarrow> parse_fields K d s = Some (fs, rest))"
proof (induction k)
  case 0
  then show ?case by simp
next
  case (Suc k)
  have V: "parse_value k d s = Some (v, rest) \<Longrightarrow> 2 * length s + 1 \<le> K \<Longrightarrow> parse_value K d s = Some (v, rest)"
    and E: "parse_elems k d s = Some (xs, rest) \<Longrightarrow> 2 * length s + 2 \<le> K \<Longrightarrow> parse_elems K d s = Some (xs, rest)"
    and F: "parse_fields k d s = Some (fs, rest) \<Longrightarrow> 2 * length s + 2 \<le> K \<Longrightarrow> parse_fields K d s = Some (fs, rest)"
    for d s v rest xs fs K
    using Suc by blast+
  show ?case
  proof (intro conjI allI impI)
    fix d s v rest K
    assume p: "parse_value (Suc k) d s = Some (v, rest)" and K: "2 * length s + 1 \<le> K"
    obtain K' where K': "K = Suc K'" using K by (cases K) auto
    obtain c cs where s: "s = c # cs" using p by (cases s) auto
    consider (arr) "c = CHR ''[''" | (obj) "c = CHR ''{''" | (leaf) "c \<noteq> CHR ''[''" "c \<noteq> CHR ''{''" by blast
    then show "parse_value K d s = Some (v, rest)"
    proof cases
      case arr
      have "parse_elems K' (d - 1) (e # es) = Some (xs, q)"
        if "skip_ws cs = e # es" "parse_elems k (d - 1) (e # es) = Some (xs, q)" for e es xs q
        by (rule E [OF that(2)]) (use skip_ws_length [of cs] that(1) s K K' in simp)
      then show ?thesis using p arr unfolding K' s by (auto split: list.splits if_splits)
    next
      case obj
      have "parse_fields K' (d - 1) (e # es) = Some (fs, q)"
        if "skip_ws cs = e # es" "parse_fields k (d - 1) (e # es) = Some (fs, q)" for e es fs q
        by (rule F [OF that(2)]) (use skip_ws_length [of cs] that(1) s K K' in simp)
      then show ?thesis using p obj unfolding K' s by (auto split: list.splits if_splits)
    next
      case leaf
      then show ?thesis using p unfolding K' s by (simp only: parse_value.simps list.case if_False)
    qed
  next
    fix d s xs rest K
    assume p: "parse_elems (Suc k) d s = Some (xs, rest)" and K: "2 * length s + 2 \<le> K"
    obtain K' where K': "K = Suc K'" using K by (cases K) auto
    obtain x r where x: "parse_value k d s = Some (x, r)" using p by (auto split: option.splits)
    have "parse_value K' d s = Some (x, r)" by (rule V [OF x]) (use K K' in simp)
    moreover have "parse_elems K' d (skip_ws es) = Some (ys, q)"
      if "skip_ws r = e # es" "parse_elems k d (skip_ws es) = Some (ys, q)" for e es ys q
      by (rule E [OF that(2)])
        (use skip_ws_shorter [OF that(1)] skip_ws_length [of es] parse_value_length [OF x] K K' in simp)
    ultimately show "parse_elems K d s = Some (xs, rest)"
      using p x unfolding K' by (auto split: list.splits if_splits)
  next
    fix d s fs rest K
    assume p: "parse_fields (Suc k) d s = Some (fs, rest)" and K: "2 * length s + 2 \<le> K"
    obtain K' where K': "K = Suc K'" using K by (cases K) auto
    obtain cs key r1 r2 where s: "s = quote_char # cs" "parse_str cs = Some (key, r1)" "skip_ws r1 = CHR '':'' # r2"
      using p by (auto split: list.splits option.splits if_splits)
    obtain v r3 where v: "parse_value k d (skip_ws r2) = Some (v, r3)"
      using p s by (auto split: list.splits option.splits if_splits)
    have r2: "length (skip_ws r2) < length s"
      using skip_ws_length [of r2] skip_ws_shorter [OF s(3)] parse_str_length [OF s(2)] s(1) by simp
    have "parse_value K' d (skip_ws r2) = Some (v, r3)" by (rule V [OF v]) (use r2 K K' in simp)
    moreover have "parse_fields K' d (skip_ws es) = Some (ys, q)"
      if "skip_ws r3 = e # es" "parse_fields k d (skip_ws es) = Some (ys, q)" for e es ys q
      by (rule F [OF that(2)])
        (use skip_ws_shorter [OF that(1)] skip_ws_length [of es] parse_value_length [OF v] r2 K K' in simp)
    ultimately show "parse_fields K d s = Some (fs, rest)"
      using p s v unfolding K' by (auto split: list.splits if_splits)
  qed
qed

lemmas parse_value_enough = parse_enough [THEN conjunct1, rule_format]

text \<open>The fuel that the two decoders use finds whatever any fuel finds.\<close>

theorem parse_value_fuel:
  assumes "length s \<le> n"
  shows "parse_value (2 * n + 2) d s = Some (v, rest) \<longleftrightarrow> (\<exists>k. parse_value k d s = Some (v, rest))"
proof
  assume "\<exists>k. parse_value k d s = Some (v, rest)"
  then obtain k where "parse_value k d s = Some (v, rest)" ..
  then show "parse_value (2 * n + 2) d s = Some (v, rest)"
    by (rule parse_value_enough) (use assms in simp)
qed blast

corollary parse_json_fuel:
  "parse_json s = Some v \<longleftrightarrow> (\<exists>k rest. parse_value k max_depth (skip_ws s) = Some (v, rest) \<and> skip_ws rest = [])"
proof -
  have "parse_json s = Some v \<longleftrightarrow>
      (\<exists>rest. parse_value (2 * length s + 2) max_depth (skip_ws s) = Some (v, rest) \<and> skip_ws rest = [])"
    by (auto simp: parse_json_def simp del: parse_value.simps split: option.splits if_splits)
  also have "\<dots> \<longleftrightarrow> (\<exists>rest. (\<exists>k. parse_value k max_depth (skip_ws s) = Some (v, rest)) \<and> skip_ws rest = [])"
    by (simp only: parse_value_fuel [OF skip_ws_length])
  finally show ?thesis by blast
qed

end
