(* ===== verification/Http.thy ===== *)
theory Http
  imports Gateway
begin

text \<open>
  The part of \<open>net/http\<close> the REST handlers use: requests, the response writer, and handlers as
  functions on the exchange, the pair of the response written so far and the server's state. A
  handler that panics is recovered by the server, which drops the connection.
\<close>

section \<open>Requests\<close>

record upload =
  up_Filename :: string
  up_Size :: int
  up_Content :: bytes

text \<open>
  \<open>rq_Header\<close> is \<open>Header.Get\<close>: the first value under a canonical name, empty when there is none.
  \<open>rq_Multipart n\<close> is what \<open>ParseMultipartForm\<close> finds in the body when at most \<open>n\<close> bytes of it may be
  read: \<open>None\<close> is an error, else the first file of each form field.
\<close>

record http_request =
  rq_Method :: string
  rq_Path :: string
  rq_Header :: "string \<Rightarrow> string"
  rq_RemoteAddr :: string
  rq_Body :: bytes
  rq_Multipart :: "nat \<Rightarrow> (string \<Rightarrow> upload option) option"
  rq_Ctx :: "string \<Rightarrow> string option"

section \<open>The response writer\<close>

text \<open>
  The header map can be written until the status goes out; a second \<open>WriteHeader\<close> is ignored, and
  the first \<open>Write\<close> sends status 200 when none was sent.
\<close>

record writer =
  w_Header :: "string \<Rightarrow> string option"
  w_Sent :: "(int \<times> (string \<Rightarrow> string option)) option"
  w_Body :: bytes

definition new_writer :: writer where
  "new_writer = \<lparr>w_Header = Map.empty, w_Sent = None, w_Body = []\<rparr>"

definition SetHeader :: "string \<Rightarrow> string \<Rightarrow> writer \<Rightarrow> writer" where
  "SetHeader k v w = w\<lparr>w_Header := (w_Header w)(k \<mapsto> v)\<rparr>"

definition WriteHeader :: "int \<Rightarrow> writer \<Rightarrow> writer" where
  "WriteHeader status w = (if w_Sent w = None then w\<lparr>w_Sent := Some (status, w_Header w)\<rparr> else w)"

definition WriteBody :: "bytes \<Rightarrow> writer \<Rightarrow> writer" where
  "WriteBody bs w = (let w1 = WriteHeader 200 w in w1\<lparr>w_Body := w_Body w1 @ bs\<rparr>)"

definition w_status :: "writer \<Rightarrow> int option" where
  "w_status w = map_option fst (w_Sent w)"

definition sent_header :: "string \<Rightarrow> writer \<Rightarrow> string option" where
  "sent_header k w = (case w_Sent w of None \<Rightarrow> None | Some (_, hs) \<Rightarrow> hs k)"

text \<open>\<open>jsonResponse\<close> of \<open>api.go\<close>; the encoder ends the value with a newline.\<close>

definition jsonResponse :: "int \<Rightarrow> json \<Rightarrow> writer \<Rightarrow> writer" where
  "jsonResponse status v w =
     WriteBody (marshal v @ [CHR 0x0A]) (WriteHeader status (SetHeader ''Content-Type'' ''application/json'' w))"

section \<open>Exchanges and handlers\<close>

text \<open>
  The results of the file system calls of one request, and its readings of the clock and of the
  iteration orders.
\<close>

record web_env =
  we_clk :: "nat \<Rightarrow> time_ns"
  we_online :: "string list"
  we_rooms :: "string list"
  we_mkdir :: "go_error option"
  we_create :: "go_error option"
  we_copied :: "nat option"

record exchange =
  x_w :: writer
  x_gw :: gw_state
  x_files :: "string \<Rightarrow> bytes option"

type_synonym handler = "web_env \<Rightarrow> http_request \<Rightarrow> exchange \<Rightarrow> exchange go"

type_synonym middleware = "handler \<Rightarrow> handler"

definition reply :: "int \<Rightarrow> json \<Rightarrow> exchange \<Rightarrow> exchange" where
  "reply status v x = x\<lparr>x_w := jsonResponse status v (x_w x)\<rparr>"

definition error_reply :: "int \<Rightarrow> string \<Rightarrow> exchange \<Rightarrow> exchange" where
  "error_reply status msg x = reply status (json_map [(''ok'', JBool False), (''msg'', JStr msg)]) x"

definition MethodPost :: string where "MethodPost = ''POST''"
definition MethodGet :: string where "MethodGet = ''GET''"
definition MethodOptions :: string where "MethodOptions = ''OPTIONS''"

section \<open>Decoding a body\<close>

text \<open>\<open>json.NewDecoder(r.Body).Decode\<close> reads the first value and leaves the rest of the body alone.\<close>

definition decode_first :: "bytes \<Rightarrow> json option" where
  "decode_first s = map_option fst (parse_value (2 * length s + 2) max_depth (skip_ws s))"

text \<open>Two string fields of a struct, decoded as in \<open>decode_WSMsg\<close>, and one such field.\<close>

definition decode_key :: "string \<Rightarrow> string \<times> json \<Rightarrow> bool \<times> string \<Rightarrow> bool \<times> string" where
  "decode_key name kv st =
     (let (key, v) = kv; (bad, old) = st in
      if fold_key key = fold_key name then (let (e, s) = decode_string v old in (bad \<or> e, s)) else (bad, old))"

definition decode_struct1 :: "string \<Rightarrow> json \<Rightarrow> string option" where
  "decode_struct1 name v =
     (case v of
        JNull \<Rightarrow> Some []
      | JObj kvs \<Rightarrow> (case fold (decode_key name) kvs (False, []) of (bad, s) \<Rightarrow> if bad then None else Some s)
      | _ \<Rightarrow> None)"

definition decode_struct2 :: "string \<Rightarrow> string \<Rightarrow> json \<Rightarrow> (string \<times> string) option" where
  "decode_struct2 n1 n2 v =
     (case (decode_struct1 n1 v, decode_struct1 n2 v) of (Some a, Some b) \<Rightarrow> Some (a, b) | _ \<Rightarrow> None)"

definition decode_body1 :: "string \<Rightarrow> bytes \<Rightarrow> string option" where
  "decode_body1 name body = (case decode_first body of None \<Rightarrow> None | Some v \<Rightarrow> decode_struct1 name v)"

definition decode_body2 :: "string \<Rightarrow> string \<Rightarrow> bytes \<Rightarrow> (string \<times> string) option" where
  "decode_body2 n1 n2 body = (case decode_first body of None \<Rightarrow> None | Some v \<Rightarrow> decode_struct2 n1 n2 v)"

section \<open>Lemmas\<close>

lemma w_simps [simp]:
  "w_Sent (SetHeader k v w) = w_Sent w" "w_Body (SetHeader k v w) = w_Body w"
  "w_Header (SetHeader k v w) = (w_Header w)(k \<mapsto> v)"
  "w_Header (WriteHeader s w) = w_Header w" "w_Body (WriteHeader s w) = w_Body w"
  "w_Sent (WriteHeader s w) = (case w_Sent w of None \<Rightarrow> Some (s, w_Header w) | Some r \<Rightarrow> Some r)"
  by (auto simp: SetHeader_def WriteHeader_def split: option.split)

lemma jsonResponse_fresh:
  assumes "w_Sent w = None"
  shows "w_Sent (jsonResponse s v w) = Some (s, (w_Header w)(''Content-Type'' \<mapsto> ''application/json''))"
    and "w_Body (jsonResponse s v w) = w_Body w @ marshal v @ [CHR 0x0A]"
    and "w_status (jsonResponse s v w) = Some s"
  using assms by (simp_all add: jsonResponse_def WriteBody_def Let_def w_status_def)

lemma reply_frame [simp]:
  "x_gw (reply s v x) = x_gw x" "x_files (reply s v x) = x_files x"
  "x_w (reply s v x) = jsonResponse s v (x_w x)"
  by (simp_all add: reply_def)

lemma error_reply_frame [simp]:
  "x_gw (error_reply s msg x) = x_gw x" "x_files (error_reply s msg x) = x_files x"
  by (simp_all add: error_reply_def)

lemma error_reply_status:
  "w_Sent (x_w x) = None \<Longrightarrow> w_status (x_w (error_reply s msg x)) = Some s"
  by (simp add: error_reply_def jsonResponse_fresh)

end
