(* ===== verification/Decoded.thy ===== *)
theory Decoded
  imports Http
begin

text \<open>
  What the JSON decoder hands to the program. Whatever bytes a client sends, every string in a decoded
  value is valid UTF-8: the decoder replaces what is not. So names, passwords and tokens can be put into
  a protobuf message, and the text of a chat message is passed on unchanged.
\<close>

section \<open>UTF-8 of what is put together\<close>

lemma valid_utf8_append:
  assumes "valid_utf8 w" "valid_utf8 s"
  shows "valid_utf8 (w @ s)"
  using assms(1)
proof (induction w rule: valid_utf8.induct)
  case 1
  then show ?case by (simp add: assms(2))
next
  case (2 c cs)
  obtain n where n: "utf8_len (c # cs) = Suc n" "valid_utf8 (drop n cs)"
    using "2.prems" by (auto simp: valid_utf8.simps(2) split: nat.splits simp del: utf8_len.simps)
  have "n \<le> length cs" using utf8_len_bound [of "c # cs"] n(1) by simp
  moreover have "utf8_len (c # cs @ s) = Suc n"
    using utf8_len_append [of c cs s] n(1) by (simp del: utf8_len.simps)
  moreover have "valid_utf8 (drop n cs @ s)" using "2.IH" n by blast
  ultimately show ?case by (simp add: valid_utf8.simps(2) del: utf8_len.simps)
qed

lemma valid_utf8_rune:
  assumes "utf8_len (c # cs) = Suc n"
  shows "valid_utf8 (take (Suc n) (c # cs))"
  using utf8_len_take_append [OF assms, of "[]"] by (simp add: valid_utf8.simps(2) del: utf8_len.simps)

lemma valid_utf8_byte: "code c < 0x80 \<Longrightarrow> valid_utf8 [c]"
  by (simp add: valid_utf8.simps(2))

lemma valid_replacement: "valid_utf8 replacement_rune"
  by (simp add: replacement_rune_def valid_utf8.simps utf8_len2_def utf8_len3_def is_cont_def byte_in_def code_def)

lemma code_char_of: "n < 256 \<Longrightarrow> code (char_of n) = n"
  by (simp add: code_def)

lemma valid_rune3:
  assumes "a \<le> 15" "b < 64" "c < 64" "a = 0 \<longrightarrow> 32 \<le> b" "a = 13 \<longrightarrow> b \<le> 31"
  shows "valid_utf8 [char_of (0xE0 + a :: nat), char_of (0x80 + b :: nat), char_of (0x80 + c :: nat)]"
proof -
  have "utf8_len3 (char_of (0xE0 + a)) [char_of (0x80 + b), char_of (0x80 + c)] = 3"
    using assms by (auto simp: utf8_len3_def is_cont_def byte_in_def code_char_of)
  moreover have "utf8_len2 (char_of (0xE0 + a)) [char_of (0x80 + b), char_of (0x80 + c)] = 0"
    using assms by (simp add: utf8_len2_def byte_in_def code_char_of)
  ultimately show ?thesis using assms by (simp add: valid_utf8.simps code_char_of)
qed

lemma valid_rune4:
  assumes "a \<le> 4" "b < 64" "c < 64" "d < 64" "a = 0 \<longrightarrow> 16 \<le> b" "a = 4 \<longrightarrow> b \<le> 15"
  shows "valid_utf8 [char_of (0xF0 + a :: nat), char_of (0x80 + b :: nat), char_of (0x80 + c :: nat), char_of (0x80 + d :: nat)]"
proof -
  let ?s = "[char_of (0x80 + b), char_of (0x80 + c), char_of (0x80 + d)] :: string"
  have "utf8_len4 (char_of (0xF0 + a)) ?s = 4"
    using assms by (auto simp: utf8_len4_def is_cont_def byte_in_def code_char_of)
  moreover have "utf8_len2 (char_of (0xF0 + a)) ?s = 0" "utf8_len3 (char_of (0xF0 + a)) ?s = 0"
    using assms by (simp_all add: utf8_len2_def utf8_len3_def byte_in_def code_char_of)
  ultimately show ?thesis using assms by (simp add: valid_utf8.simps code_char_of)
qed

lemma valid_encode_rune:
  assumes "r < 0xD800 \<or> 0xE000 \<le> r" "r < 0x110000"
  shows "valid_utf8 (encode_rune r)"
proof -
  consider (one) "r < 0x80" | (two) "0x80 \<le> r" "r < 0x800" | (three) "0x800 \<le> r" "r < 0x10000" | (four) "0x10000 \<le> r"
    by linarith
  then show ?thesis
  proof cases
    case one
    then show ?thesis by (simp add: encode_rune_def valid_utf8_byte code_char_of)
  next
    case two
    then have "2 \<le> r div 64" "r div 64 \<le> 31" "r mod 64 \<le> 63" by linarith+
    then show ?thesis
      using two by (simp add: encode_rune_def valid_utf8.simps utf8_len2_def is_cont_def byte_in_def code_char_of)
  next
    case three
    have "r div 64 = 64 * (r div 4096) + r div 64 mod 64" using div_mult2_eq [of r 64 64] by simp
    then have "r div 4096 = 0 \<longrightarrow> 32 \<le> r div 64 mod 64" "r div 4096 = 13 \<longrightarrow> r div 64 mod 64 \<le> 31" "r div 4096 \<le> 15"
      using three assms(1) by linarith+
    then show ?thesis
      using three valid_rune3 [of "r div 4096" "r div 64 mod 64" "r mod 64"] by (simp add: encode_rune_def)
  next
    case four
    have "r div 4096 = 64 * (r div 262144) + r div 4096 mod 64" using div_mult2_eq [of r 4096 64] by simp
    then have "r div 262144 = 0 \<longrightarrow> 16 \<le> r div 4096 mod 64" "r div 262144 = 4 \<longrightarrow> r div 4096 mod 64 \<le> 15" "r div 262144 \<le> 4"
      using four assms(2) by linarith+
    then show ?thesis
      using four valid_rune4 [of "r div 262144" "r div 4096 mod 64" "r div 64 mod 64" "r mod 64"] by (simp add: encode_rune_def)
  qed
qed

section \<open>String literals and values\<close>

lemma hex_val_bound: "hex_val c = Some d \<Longrightarrow> d < 16"
  by (auto simp: hex_val_def is_digit_def code_def split: if_splits)

lemma hex4_bound: "hex4 s = Some r \<Longrightarrow> r < 0x10000"
  by (induction s rule: hex4.induct) (auto split: option.splits dest!: hex_val_bound)

lemma surrogate_pair_bounds:
  assumes "is_high_surrogate r" "low_half s = Some l"
  shows "0xE000 \<le> 0x10000 + (r - 0xD800) * 0x400 + (l - 0xDC00) \<and> 0x10000 + (r - 0xD800) * 0x400 + (l - 0xDC00) < 0x110000"
  using assms by (auto simp: is_high_surrogate_def is_low_surrogate_def low_half_def split: list.splits option.splits if_splits)

lemma simple_escape_ascii: "simple_escape e = Some x \<Longrightarrow> code x < 0x80"
  by (auto simp: simple_escape_def code_def split: if_splits)

lemma push_valid: "push w o' = Some (t, rest) \<Longrightarrow> valid_utf8 w \<Longrightarrow> (\<And>t'. o' = Some (t', rest) \<Longrightarrow> valid_utf8 t') \<Longrightarrow> valid_utf8 t"
  by (auto simp: push_def valid_utf8_append)

text \<open>A literal that goes on decodes to a valid piece in front of what the shorter rest decodes to.\<close>

lemma parse_str_piece:
  assumes "parse_str (c # cs) = Some (t, rest)" "c \<noteq> quote_char"
  shows "\<exists>w s t'. valid_utf8 w \<and> length s \<le> length cs \<and> parse_str s = Some (t', rest) \<and> t = w @ t'"
proof -
  have push: "\<exists>w s t'. valid_utf8 w \<and> length s \<le> length cs \<and> parse_str s = Some (t', rest) \<and> t = w @ t'"
    if "push w (parse_str s) = Some (t, rest)" "valid_utf8 w" "length s \<le> length cs" for w s
    using that by (auto simp: push_def)
  consider (esc) e es where "c = backslash" "cs = e # es" "e \<noteq> CHR ''u''" | (hex) es where "c = backslash" "cs = CHR ''u'' # es"
    | (byte) "c \<noteq> backslash" "code c < 0x80" | (rune) "c \<noteq> backslash" "\<not> code c < 0x80"
    using assms by (cases "c = backslash"; cases cs) auto
  then show ?thesis
  proof cases
    case esc
    then obtain x where "simple_escape e = Some x" "push [x] (parse_str es) = Some (t, rest)"
      using assms by (auto split: option.splits)
    then show ?thesis using push valid_utf8_byte [OF simple_escape_ascii] esc by simp
  next
    case hex
    then obtain r where r: "hex4 es = Some r" using assms by (auto split: option.splits)
    consider (pair) l where "is_high_surrogate r" "low_half (drop 4 es) = Some l" | (lone) "is_high_surrogate r" "low_half (drop 4 es) = None"
      | (low) "\<not> is_high_surrogate r" "is_low_surrogate r" | (plain) "\<not> is_high_surrogate r" "\<not> is_low_surrogate r"
      by fastforce
    then show ?thesis
    proof cases
      case pair
      then show ?thesis
        using assms hex r surrogate_pair_bounds [OF pair] by (intro push) (auto intro!: valid_encode_rune)
    next
      case plain
      then have "r < 0xD800 \<or> 0xE000 \<le> r" by (auto simp: is_high_surrogate_def is_low_surrogate_def)
      then show ?thesis
        using assms hex r plain hex4_bound [OF r] by (intro push) (auto intro!: valid_encode_rune)
    qed (use assms hex r push [OF _ valid_replacement, of "drop 4 es"] in auto)
  next
    case byte
    then show ?thesis using assms valid_utf8_byte by (intro push [of "[c]" cs]) (auto split: if_splits)
  next
    case rune
    then show ?thesis
      using assms push [OF _ valid_replacement] push [OF _ valid_utf8_rune]
      by (cases "utf8_len (c # cs)") (auto simp del: utf8_len.simps take_Suc_Cons split: if_splits)
  qed
qed

lemma parse_str_valid: "parse_str s = Some (t, rest) \<Longrightarrow> valid_utf8 t"
proof (induction "length s" arbitrary: s t rule: less_induct)
  case less
  show ?case
  proof (cases s)
    case Nil
    then show ?thesis using less.prems by simp
  next
    case (Cons c cs)
    show ?thesis
    proof (cases "c = quote_char")
      case True
      then show ?thesis using less.prems Cons by simp
    next
      case False
      then obtain w s' t' where "valid_utf8 w" "length s' \<le> length cs" "parse_str s' = Some (t', rest)" "t = w @ t'"
        using parse_str_piece less.prems Cons by metis
      then show ?thesis using less.hyps [of s' t'] Cons by (simp add: valid_utf8_append)
    qed
  qed
qed

fun text_json :: "json \<Rightarrow> bool" where
  "text_json (JStr s) = valid_utf8 s"
| "text_json (JArr xs) = list_all text_json xs"
| "text_json (JObj fs) = list_all (\<lambda>(k, v). text_json v) fs"
| "text_json v = True"

lemma parse_text:
  "(\<forall>d s v rest. parse_value k d s = Some (v, rest) \<longrightarrow> text_json v)
   \<and> (\<forall>d s xs rest. parse_elems k d s = Some (xs, rest) \<longrightarrow> list_all text_json xs)
   \<and> (\<forall>d s fs rest. parse_fields k d s = Some (fs, rest) \<longrightarrow> list_all (\<lambda>(k, v). text_json v) fs)"
proof (induction k)
  case 0
  then show ?case by simp
next
  case (Suc k)
  have V: "parse_value k d s = Some (v, rest) \<Longrightarrow> text_json v"
    and E: "parse_elems k d s = Some (xs, rest) \<Longrightarrow> list_all text_json xs"
    and F: "parse_fields k d s = Some (fs, rest) \<Longrightarrow> list_all (\<lambda>(k, v). text_json v) fs" for d s v rest xs fs
    using Suc by blast+
  show ?case
  proof (intro conjI allI impI)
    fix d s v rest
    assume "parse_value (Suc k) d s = Some (v, rest)"
    then show "text_json v"
      by (auto simp del: take_Suc_Cons split: list.splits if_splits dest: E F parse_str_valid)
  next
    fix d s xs rest
    assume "parse_elems (Suc k) d s = Some (xs, rest)"
    then show "list_all text_json xs"
      by (auto split: list.splits if_splits option.splits dest!: V E)
  next
    fix d s fs rest
    assume "parse_fields (Suc k) d s = Some (fs, rest)"
    then show "list_all (\<lambda>(k, v). text_json v) fs"
      by (auto split: list.splits if_splits option.splits dest!: V F)
  qed
qed

lemmas parse_value_text = parse_text [THEN conjunct1, rule_format]

section \<open>Messages and bodies\<close>

lemma decode_string_text: "text_json v \<Longrightarrow> valid_utf8 old \<Longrightarrow> decode_string v old = (e, s) \<Longrightarrow> valid_utf8 s"
  by (cases v) (auto simp: decode_string_def)

lemma decode_field_text:
  assumes "text_json v" "utf8_WSMsg m"
  shows "utf8_WSMsg (snd (decode_field (k, v) (b, m)))"
  using assms by (cases v) (auto simp: decode_field_def Let_def utf8_WSMsg_def decode_string_def split: prod.split)

lemma decode_fields_text:
  "list_all (\<lambda>(k, v). text_json v) kvs \<Longrightarrow> utf8_WSMsg (snd st) \<Longrightarrow> utf8_WSMsg (snd (fold decode_field kvs st))"
proof (induction kvs arbitrary: st)
  case (Cons kv kvs)
  then show ?case using decode_field_text [of "snd kv" "snd st" "fst kv" "fst st"] by (simp add: case_prod_unfold)
qed simp

lemma decode_WSMsg_text:
  assumes "decode_WSMsg v = Some m" "text_json v"
  shows "utf8_WSMsg m"
proof (cases v)
  case (JObj kvs)
  have "utf8_WSMsg (snd (False, zero_WSMsg))" by (simp add: utf8_WSMsg_def zero_WSMsg_def)
  then have "utf8_WSMsg (snd (fold decode_field kvs (False, zero_WSMsg)))" 
    using decode_fields_text [of kvs "(False, zero_WSMsg)"] assms(2) JObj by simp
  then show ?thesis using assms(1) JObj by (auto simp: decode_WSMsg_def split: prod.splits if_splits)
qed (use assms(1) in \<open>auto simp: decode_WSMsg_def utf8_WSMsg_def zero_WSMsg_def\<close>)

lemma unmarshal_text: "unmarshal_WSMsg data = Some m \<Longrightarrow> utf8_WSMsg m"
  by (auto simp: unmarshal_WSMsg_def parse_json_def simp del: parse_value.simps
      split: option.splits if_splits dest!: parse_value_text intro: decode_WSMsg_text)

text \<open>The limit of a decoded message fits \<open>int64\<close>.\<close>

definition int64 :: "int \<Rightarrow> bool" where
  "int64 i \<longleftrightarrow> - (2 ^ 63) \<le> i \<and> i < 2 ^ 63"

lemma decode_int64_range: "int64 old \<Longrightarrow> int64 (snd (decode_int64 v old))"
  by (auto simp: int64_def decode_int64_def parse_int64_def Let_def split: json.split option.split if_splits)

lemma decode_field_range: "int64 (m_Limit (snd st)) \<Longrightarrow> int64 (m_Limit (snd (decode_field kv st)))"
  using decode_int64_range [of "m_Limit (snd st)" "snd kv"] by (auto simp: decode_field_def Let_def split: prod.split)

lemma unmarshal_range:
  assumes "unmarshal_WSMsg data = Some m"
  shows "int64 (m_Limit m)"
proof -
  have fold: "int64 (m_Limit (snd st)) \<Longrightarrow> int64 (m_Limit (snd (fold decode_field kvs st)))" for kvs st
    by (induction kvs arbitrary: st) (simp_all add: decode_field_range)
  have zero: "int64 (m_Limit zero_WSMsg)" by (simp add: int64_def zero_WSMsg_def)
  obtain v where v: "decode_WSMsg v = Some m" using assms by (auto simp: unmarshal_WSMsg_def split: option.splits)
  show ?thesis
  proof (cases v)
    case (JObj kvs)
    then show ?thesis
      using v fold [of "(False, zero_WSMsg)" kvs] zero by (auto simp: decode_WSMsg_def split: prod.splits if_splits)
  qed (use v zero in \<open>auto simp: decode_WSMsg_def\<close>)
qed

text \<open>The two strings of a request body.\<close>

lemma decode_key_text: "text_json (snd kv) \<Longrightarrow> valid_utf8 (snd st) \<Longrightarrow> valid_utf8 (snd (decode_key name kv st))"
  by (cases "snd kv") (auto simp: decode_key_def decode_string_def Let_def split: prod.split)

lemma decode_struct1_text:
  assumes "decode_struct1 name v = Some s" "text_json v"
  shows "valid_utf8 s"
proof (cases v)
  case (JObj kvs)
  have "list_all (\<lambda>(k, v). text_json v) kvs \<Longrightarrow> valid_utf8 (snd st) \<Longrightarrow> valid_utf8 (snd (fold (decode_key name) kvs st))" for st
    by (induction kvs arbitrary: st) (simp_all add: case_prod_unfold decode_key_text)
  from this [of "(False, [])"] show ?thesis
    using assms JObj by (auto simp: decode_struct1_def split: prod.splits if_splits)
qed (use assms(1) in \<open>auto simp: decode_struct1_def\<close>)

lemma decode_body2_text:
  assumes "decode_body2 n1 n2 body = Some (a, b)"
  shows "valid_utf8 a \<and> valid_utf8 b"
proof -
  obtain v rest where "parse_value (2 * length body + 2) max_depth (skip_ws body) = Some (v, rest)" "decode_struct2 n1 n2 v = Some (a, b)"
    using assms by (auto simp: decode_body2_def decode_first_def simp del: parse_value.simps split: option.splits)
  then show ?thesis
    using decode_struct1_text parse_value_text by (fastforce simp: decode_struct2_def split: option.splits)
qed

end
