(* ===== verification/WireProperties.thy ===== *)
theory WireProperties
  imports RoomProperties JsonFuel Decoded
begin

text \<open>
  Properties of the messages on the wire: what a client sends is what the handler reads, and what the
  handler sends can be read back field by field.
\<close>

section \<open>Client to server\<close>

text \<open>
  A well-formed client message survives the wire: the JSON text that encodes it, with the empty
  optional fields left out, is read back as the same message, for any UTF-8 strings and any limit
  that fits \<open>int64\<close>.
\<close>

theorem client_message_roundtrip:
  assumes "utf8_WSMsg m" "- (2 ^ 63) \<le> m_Limit m" "m_Limit m < 2 ^ 63"
  shows "unmarshal_WSMsg (marshal (WSMsg_json m)) = Some m"
  using assms by (rule unmarshal_marshal_WSMsg)

theorem client_message_roundtrip_witness:
  "unmarshal_WSMsg (marshal (WSMsg_json (private_msg ''a'' ''b''))) = Some (private_msg ''a'' ''b'')"
  by (rule client_message_roundtrip) (simp_all add: private_msg_def zero_WSMsg_def utf8_WSMsg_def)

section \<open>Server to client\<close>

text \<open>
  What a member of a room or the addressee of a private message receives is a JSON object whose
  fields are the sender's user ID, the room or addressee, the time in milliseconds and the text as
  the sender sent it, whatever characters these contain; only bytes that are no UTF-8 are replaced.
\<close>

theorem frames_can_be_read:
  "(\<exists>fs. parse_json (message_frame uid m e) = Some (JObj fs) \<and> map_of fs ''type'' = Some (JStr ''message'')
       \<and> map_of fs ''from'' = Some (JStr (to_utf8 uid)) \<and> map_of fs ''room'' = Some (JStr (to_utf8 (m_RoomID m)))
       \<and> map_of fs ''ts'' = Some (JInt (UnixMilli (e_clk e 0))) \<and> map_of fs ''msg'' = Some (JStr (to_utf8 (m_Content m))))
   \<and> (\<exists>fs. parse_json (private_frame uid m e) = Some (JObj fs) \<and> map_of fs ''type'' = Some (JStr ''private'')
       \<and> map_of fs ''from'' = Some (JStr (to_utf8 uid)) \<and> map_of fs ''to'' = Some (JStr (to_utf8 (m_To m)))
       \<and> map_of fs ''ts'' = Some (JInt (UnixMilli (e_clk e 0))) \<and> map_of fs ''msg'' = Some (JStr (to_utf8 (m_Content m))))"
proof
  obtain fs where fs: "parse_json (message_frame uid m e) = Some (JObj fs)"
    "map_of fs = map_option clean \<circ> map_of [(''type'', JStr ''message''), (''from'', JStr uid), (''room'', JStr (m_RoomID m)),
      (''ts'', JInt (UnixMilli (e_clk e 0))), (''msg'', JStr (m_Content m))]"
    using message_read_back unfolding message_frame_def by blast
  then show "\<exists>fs. parse_json (message_frame uid m e) = Some (JObj fs) \<and> map_of fs ''type'' = Some (JStr ''message'')
       \<and> map_of fs ''from'' = Some (JStr (to_utf8 uid)) \<and> map_of fs ''room'' = Some (JStr (to_utf8 (m_RoomID m)))
       \<and> map_of fs ''ts'' = Some (JInt (UnixMilli (e_clk e 0))) \<and> map_of fs ''msg'' = Some (JStr (to_utf8 (m_Content m)))"
    by (intro exI [of _ fs]) simp
next
  obtain fs where fs: "parse_json (private_frame uid m e) = Some (JObj fs)"
    "map_of fs = map_option clean \<circ> map_of [(''type'', JStr ''private''), (''from'', JStr uid), (''to'', JStr (m_To m)),
      (''ts'', JInt (UnixMilli (e_clk e 0))), (''msg'', JStr (m_Content m))]"
    using private_read_back unfolding private_frame_def by blast
  then show "\<exists>fs. parse_json (private_frame uid m e) = Some (JObj fs) \<and> map_of fs ''type'' = Some (JStr ''private'')
       \<and> map_of fs ''from'' = Some (JStr (to_utf8 uid)) \<and> map_of fs ''to'' = Some (JStr (to_utf8 (m_To m)))
       \<and> map_of fs ''ts'' = Some (JInt (UnixMilli (e_clk e 0))) \<and> map_of fs ''msg'' = Some (JStr (to_utf8 (m_Content m)))"
    by (intro exI [of _ fs]) simp
qed

text \<open>
  C39: the text of a message arrives as it was read. Whatever bytes a client sends, when they decode to a
  message then that message encodes to a frame that decodes to the same message, and the frame that
  the members of its room, or its addressee, receive holds exactly the room or addressee and the text
  that were decoded: nothing is replaced or cut on the way.
\<close>

theorem text_survives_the_gateway:
  assumes "unmarshal_WSMsg data = Some m"
  shows "unmarshal_WSMsg (marshal (WSMsg_json m)) = Some m
     \<and> (\<exists>fs. parse_json (message_frame uid m e) = Some (JObj fs)
          \<and> map_of fs ''room'' = Some (JStr (m_RoomID m)) \<and> map_of fs ''msg'' = Some (JStr (m_Content m)))
     \<and> (\<exists>fs. parse_json (private_frame uid m e) = Some (JObj fs)
          \<and> map_of fs ''to'' = Some (JStr (m_To m)) \<and> map_of fs ''msg'' = Some (JStr (m_Content m)))"
proof -
  have utf8: "utf8_WSMsg m" and range: "int64 (m_Limit m)"
    using assms by (rule unmarshal_text, rule unmarshal_range)
  then have "unmarshal_WSMsg (marshal (WSMsg_json m)) = Some m"
    by (simp add: unmarshal_marshal_WSMsg int64_def)
  moreover have "to_utf8 (m_RoomID m) = m_RoomID m" "to_utf8 (m_To m) = m_To m" "to_utf8 (m_Content m) = m_Content m"
    using utf8 by (simp_all add: utf8_WSMsg_def)
  ultimately show ?thesis using frames_can_be_read [of uid m e] by auto
qed

theorem text_survives_the_gateway_witness:
  "\<exists>fs. parse_json (message_frame ''1'' (private_msg ''a'' ''b'') env0) = Some (JObj fs)
     \<and> map_of fs ''room'' = Some (JStr (m_RoomID (private_msg ''a'' ''b''))) \<and> map_of fs ''msg'' = Some (JStr (m_Content (private_msg ''a'' ''b'')))"
proof -
  have "unmarshal_WSMsg (marshal (WSMsg_json (private_msg ''a'' ''b''))) = Some (private_msg ''a'' ''b'')"
    by (rule unmarshal_marshal_WSMsg) (simp_all add: private_msg_def zero_WSMsg_def utf8_WSMsg_def)
  from text_survives_the_gateway [OF this] show ?thesis by blast
qed


text \<open>
  History messages have other field names than live ones. A stored message has no JSON tags, so
  its object has \<open>From\<close>, \<open>Content\<close> and \<open>Timestamp\<close> but no \<open>from\<close>, \<open>content\<close> or \<open>timestamp\<close>, the names the
  web client reads; and a history without messages is \<open>null\<close>, not an array, except in a \<open>joined\<close> reply
  without a store.
\<close>

theorem history_field_names:
  "(case ChatMessage_json cm of
      None \<Rightarrow> time_text (cm_Timestamp cm) = None
    | Some j \<Rightarrow> \<exists>kvs. j = JObj kvs \<and> map_of kvs ''From'' = Some (JStr (cm_From cm)) \<and> map_of kvs ''Content'' = Some (JStr (cm_Content cm))
        \<and> map_of kvs ''from'' = None \<and> map_of kvs ''content'' = None \<and> map_of kvs ''timestamp'' = None)
   \<and> history_json (slice_of []) = Some JNull"
  by (simp add: ChatMessage_json_def slice_of_def split: option.split)

end
