(* ===== verification/AuthService.thy ===== *)
theory AuthService
  imports Services
begin

text \<open>
  \<open>internal/auth/service.go\<close>: the auth service. Its \<open>users\<close> table, \<open>bcrypt\<close> and the JWT library are
  not part of the repository and are parameters; the service's calls to MySQL and Redis are kept
  in a trace of its own, and a reply may depend on it.
\<close>

section \<open>Parameters\<close>

datatype auth_call =
    CallInsertUser string string
  | CallSelectUser string
  | CallSetOnline string string time_ns

type_synonym auth_trace = "auth_call list"

text \<open>An error of \<open>database/sql\<close>: a \<open>*mysql.MySQLError\<close> with its number, or another one.\<close>

datatype sql_error = MySQLError nat string | OtherError string

fun sql_error_text :: "sql_error \<Rightarrow> string" where
  "sql_error_text (MySQLError n msg) = ''Error '' @ show_nat n @ '': '' @ msg"
| "sql_error_text (OtherError msg) = msg"

record AccountDB =
  ad_Insert :: "auth_trace \<Rightarrow> string \<Rightarrow> string \<Rightarrow> sql_error option"
  ad_Select :: "auth_trace \<Rightarrow> string \<Rightarrow> sql_error + string \<times> string \<times> string"

text \<open>
  \<open>bcrypt\<close>: the first argument of \<open>bc_Generate\<close> is the random salt; \<open>bc_Compare h p\<close> says whether
  \<open>CompareHashAndPassword\<close> returns nil.
\<close>

record Bcrypt =
  bc_Generate :: "nat \<Rightarrow> bytes \<Rightarrow> go_error + bytes"
  bc_Compare :: "bytes \<Rightarrow> bytes \<Rightarrow> bool"

text \<open>The claims of a token; \<open>jwt.NewNumericDate\<close> keeps whole seconds.\<close>

record Claims =
  cl_UserID :: string
  cl_Role :: string
  cl_Issuer :: string
  cl_Subject :: string
  cl_ExpiresAt :: int
  cl_IssuedAt :: int

datatype signing_method = HMAC string | OtherMethod string

record jwt_token =
  tk_Claims :: Claims
  tk_Valid :: bool

text \<open>
  The JWT library. \<open>jl_Parse\<close> is \<open>ParseWithClaims\<close> at an instant, with the key function it calls on
  the signing method named in the token's header (\<open>None\<close> is an error of that function).
\<close>

record JWTLib =
  jl_Sign :: "signing_method \<Rightarrow> bytes \<Rightarrow> Claims \<Rightarrow> go_error + string"
  jl_Parse :: "time_ns \<Rightarrow> (signing_method \<Rightarrow> bytes option) \<Rightarrow> string \<Rightarrow> go_error + jwt_token"

definition NumericDate :: "time_ns \<Rightarrow> int" where
  "NumericDate t = t div 1000000000"

definition HS256 :: signing_method where
  "HS256 = HMAC ''HS256''"

section \<open>The service\<close>

record AuthService =
  as_DB :: AccountDB
  as_Bcrypt :: Bcrypt
  as_JWT :: JWTLib
  as_JWTSecret :: bytes

datatype rpc_error = RpcInternal string | RpcUnimplemented string

text \<open>The key function of the two parsers: only HMAC methods get the secret.\<close>

definition hmac_key :: "bytes \<Rightarrow> signing_method \<Rightarrow> bytes option" where
  "hmac_key secret m = (case m of HMAC _ \<Rightarrow> Some secret | OtherMethod _ \<Rightarrow> None)"

definition hashPassword :: "AuthService \<Rightarrow> nat \<Rightarrow> bytes \<Rightarrow> go_error + bytes" where
  "hashPassword svc salt pw = bc_Generate (as_Bcrypt svc) salt pw"

definition checkPassword :: "AuthService \<Rightarrow> bytes \<Rightarrow> bytes \<Rightarrow> bool" where
  "checkPassword svc hash pw = bc_Compare (as_Bcrypt svc) hash pw"

definition register_reply :: "bool \<Rightarrow> string \<Rightarrow> rpc_error + RegisterResponse" where
  "register_reply ok msg = Inr \<lparr>rr_Success = ok, rr_Message = msg\<rparr>"

definition Register ::
    "AuthService \<Rightarrow> nat \<Rightarrow> string \<Rightarrow> bytes \<Rightarrow> auth_trace \<Rightarrow> (rpc_error + RegisterResponse) \<times> auth_trace" where
  "Register svc salt username password h =
     (if length username < 2 \<or> 32 < length username then
        (register_reply False ''username must be 2-32 characters'', h)
      else if length password < 6 \<or> 72 < length password then
        (register_reply False ''password must be 6-72 characters'', h)
      else
        (case hashPassword svc salt password of
           Inl e \<Rightarrow> (Inl (RpcInternal ''failed to hash password''), h)
         | Inr hashed \<Rightarrow>
             (let h1 = h @ [CallInsertUser username hashed] in
              case ad_Insert (as_DB svc) h username hashed of
                None \<Rightarrow> (register_reply True ''Registration successful'', h1)
              | Some (MySQLError n msg) \<Rightarrow>
                  (if n = 1062 then (register_reply False ''username already exists'', h1)
                   else (Inl (RpcInternal (''database error: '' @ sql_error_text (MySQLError n msg))), h1))
              | Some (OtherError msg) \<Rightarrow>
                  (Inl (RpcInternal (''database error: '' @ sql_error_text (OtherError msg))), h1))))"

definition login_failed :: "string \<Rightarrow> rpc_error + LoginResponse" where
  "login_failed msg = Inr \<lparr>lr_Success = False, lr_Token = [], lr_Message = msg\<rparr>"

definition tokenTTL :: time_ns where
  "tokenTTL = 24 * 3600 * 1000000000"

text \<open>The claims of a new token; the two readings of the clock are its arguments.\<close>

definition login_claims :: "string \<Rightarrow> string \<Rightarrow> time_ns \<Rightarrow> time_ns \<Rightarrow> Claims" where
  "login_claims uid role now1 now2 =
     \<lparr>cl_UserID = uid, cl_Role = role, cl_Issuer = ''gochatx-auth'', cl_Subject = uid,
      cl_ExpiresAt = NumericDate (now1 + tokenTTL), cl_IssuedAt = NumericDate now2\<rparr>"

definition Login ::
    "AuthService \<Rightarrow> time_ns \<Rightarrow> time_ns \<Rightarrow> string \<Rightarrow> bytes \<Rightarrow> auth_trace \<Rightarrow> (rpc_error + LoginResponse) \<times> auth_trace" where
  "Login svc now1 now2 username password h =
     (if username = [] \<or> password = [] then (login_failed ''username and password required'', h)
      else
        (let h1 = h @ [CallSelectUser username] in
         case ad_Select (as_DB svc) h username of
           Inl e \<Rightarrow> (login_failed ''user not found'', h1)
         | Inr (uid, pw, role) \<Rightarrow>
             (if \<not> checkPassword svc pw password then (login_failed ''incorrect password'', h1)
              else
                (case jl_Sign (as_JWT svc) HS256 (as_JWTSecret svc) (login_claims uid role now1 now2) of
                   Inl e \<Rightarrow> (Inl (RpcInternal ''failed to sign token''), h1)
                 | Inr tok \<Rightarrow>
                     (Inr \<lparr>lr_Success = True, lr_Token = tok, lr_Message = ''Login successful''\<rparr>,
                      h1 @ [CallSetOnline (''user:'' @ uid @ '':online'') ''true'' tokenTTL])))))"

definition ParseToken :: "AuthService \<Rightarrow> time_ns \<Rightarrow> string \<Rightarrow> go_error + Claims" where
  "ParseToken svc now tok =
     (case jl_Parse (as_JWT svc) now (hmac_key (as_JWTSecret svc)) tok of
        Inl e \<Rightarrow> Inl e
      | Inr t \<Rightarrow> (if tk_Valid t then Inr (tk_Claims t) else Inl ''invalid token''))"

definition Validate :: "AuthService \<Rightarrow> time_ns \<Rightarrow> string \<Rightarrow> rpc_error + TokenResponse" where
  "Validate svc now tok =
     (case jl_Parse (as_JWT svc) now (hmac_key (as_JWTSecret svc)) tok of
        Inl e \<Rightarrow> Inr \<lparr>tr_Valid = False, tr_UserId = []\<rparr>
      | Inr t \<Rightarrow>
          (if tk_Valid t then Inr \<lparr>tr_Valid = True, tr_UserId = cl_UserID (tk_Claims t)\<rparr>
           else Inr \<lparr>tr_Valid = False, tr_UserId = []\<rparr>))"

section \<open>What the libraries promise\<close>

text \<open>
  \<open>bcrypt\<close> hashes a password of at most 72 bytes, and a hash matches the password it came from.
\<close>

definition bcrypt_laws :: "Bcrypt \<Rightarrow> bool" where
  "bcrypt_laws b \<longleftrightarrow>
     (\<forall>salt pw. length pw \<le> 72 \<longrightarrow> (\<exists>hash. bc_Generate b salt pw = Inr hash \<and> bc_Compare b hash pw))"

text \<open>
  JWT: a token signed with a key parses, while it has not expired, to the signed claims whenever
  the key function returns that key for its method. A token that parses as valid has not expired,
  and it was signed, with a key that the key function returned for the method of its header.
\<close>

definition jwt_laws :: "JWTLib \<Rightarrow> bool" where
  "jwt_laws j \<longleftrightarrow>
     (\<forall>m key cl tok now kf. jl_Sign j m key cl = Inr tok \<longrightarrow> kf m = Some key \<longrightarrow> now < cl_ExpiresAt cl * 1000000000
        \<longrightarrow> jl_Parse j now kf tok = Inr \<lparr>tk_Claims = cl, tk_Valid = True\<rparr>)
   \<and> (\<forall>now kf tok t. jl_Parse j now kf tok = Inr t \<longrightarrow> tk_Valid t \<longrightarrow>
        now < cl_ExpiresAt (tk_Claims t) * 1000000000
      \<and> (\<exists>m key. kf m = Some key \<and> jl_Sign j m key (tk_Claims t) = Inr tok))"

text \<open>
  The \<open>users\<close> table, as the names, ids and password hashes it holds after a trace (the role is left
  out: the admin endpoints of the gateway change it). Names are compared by the collation of the
  column, an equivalence \<open>same\<close> that need not be equality: under \<open>utf8mb4_unicode_ci\<close> it ignores case.
  An insert that succeeds adds a row under a new name and a new id; a refused one and the other calls
  change nothing; a select that succeeds returns the columns of a row of such a name.
\<close>

type_synonym account_rows = "auth_trace \<Rightarrow> (string \<times> string \<times> string) set"

type_synonym collation = "string \<Rightarrow> string \<Rightarrow> bool"

definition accounts_laws :: "collation \<Rightarrow> AccountDB \<Rightarrow> account_rows \<Rightarrow> bool" where
  "accounts_laws same db rows \<longleftrightarrow>
     equivp same
   \<and> (\<forall>h u p. ad_Insert db h u p = None \<longrightarrow>
        (\<forall>v i q. same u v \<longrightarrow> (v, i, q) \<notin> rows h)
      \<and> (\<exists>i. (\<forall>v q. (v, i, q) \<notin> rows h) \<and> rows (h @ [CallInsertUser u p]) = insert (u, i, p) (rows h)))
   \<and> (\<forall>h u p. ad_Insert db h u p \<noteq> None \<longrightarrow> rows (h @ [CallInsertUser u p]) = rows h)
   \<and> (\<forall>h c. (\<forall>u p. c \<noteq> CallInsertUser u p) \<longrightarrow> rows (h @ [c]) = rows h)
   \<and> (\<forall>h u i p r. ad_Select db h u = Inr (i, p, r) \<longrightarrow> (\<exists>v. same u v \<and> (v, i, p) \<in> rows h))"

lemma accounts_lawsD:
  assumes "accounts_laws same db rows"
  shows "ad_Insert db h u p = None \<Longrightarrow> same u v \<Longrightarrow> (v, i, q) \<notin> rows h"
    and "ad_Insert db h u p = None \<Longrightarrow>
      \<exists>i. (\<forall>v q. (v, i, q) \<notin> rows h) \<and> rows (h @ [CallInsertUser u p]) = insert (u, i, p) (rows h)"
    and "ad_Insert db h u p \<noteq> None \<Longrightarrow> rows (h @ [CallInsertUser u p]) = rows h"
    and "(\<And>u p. c \<noteq> CallInsertUser u p) \<Longrightarrow> rows (h @ [c]) = rows h"
    and "ad_Select db h u = Inr (i, p, r) \<Longrightarrow> \<exists>v. same u v \<and> (v, i, p) \<in> rows h"
    and "equivp same"
proof -
  note laws = assms [unfolded accounts_laws_def]
  note inserted = laws [THEN conjunct2, THEN conjunct1, rule_format]
  note others = laws [THEN conjunct2, THEN conjunct2]
  show "ad_Insert db h u p = None \<Longrightarrow> same u v \<Longrightarrow> (v, i, q) \<notin> rows h"
    by (rule inserted [THEN conjunct1, rule_format])
  show "ad_Insert db h u p = None \<Longrightarrow>
      \<exists>i. (\<forall>v q. (v, i, q) \<notin> rows h) \<and> rows (h @ [CallInsertUser u p]) = insert (u, i, p) (rows h)"
    by (rule inserted [THEN conjunct2])
  show "ad_Insert db h u p \<noteq> None \<Longrightarrow> rows (h @ [CallInsertUser u p]) = rows h"
    by (rule others [THEN conjunct1, rule_format])
  show "(\<And>u p. c \<noteq> CallInsertUser u p) \<Longrightarrow> rows (h @ [c]) = rows h"
    using others [THEN conjunct2, THEN conjunct1] by blast
  show "ad_Select db h u = Inr (i, p, r) \<Longrightarrow> \<exists>v. same u v \<and> (v, i, p) \<in> rows h"
    by (rule others [THEN conjunct2, THEN conjunct2, rule_format])
  show "equivp same" by (rule laws [THEN conjunct1])
qed

text \<open>The id and the hash of a name, the ones it registered with, in every later state of the table.\<close>

definition sole_row :: "collation \<Rightarrow> string \<Rightarrow> string \<Rightarrow> string \<Rightarrow> (string \<times> string \<times> string) set \<Rightarrow> bool" where
  "sole_row same u i hash rs \<longleftrightarrow> (u, i, hash) \<in> rs \<and> (\<forall>v j q. same u v \<longrightarrow> (v, j, q) \<in> rs \<longrightarrow> j = i \<and> q = hash)"

lemma sole_row_insert:
  assumes "accounts_laws same db rows" "ad_Insert db h u hash = None"
  shows "\<exists>i. sole_row same u i hash (rows (h @ [CallInsertUser u hash]))"
  using accounts_lawsD(2) [OF assms] accounts_lawsD(1) [OF assms] by (fastforce simp: sole_row_def)

lemma sole_row_step:
  assumes laws: "accounts_laws same db rows" and sole: "sole_row same u i hash (rows h)"
  shows "sole_row same u i hash (rows (h @ [c]))"
proof (cases "\<exists>v p. c = CallInsertUser v p \<and> ad_Insert db h v p = None")
  case True
  then obtain v p where c: "c = CallInsertUser v p" "ad_Insert db h v p = None" by blast
  have "\<not> same u v"
    using sole accounts_lawsD(1) [OF laws c(2), of u] equivp_symp [OF accounts_lawsD(6) [OF laws], of u v]
    by (auto simp: sole_row_def)
  then show ?thesis
    using accounts_lawsD(2) [OF laws c(2)] sole c(1) by (auto simp: sole_row_def)
next
  case False
  then have "rows (h @ [c]) = rows h"
    using accounts_lawsD(3,4) [OF laws] by (cases c) auto
  then show ?thesis using sole by simp
qed

lemma sole_row_later:
  "accounts_laws same db rows \<Longrightarrow> sole_row same u i hash (rows h) \<Longrightarrow> sole_row same u i hash (rows (h @ cs))"
  by (induction cs rule: rev_induct) (auto simp flip: append_assoc intro: sole_row_step)

lemma sole_row_select:
  assumes laws: "accounts_laws same db rows" and "sole_row same u i hash (rows h)" "same u v"
    and "ad_Select db h v = Inr (j, q, role)"
  shows "j = i \<and> q = hash"
proof -
  obtain w where "same v w" "(w, j, q) \<in> rows h" using accounts_lawsD(5) [OF laws assms(4)] by blast
  moreover have "same u w" using equivp_transp [OF accounts_lawsD(6) [OF laws] assms(3) \<open>same v w\<close>] .
  ultimately show ?thesis using assms(2) by (auto simp: sole_row_def)
qed

section \<open>Lemmas\<close>

text \<open>Exactly the calls that \<open>Register\<close> and \<open>Login\<close> make.\<close>

lemma Register_trace:
  "snd (Register svc salt u pw h) = h
   \<or> (\<exists>hash. hashPassword svc salt pw = Inr hash \<and> snd (Register svc salt u pw h) = h @ [CallInsertUser u hash])"
  unfolding Register_def Let_def
  by (auto split: sum.split option.split sql_error.split)

lemma Register_success:
  "fst (Register svc salt u pw h) = Inr r \<Longrightarrow> rr_Success r \<Longrightarrow>
     2 \<le> length u \<and> length u \<le> 32 \<and> 6 \<le> length pw \<and> length pw \<le> 72
   \<and> (\<exists>hash. hashPassword svc salt pw = Inr hash \<and> ad_Insert (as_DB svc) h u hash = None
        \<and> snd (Register svc salt u pw h) = h @ [CallInsertUser u hash])"
  unfolding Register_def Let_def
  by (auto simp: register_reply_def split: sum.splits option.splits sql_error.splits if_splits)

lemma Login_success:
  "Login svc now1 now2 u pw h = (Inr r, h') \<Longrightarrow> lr_Success r \<Longrightarrow>
     \<exists>uid hash role. ad_Select (as_DB svc) h u = Inr (uid, hash, role) \<and> checkPassword svc hash pw
       \<and> jl_Sign (as_JWT svc) HS256 (as_JWTSecret svc) (login_claims uid role now1 now2) = Inr (lr_Token r)
       \<and> h' = h @ [CallSelectUser u, CallSetOnline (''user:'' @ uid @ '':online'') ''true'' tokenTTL]"
  unfolding Login_def Let_def
  by (auto simp: login_failed_def split: sum.splits if_splits prod.splits)

lemma Validate_iff:
  "Validate svc now tok = Inr r \<and> tr_Valid r \<longleftrightarrow>
     (\<exists>t. jl_Parse (as_JWT svc) now (hmac_key (as_JWTSecret svc)) tok = Inr t \<and> tk_Valid t
        \<and> r = \<lparr>tr_Valid = True, tr_UserId = cl_UserID (tk_Claims t)\<rparr>)"
  unfolding Validate_def by (auto split: sum.split)

lemma hmac_key_Some: "hmac_key secret m = Some key \<longleftrightarrow> key = secret \<and> (\<exists>alg. m = HMAC alg)"
  by (auto simp: hmac_key_def split: signing_method.split)

end
