(* ===== verification/Middleware.thy ===== *)
theory Middleware
  imports Http AuthService
begin

text \<open>
  \<open>internal/gateway/middleware.go\<close>: the sliding-window rate limiter over a Redis sorted set, the keys
  it is used with, the two token checks and the CORS headers. A middleware turns a handler into a
  handler.
\<close>

section \<open>The rate limiter\<close>

record RateLimiter =
  rl_Redis :: "RedisClient option"

definition NewRateLimiter :: "RedisClient option \<Rightarrow> RateLimiter" where
  "NewRateLimiter rdb = \<lparr>rl_Redis = rdb\<rparr>"

definition rlKey :: "string \<Rightarrow> string" where
  "rlKey key = ''ratelimit:'' @ key"

text \<open>\<open>window.Milliseconds()\<close> and \<open>int(window.Seconds())\<close> of a non-negative duration.\<close>

definition Milliseconds :: "time_ns \<Rightarrow> int" where
  "Milliseconds w = w div 1000000"

definition whole_seconds :: "time_ns \<Rightarrow> int" where
  "whole_seconds w = w div 1000000000"

text \<open>
  The decision on one request: the four commands are sent in one pipeline, and a request passes
  when Redis fails or when fewer than \<open>maxRequests\<close> were counted.
\<close>

definition limit_decision :: "RedisClient \<Rightarrow> string \<Rightarrow> int \<Rightarrow> time_ns \<Rightarrow> time_ns \<Rightarrow> trace \<Rightarrow> bool \<times> trace" where
  "limit_decision rd key maxRequests window t h =
     (let now = UnixMilli t;
          windowStart = now - Milliseconds window;
          h1 = h @ [CallRatePipe (rlKey key) windowStart now window]
      in case rd_RatePipe rd h (rlKey key) windowStart now window of
           Inl e \<Rightarrow> (True, h1)
         | Inr n \<Rightarrow> (\<not> maxRequests \<le> n, h1))"

definition too_many :: "time_ns \<Rightarrow> writer \<Rightarrow> writer" where
  "too_many window w =
     WriteBody ''{\"ok\":false,\"msg\":\"rate limit exceeded, try again later\"}''
       (WriteHeader 429
         (SetHeader ''Retry-After'' (show_int (whole_seconds window))
           (SetHeader ''Content-Type'' ''application/json'' w)))"

definition with_trace :: "trace \<Rightarrow> exchange \<Rightarrow> exchange" where
  "with_trace h x = x\<lparr>x_gw := (x_gw x)\<lparr>gw_trace := h\<rparr>\<rparr>"

definition Limit :: "RateLimiter \<Rightarrow> (http_request \<Rightarrow> string) \<Rightarrow> int \<Rightarrow> time_ns \<Rightarrow> middleware" where
  "Limit rl keyFunc maxRequests window next e r x =
     (case rl_Redis rl of
        None \<Rightarrow> next e r x
      | Some rd \<Rightarrow>
          (let key = keyFunc r in
           if key = [] then next e r x
           else
             (let (ok, h1) = limit_decision rd key maxRequests window (we_clk e 0) (gw_trace (x_gw x));
                  x1 = with_trace h1 x
              in if ok then next e r x1 else Returns (x1\<lparr>x_w := too_many window (x_w x1)\<rparr>))))"

definition IPKey :: "http_request \<Rightarrow> string" where
  "IPKey r =
     (let xff = rq_Header r ''X-Forwarded-For''; xri = rq_Header r ''X-Real-Ip'' in
      if xff \<noteq> [] then TrimSpace (Split xff (CHR '','') ! 0)
      else if xri \<noteq> [] then xri
      else (let ip = rq_RemoteAddr r; idx = LastIndex ip (CHR '':'')
            in if idx \<noteq> -1 then take (nat idx) ip else ip))"

definition LoginKey :: "http_request \<Rightarrow> string" where
  "LoginKey r = ''login:'' @ IPKey r"

section \<open>Tokens\<close>

text \<open>The claims read by the gateway have the fields of the auth service's \<open>Claims\<close>.\<close>

definition parseJWTToken :: "JWTLib \<Rightarrow> time_ns \<Rightarrow> string \<Rightarrow> bytes \<Rightarrow> go_error + Claims" where
  "parseJWTToken j now tokenStr secret =
     (case jl_Parse j now (hmac_key secret) tokenStr of
        Inl err \<Rightarrow> Inl err
      | Inr t \<Rightarrow> (if tk_Valid t then Inr (tk_Claims t) else Inl ''invalid token''))"

definition bearer :: string where
  "bearer = ''Bearer ''"

definition with_user :: "Claims \<Rightarrow> http_request \<Rightarrow> http_request" where
  "with_user cl r = r\<lparr>rq_Ctx := (rq_Ctx r)(''user_id'' \<mapsto> cl_UserID cl, ''role'' \<mapsto> cl_Role cl)\<rparr>"

definition AdminMiddleware :: "JWTLib \<Rightarrow> bytes \<Rightarrow> middleware" where
  "AdminMiddleware j jwtSecret next e r x =
     (let authHeader = rq_Header r ''Authorization'' in
      if authHeader = [] \<or> \<not> HasPrefix authHeader bearer then
        Returns (error_reply 401 ''missing or invalid authorization header'' x)
      else
        (case parseJWTToken j (we_clk e 0) (TrimPrefix authHeader bearer) jwtSecret of
           Inl err \<Rightarrow> Returns (error_reply 401 ''invalid token'' x)
         | Inr claims \<Rightarrow>
             (if cl_Role claims \<noteq> ''admin'' then Returns (error_reply 403 ''admin access required'' x)
              else next e (with_user claims r) x)))"

definition AuthMiddleware :: "JWTLib \<Rightarrow> bytes \<Rightarrow> middleware" where
  "AuthMiddleware j jwtSecret next e r x =
     (let authHeader = rq_Header r ''Authorization'' in
      if authHeader = [] \<or> \<not> HasPrefix authHeader bearer then
        Returns (error_reply 401 ''missing or invalid authorization header'' x)
      else
        (case parseJWTToken j (we_clk e 0) (TrimPrefix authHeader bearer) jwtSecret of
           Inl err \<Rightarrow> Returns (error_reply 401 ''invalid token'' x)
         | Inr claims \<Rightarrow> next e (with_user claims r) x))"

section \<open>CORS\<close>

definition allowed_origin :: "string \<Rightarrow> string \<Rightarrow> bool" where
  "allowed_origin allowedOrigins origin \<longleftrightarrow>
     allowedOrigins = ''*'' \<or> origin \<in> set (map TrimSpace (Split allowedOrigins (CHR '','')))"

definition cors_headers :: "string \<Rightarrow> writer \<Rightarrow> writer" where
  "cors_headers origin w =
     SetHeader ''Access-Control-Max-Age'' ''86400''
       (SetHeader ''Access-Control-Allow-Headers'' ''Content-Type, Authorization''
         (SetHeader ''Access-Control-Allow-Methods'' ''GET, POST, OPTIONS''
           (SetHeader ''Access-Control-Allow-Origin'' origin w)))"

definition CORSMiddleware :: "string \<Rightarrow> middleware" where
  "CORSMiddleware allowedOrigins next e r x =
     (let origin = rq_Header r ''Origin'';
          x1 = (if allowed_origin allowedOrigins origin then x\<lparr>x_w := cors_headers origin (x_w x)\<rparr> else x)
      in if rq_Method r = MethodOptions then Returns (x1\<lparr>x_w := WriteHeader 204 (x_w x1)\<rparr>)
         else next e r x1)"

section \<open>What Redis promises for the pipeline\<close>

text \<open>
  The sorted set under a key, by a view of the members (a member is its own score). The pipeline
  removes the scores from 0 to \<open>windowStart\<close>, counts the rest and adds \<open>now\<close>. \<open>EXPIRE\<close> deletes the
  key when \<open>window\<close> has passed since the last pipeline, when every member would be removed by the
  next one, so it is not visible here. Nothing is said of a pipeline that fails.
\<close>

definition in_window :: "int \<Rightarrow> int \<Rightarrow> bool" where
  "in_window windowStart t \<longleftrightarrow> t < 0 \<or> windowStart < t"

definition rate_laws :: "RedisClient \<Rightarrow> (trace \<Rightarrow> string \<Rightarrow> int set) \<Rightarrow> bool" where
  "rate_laws rd zs \<longleftrightarrow>
     (\<forall>h k ws now win n. rd_RatePipe rd h k ws now win = Inr n \<longrightarrow>
        n = int (card {t \<in> zs h k. in_window ws t})
      \<and> zs (h @ [CallRatePipe k ws now win]) k = insert now {t \<in> zs h k. in_window ws t})
   \<and> (\<forall>h c k. (\<forall>ws now win. c \<noteq> CallRatePipe k ws now win) \<longrightarrow> zs (h @ [c]) k = zs h k)
   \<and> (\<forall>h k. finite (zs h k))"

lemma rate_lawsD:
  assumes "rate_laws rd zs"
  shows "rd_RatePipe rd h k ws now win = Inr n \<Longrightarrow> n = int (card {t \<in> zs h k. in_window ws t})"
    and "rd_RatePipe rd h k ws now win = Inr n \<Longrightarrow>
      zs (h @ [CallRatePipe k ws now win]) k = insert now {t \<in> zs h k. in_window ws t}"
    and "(\<And>ws now win. c \<noteq> CallRatePipe k ws now win) \<Longrightarrow> zs (h @ [c]) k = zs h k"
    and "finite (zs h k)"
  using assms unfolding rate_laws_def by blast+

section \<open>A sequence of requests under one key\<close>

text \<open>
  Requests handled one after the other: before each the trace grows by calls that are no pipeline on
  this key. \<open>passed\<close> lists which of them pass; \<open>redis_up\<close> says that no pipeline of the run fails.
\<close>

fun passed :: "RedisClient \<Rightarrow> string \<Rightarrow> int \<Rightarrow> time_ns \<Rightarrow> trace \<Rightarrow> (trace \<times> time_ns) list \<Rightarrow> bool list" where
  "passed rd key m w h [] = []"
| "passed rd key m w h ((gap, t) # rs) =
     (let (ok, h1) = limit_decision rd key m w t (h @ gap) in ok # passed rd key m w h1 rs)"

fun redis_up :: "RedisClient \<Rightarrow> string \<Rightarrow> int \<Rightarrow> time_ns \<Rightarrow> trace \<Rightarrow> (trace \<times> time_ns) list \<Rightarrow> bool" where
  "redis_up rd key m w h [] = True"
| "redis_up rd key m w h ((gap, t) # rs) =
     (\<not> isl (rd_RatePipe rd (h @ gap) (rlKey key) (UnixMilli t - Milliseconds w) (UnixMilli t) w)
      \<and> redis_up rd key m w (snd (limit_decision rd key m w t (h @ gap))) rs)"

text \<open>The same decisions on the set of timestamps alone.\<close>

definition window_step :: "int \<Rightarrow> int \<Rightarrow> int set \<Rightarrow> int \<Rightarrow> bool \<times> int set" where
  "window_step m w S now = (int (card {t \<in> S. in_window (now - w) t}) < m, insert now {t \<in> S. in_window (now - w) t})"

fun window_run :: "int \<Rightarrow> int \<Rightarrow> int set \<Rightarrow> int list \<Rightarrow> bool list" where
  "window_run m w S [] = []"
| "window_run m w S (now # ts) = (let (ok, S1) = window_step m w S now in ok # window_run m w S1 ts)"

definition foreign :: "string \<Rightarrow> trace \<Rightarrow> bool" where
  "foreign k gap \<longleftrightarrow> (\<forall>c \<in> set gap. \<forall>ws now win. c \<noteq> CallRatePipe k ws now win)"

lemma zs_foreign: "rate_laws rd zs \<Longrightarrow> foreign k gap \<Longrightarrow> zs (h @ gap) k = zs h k"
proof (induction gap rule: rev_induct)
  case Nil
  then show ?case by simp
next
  case (snoc c gap)
  have "zs ((h @ gap) @ [c]) k = zs (h @ gap) k"
    by (rule rate_lawsD(3) [OF snoc.prems(1)]) (use snoc.prems(2) in \<open>auto simp: foreign_def\<close>)
  then show ?case using snoc by (simp add: foreign_def)
qed

lemma limit_decision_step:
  assumes "rate_laws rd zs" "\<not> isl (rd_RatePipe rd h (rlKey key) (UnixMilli t - Milliseconds w) (UnixMilli t) w)"
  shows "(fst (limit_decision rd key m w t h), zs (snd (limit_decision rd key m w t h)) (rlKey key))
       = window_step m (Milliseconds w) (zs h (rlKey key)) (UnixMilli t)"
proof -
  obtain n where "rd_RatePipe rd h (rlKey key) (UnixMilli t - Milliseconds w) (UnixMilli t) w = Inr n"
    using assms(2) by (cases "rd_RatePipe rd h (rlKey key) (UnixMilli t - Milliseconds w) (UnixMilli t) w") auto
  then show ?thesis
    using rate_lawsD(1,2) [OF assms(1)] by (auto simp: limit_decision_def window_step_def Let_def)
qed

lemma passed_window_run:
  assumes "rate_laws rd zs" "redis_up rd key m w h rs" "\<forall>(gap, t) \<in> set rs. foreign (rlKey key) gap"
  shows "passed rd key m w h rs =
    window_run m (Milliseconds w) (zs h (rlKey key)) (map (\<lambda>(gap, t). UnixMilli t) rs)"
  using assms
proof (induction rs arbitrary: h)
  case Nil
  then show ?case by simp
next
  case (Cons r rs)
  obtain gap t where r: "r = (gap, t)" by (cases r)
  let ?d = "limit_decision rd key m w t (h @ gap)"
  have "zs (h @ gap) (rlKey key) = zs h (rlKey key)"
    using zs_foreign [OF Cons.prems(1)] Cons.prems(3) r by simp
  then have step: "(fst ?d, zs (snd ?d) (rlKey key)) = window_step m (Milliseconds w) (zs h (rlKey key)) (UnixMilli t)"
    using limit_decision_step [OF Cons.prems(1), of "h @ gap" key t w m] Cons.prems(2) r by simp
  have "passed rd key m w (snd ?d) rs = window_run m (Milliseconds w) (zs (snd ?d) (rlKey key)) (map (\<lambda>(gap, t). UnixMilli t) rs)"
    using Cons r by simp
  then show ?case using step r by (cases ?d) (simp flip: step)
qed

end
