(* ===== verification/LimitProperties.thy ===== *)
theory LimitProperties
  imports Middleware
begin

text \<open>
  Properties of the rate limiter: how many requests pass in a window when their timestamps differ,
  how many when they share one, and whose window a request is counted in.
\<close>

section \<open>The window on timestamps\<close>

definition recent :: "int \<Rightarrow> int \<Rightarrow> int \<Rightarrow> bool" where
  "recent T w t \<longleftrightarrow> T - w < t \<and> t \<le> T"

text \<open>How many requests of a run pass with a timestamp in the window that ends at \<open>T\<close>.\<close>

definition passes_in :: "int \<Rightarrow> int \<Rightarrow> bool list \<Rightarrow> int list \<Rightarrow> nat" where
  "passes_in T w oks ts = length (filter (\<lambda>(ok, t). ok \<and> recent T w t) (zip oks ts))"

lemma passes_in_Nil [simp]: "passes_in T w [] [] = 0"
  by (simp add: passes_in_def)

lemma passes_in_Cons [simp]:
  "passes_in T w (ok # oks) (t # ts) = (if ok \<and> recent T w t then 1 else 0) + passes_in T w oks ts"
  by (simp add: passes_in_def)

lemma window_run_bound:
  assumes "finite S" "sorted_wrt (<) ts" "\<And>s t. s \<in> S \<Longrightarrow> t \<in> set ts \<Longrightarrow> s < t"
  shows "int (passes_in T w (window_run m w S ts) ts) \<le> max 0 (m - int (card {s \<in> S. T - w < s}))"
  using assms
proof (induction ts arbitrary: S)
  case Nil
  then show ?case by simp
next
  case (Cons now ts)
  let ?A = "{s \<in> S. T - w < s}" and ?W = "{s \<in> S. in_window (now - w) s}"
  let ?S1 = "insert now ?W"
  have new: "now \<notin> S" using Cons.prems(3) by fastforce
  have fin: "finite ?W" "finite ?A" using Cons.prems(1) by simp_all
  have IH: "int (passes_in T w (window_run m w ?S1 ts) ts) \<le> max 0 (m - int (card {s \<in> ?S1. T - w < s}))"
    using Cons.prems fin by (intro Cons.IH) auto
  have run: "window_run m w S (now # ts) = (int (card ?W) < m) # window_run m w ?S1 ts"
    by (simp add: window_step_def)
  show ?case
  proof (cases "now \<le> T")
    case True
    have keep: "{s \<in> ?W. T - w < s} = ?A" using True by (auto simp: in_window_def)
    then have sub: "?A \<subseteq> ?W" by auto
    show ?thesis
    proof (cases "T - w < now")
      case True
      have "{s \<in> ?S1. T - w < s} = insert now ?A" using keep True by auto
      then have "card {s \<in> ?S1. T - w < s} = Suc (card ?A)" using fin(2) new by simp
      moreover have "card ?A \<le> card ?W" by (rule card_mono [OF fin(1) sub])
      ultimately show ?thesis
        using IH True \<open>now \<le> T\<close> unfolding run by (auto simp: recent_def)
    next
      case False
      then have "{s \<in> ?S1. T - w < s} = ?A" using keep by auto
      then show ?thesis using IH False unfolding run by (simp add: recent_def)
    qed
  next
    case False
    have "T < t" if "t \<in> set ts" for t using False Cons.prems(2) that by force
    then have "passes_in T w oks ts = 0" for oks
      by (auto simp: passes_in_def filter_empty_conv recent_def dest!: set_zip_rightD) force
    then show ?thesis using False unfolding run by (simp add: recent_def)
  qed
qed

section \<open>The limiter\<close>

definition stamps :: "(trace \<times> time_ns) list \<Rightarrow> int list" where
  "stamps rs = map (\<lambda>(gap, t). UnixMilli t) rs"

text \<open>
  C25: the limiter keeps its promise for requests with different timestamps. Under the laws of the
  sorted set, when Redis answers, requests under one key that are handled one after the other, with
  clock readings that grow by at least a millisecond, pass at most \<open>maxRequests\<close> times within any
  window, whatever other calls the process makes in between.
\<close>

theorem limiter_bounds_window:
  assumes "rate_laws rd zs" "redis_up rd key m w h rs" "\<forall>(gap, t) \<in> set rs. foreign (rlKey key) gap"
    and "sorted_wrt (<) (stamps rs)" "\<forall>s \<in> zs h (rlKey key). \<forall>t \<in> set (stamps rs). s < t" "0 \<le> m"
  shows "int (passes_in T (Milliseconds w) (passed rd key m w h rs) (stamps rs)) \<le> m"
proof -
  have "passed rd key m w h rs = window_run m (Milliseconds w) (zs h (rlKey key)) (stamps rs)"
    unfolding stamps_def by (rule passed_window_run [OF assms(1-3)])
  moreover have "int (passes_in T (Milliseconds w) (window_run m (Milliseconds w) (zs h (rlKey key)) (stamps rs)) (stamps rs))
      \<le> max 0 (m - int (card {s \<in> zs h (rlKey key). T - Milliseconds w < s}))"
    using assms(5) by (intro window_run_bound [OF rate_lawsD(4) [OF assms(1)] assms(4)]) blast
  ultimately show ?thesis using assms(6) by simp
qed

text \<open>A sorted set in memory.\<close>

fun mem_zset :: "trace \<Rightarrow> string \<Rightarrow> int list" where
  "mem_zset [] k = []"
| "mem_zset (c # h) k =
     (case c of CallRatePipe k' ws now win \<Rightarrow>
        (if k' = k then now # filter (\<lambda>t. in_window ws t \<and> t \<noteq> now) (mem_zset h k) else mem_zset h k)
      | _ \<Rightarrow> mem_zset h k)"

definition mem_redis :: RedisClient where
  "mem_redis = \<lparr>rd_Ping = (\<lambda>_. None),
     rd_RatePipe = (\<lambda>h k ws now win. Inr (int (card (set (filter (in_window ws) (mem_zset (rev h) k))))))\<rparr>"

lemma mem_redis_laws: "rate_laws mem_redis (\<lambda>h k. set (mem_zset (rev h) k))"
proof -
  have "mem_zset (c # h) k = mem_zset h k" if "\<forall>ws now win. c \<noteq> CallRatePipe k ws now win" for c h k
    using that by (cases c) auto
  moreover have "{t. t \<in> A \<and> P t} = Set.filter P A" for A :: "int set" and P by auto
  ultimately show ?thesis
    by (auto simp: rate_laws_def mem_redis_def)
qed

definition two_requests :: "(trace \<times> time_ns) list" where
  "two_requests = [([], 1000000), ([CallRedisPing], 2000000)]"

theorem limiter_bounds_window_witness:
  "int (passes_in 2 (Milliseconds 60000000000) (passed mem_redis ''k'' 1 60000000000 [] two_requests) (stamps two_requests)) \<le> 1"
  by (rule limiter_bounds_window [OF mem_redis_laws])
    (simp_all add: two_requests_def mem_redis_def stamps_def UnixMilli_def foreign_def)

section \<open>A sliding window over the log of all requests\<close>

text \<open>The decision on each request from the log of all requests before it.\<close>

definition sliding_log :: "int \<Rightarrow> int \<Rightarrow> int list \<Rightarrow> bool list" where
  "sliding_log m w ts = map (\<lambda>i. int (length (filter (\<lambda>s. ts ! i - w < s) (take i ts))) < m) [0..<length ts]"

lemma window_run_log:
  assumes "distinct (past @ ts)" "sorted ts" "\<forall>s \<in> set (past @ ts). 0 \<le> s"
    and "\<And>now. now \<in> set ts \<Longrightarrow> {s \<in> S. in_window (now - w) s} = {s \<in> set past. now - w < s}"
  shows "window_run m w S ts =
      map (\<lambda>i. int (length (filter (\<lambda>s. ts ! i - w < s) (past @ take i ts))) < m) [0..<length ts]"
  using assms
proof (induction ts arbitrary: past S)
  case Nil
  then show ?case by simp
next
  case (Cons now ts)
  let ?S1 = "insert now {s \<in> S. in_window (now - w) s}"
  have kept: "{s \<in> S. in_window (now - w) s} = {s \<in> set past. now - w < s}" using Cons.prems(4) by simp
  have "window_run m w ?S1 ts = map (\<lambda>i. int (length (filter (\<lambda>s. ts ! i - w < s) ((past @ [now]) @ take i ts))) < m) [0..<length ts]"
  proof (rule Cons.IH)
    fix t
    assume "t \<in> set ts"
    then have "now \<le> t" using Cons.prems(2) by simp
    moreover have "in_window (t - w) s \<longleftrightarrow> t - w < s" if "s \<in> set (past @ [now])" for s
    proof -
      have "0 \<le> s" using Cons.prems(3) that by auto
      then show ?thesis by (simp add: in_window_def)
    qed
    moreover have "{s \<in> ?S1. in_window (t - w) s} = {s \<in> insert now {s \<in> set past. now - w < s}. in_window (t - w) s}"
      unfolding kept ..
    ultimately show "{s \<in> ?S1. in_window (t - w) s} = {s \<in> set (past @ [now]). t - w < s}" by fastforce
  qed (use Cons.prems in auto)
  moreover have "card {s \<in> set past. now - w < s} = length (filter (\<lambda>s. now - w < s) past)"
    using distinct_card [of "filter (\<lambda>s. now - w < s) past"] Cons.prems(1) by simp
  ultimately show ?case
    unfolding window_run.simps window_step_def kept
    by (simp add: upt_conv_Cons map_Suc_upt [symmetric] del: upt_Suc)
qed

text \<open>
  C26: the limiter is the sliding window it is described as. Under the laws of the sorted set, when
  Redis answers and the readings of the clock grow by at least a millisecond, the pruned sorted set
  decides every request as the log of all of them would: a request passes exactly when fewer than
  \<open>maxRequests\<close> of the earlier ones fall in the window that ends with it. The refused ones count
  too, so a client that keeps asking stays refused.
\<close>

theorem limiter_is_sliding_window:
  assumes "rate_laws rd zs" "redis_up rd key m w h rs" "\<forall>(gap, t) \<in> set rs. foreign (rlKey key) gap"
    and "sorted_wrt (<) (stamps rs)" "\<forall>s \<in> set (stamps rs). 0 \<le> s" "zs h (rlKey key) = {}"
  shows "passed rd key m w h rs = sliding_log m (Milliseconds w) (stamps rs)"
proof -
  have "passed rd key m w h rs = window_run m (Milliseconds w) {} (stamps rs)"
    using passed_window_run [OF assms(1-3)] assms(6) by (simp add: stamps_def)
  also have "\<dots> = sliding_log m (Milliseconds w) (stamps rs)"
    using window_run_log [of "[]" "stamps rs" "{}"] strict_sorted_iff [of "stamps rs"] assms(4,5)
    by (simp add: sliding_log_def)
  finally show ?thesis .
qed

theorem limiter_is_sliding_window_witness:
  "passed mem_redis ''k'' 1 60000000000 [] two_requests = sliding_log 1 (Milliseconds 60000000000) (stamps two_requests)
   \<and> sliding_log 1 (Milliseconds 60000000000) (stamps two_requests) = [True, False]"
proof
  show "passed mem_redis ''k'' 1 60000000000 [] two_requests = sliding_log 1 (Milliseconds 60000000000) (stamps two_requests)"
    by (rule limiter_is_sliding_window [OF mem_redis_laws])
      (simp_all add: two_requests_def mem_redis_def stamps_def UnixMilli_def foreign_def)
  have "stamps two_requests = [1, 2]" by (simp add: two_requests_def stamps_def UnixMilli_def)
  then show "sliding_log 1 (Milliseconds 60000000000) (stamps two_requests) = [True, False]"
    by (simp add: sliding_log_def Milliseconds_def)
qed

lemma same_stamp_run:
  "0 < w \<Longrightarrow> 2 \<le> m \<Longrightarrow> S \<subseteq> {now} \<Longrightarrow> window_run m w S (replicate n now) = replicate n True"
proof (induction n arbitrary: S)
  case 0
  then show ?case by simp
next
  case (Suc n)
  have "{t \<in> S. in_window (now - w) t} \<subseteq> {now}" using Suc.prems(3) by auto
  from card_mono [OF _ this] have "int (card {t \<in> S. in_window (now - w) t}) < m"
    using Suc.prems(2) by simp
  then show ?case
    using Suc.IH [of "insert now {t \<in> S. in_window (now - w) t}"] Suc.prems by (auto simp: window_step_def)
qed

text \<open>
  It does not keep it for requests with the same timestamp. The members of the set are the
  timestamps in milliseconds, so all requests of one millisecond are one member: any number of them
  pass when the limit is at least two and the set was empty.
\<close>

theorem same_millisecond_unlimited:
  assumes "rate_laws rd zs" "redis_up rd key m w h (replicate n ([], t))" "zs h (rlKey key) = {}"
    and "2 \<le> m" "0 < Milliseconds w"
  shows "passed rd key m w h (replicate n ([], t)) = replicate n True"
  using passed_window_run [OF assms(1,2)] same_stamp_run [OF assms(5,4), of "{}" "UnixMilli t" n] assms(3)
  by (simp add: foreign_def)

lemma mem_redis_up: "redis_up mem_redis key m w h rs"
  by (induction mem_redis key m w h rs rule: redis_up.induct) (auto simp: mem_redis_def)

theorem same_millisecond_unlimited_witness:
  "passed mem_redis ''k'' 5 60000000000 [] (replicate 1000 ([], 0)) = replicate 1000 True"
  by (rule same_millisecond_unlimited [OF mem_redis_laws mem_redis_up]) (simp_all add: Milliseconds_def)

text \<open>
  The client chooses the key it is counted under. When the request carries an \<open>X-Forwarded-For\<close>
  header, the key is what stands before its first comma; a proxy that appends the real address to
  the header, as the bundled Nginx configuration does, does not change it.
\<close>

theorem limiter_key_is_client_chosen:
  assumes "rq_Header r ''X-Forwarded-For'' = claimed @ CHR '','' # appended" "CHR '','' \<notin> set claimed"
  shows "IPKey r = TrimSpace claimed \<and> LoginKey r = ''login:'' @ TrimSpace claimed"
proof -
  have "Split (rq_Header r ''X-Forwarded-For'') (CHR '','') ! 0 = claimed"
    using hd_Split [of "rq_Header r ''X-Forwarded-For''" "CHR '',''"] assms
    by (simp add: hd_conv_nth takeWhile_tail) (metis takeWhile_eq_all_conv takeWhile_append2 append_Nil2 takeWhile.simps(2))
  then show ?thesis using assms(1) by (simp add: IPKey_def LoginKey_def Let_def)
qed

definition forged :: http_request where
  "forged = \<lparr>rq_Method = ''POST'', rq_Path = ''/api/login'',
     rq_Header = (\<lambda>k. if k = ''X-Forwarded-For'' then ''x, 10.0.0.1'' else []), rq_RemoteAddr = ''10.0.0.1:80'',
     rq_Body = [], rq_Multipart = (\<lambda>_. None), rq_Ctx = Map.empty\<rparr>"

theorem limiter_key_is_client_chosen_witness:
  "IPKey forged = TrimSpace ''x'' \<and> LoginKey forged = ''login:'' @ TrimSpace ''x''"
  by (rule limiter_key_is_client_chosen [where appended = "'' 10.0.0.1''"]) (simp_all add: forged_def)

end
