(* ===== verification/ChatSpec.thy ===== *)
theory ChatSpec
  imports RoomProperties
begin

text \<open>
  What the gateway is for its users, without clients, objects, channels and services: who is
  authenticated on which connection, at which connection a user is reached, and at which connection
  each member of a room is reached. Five events change it; every step of the gateway is one of them.
\<close>

section \<open>The specification\<close>

record chat =
  user_of :: "nat \<Rightarrow> string option"
  reach_of :: "string \<Rightarrow> nat option"
  seat_of :: "string \<Rightarrow> string \<Rightarrow> nat option"

datatype chat_event = Quiet | Login nat string | Join nat string | Leave nat string | Hangup nat

definition empty_chat :: chat where
  "empty_chat = \<lparr>user_of = Map.empty, reach_of = Map.empty, seat_of = (\<lambda>_. Map.empty)\<rparr>"

fun enabled :: "chat_event \<Rightarrow> chat \<Rightarrow> bool" where
  "enabled Quiet a = True"
| "enabled (Login c u) a = (user_of a c \<in> {None, Some u})"
| "enabled (Join c rid) a = (user_of a c \<noteq> None)"
| "enabled (Leave c rid) a = (user_of a c \<noteq> None)"
| "enabled (Hangup c) a = (user_of a c \<noteq> None)"

fun perform :: "chat_event \<Rightarrow> chat \<Rightarrow> chat" where
  "perform Quiet a = a"
| "perform (Login c u) a = a\<lparr>user_of := (user_of a)(c \<mapsto> u), reach_of := (reach_of a)(u \<mapsto> c)\<rparr>"
| "perform (Join c rid) a =
     (case user_of a c of None \<Rightarrow> a
      | Some u \<Rightarrow> a\<lparr>seat_of := (seat_of a)(rid := (seat_of a rid)(u \<mapsto> c))\<rparr>)"
| "perform (Leave c rid) a =
     (case user_of a c of None \<Rightarrow> a
      | Some u \<Rightarrow> a\<lparr>seat_of := (seat_of a)(rid := (seat_of a rid)(u := None))\<rparr>)"
| "perform (Hangup c) a =
     (case user_of a c of None \<Rightarrow> a
      | Some u \<Rightarrow> a\<lparr>user_of := (user_of a)(c := None), reach_of := (reach_of a)(u := None),
                     seat_of := (\<lambda>rid. (seat_of a rid)(u := None))\<rparr>)"

text \<open>A sequence of events, each enabled when it happens.\<close>

fun plays :: "chat_event list \<Rightarrow> chat \<Rightarrow> bool" where
  "plays [] a = True"
| "plays (ev # evs) a = (enabled ev a \<and> plays evs (perform ev a))"

lemma plays_append: "plays (evs @ evs') a = (plays evs a \<and> plays evs' (fold perform evs a))"
  by (induction evs arbitrary: a) auto

text \<open>The specification keeps its word: whoever is reached at a connection is authenticated there.\<close>

definition seated :: "chat \<Rightarrow> bool" where
  "seated a \<longleftrightarrow> (\<forall>u c. reach_of a u = Some c \<longrightarrow> user_of a c = Some u)
     \<and> (\<forall>rid u c. seat_of a rid u = Some c \<longrightarrow> user_of a c = Some u)"

lemma seated_perform: "seated a \<Longrightarrow> enabled ev a \<Longrightarrow> seated (perform ev a)"
  unfolding seated_def by (cases ev) (fastforce split: option.splits if_splits)+

lemma seated_plays: "plays evs a \<Longrightarrow> seated a \<Longrightarrow> seated (fold perform evs a)"
  by (induction evs arbitrary: a) (auto intro: seated_perform)

section \<open>Simulation by a function of the state\<close>

locale simulation = invariant_system start step inv
  for start :: 's and step :: "'s \<Rightarrow> 's \<Rightarrow> bool" and inv :: "'s \<Rightarrow> bool" +
  fixes view :: "'s \<Rightarrow> chat"
  assumes view_start: "view start = empty_chat"
    and view_step: "inv s \<Longrightarrow> step s t \<Longrightarrow> \<exists>ev. enabled ev (view s) \<and> view t = perform ev (view s)"
begin

lemma run_is_played: "rtranclp step start s \<Longrightarrow> \<exists>evs. plays evs empty_chat \<and> view s = fold perform evs empty_chat"
proof (induction rule: rtranclp_induct)
  case base
  show ?case by (rule exI [of _ "[]"]) (simp add: view_start)
next
  case (step s t)
  obtain evs where evs: "plays evs empty_chat" "view s = fold perform evs empty_chat" using step.IH by blast
  obtain ev where "enabled ev (view s)" "view t = perform ev (view s)"
    using view_step [OF inv_reachable [OF step.hyps(1)] step.hyps(2)] by blast
  then show ?case using evs by (intro exI [of _ "evs @ [ev]"]) (simp add: plays_append)
qed

end

section \<open>The view of the gateway\<close>

definition seats :: "gw_state \<Rightarrow> (string \<Rightarrow> nat option) \<Rightarrow> string \<Rightarrow> nat option" where
  "seats g m = (\<lambda>u. map_option (\<lambda>r. c_Send (clientH g r)) (m u))"

definition chat_of :: "sys \<Rightarrow> chat" where
  "chat_of s = \<lparr>user_of = owner s, reach_of = seats (gw s) (onlineUsers (gw s)),
     seat_of = (\<lambda>rid. seats (gw s) (abs_members (abs_rooms (gw s)) rid))\<rparr>"

lemma seats_upd: "seats g (m(u \<mapsto> r)) = (seats g m)(u \<mapsto> c_Send (clientH g r))" "seats g (m(u := None)) = (seats g m)(u := None)"
  by (auto simp: seats_def)

lemma seats_cong: "(\<And>u r. m u = Some r \<Longrightarrow> c_Send (clientH t r) = c_Send (clientH s r)) \<Longrightarrow> seats t m = seats s m"
  by (auto simp: seats_def fun_eq_iff map_option_case split: option.split)

text \<open>The entries of the tables keep their connections when a state extends another.\<close>

lemma seats_extends:
  assumes "tables_ok \<sigma> s" "extends s t"
  shows "seats t (onlineUsers s) = seats s (onlineUsers s)"
    and "seats t (abs_members (abs_rooms s) rid) = seats s (abs_members (abs_rooms s) rid)"
proof -
  have keep: "c_Send (clientH t r) = c_Send (clientH s r)" if "ref_ok \<sigma> s u r" for u r
    using that assms(2) by (simp add: ref_ok_def extends_def)
  show "seats t (onlineUsers s) = seats s (onlineUsers s)"
    by (rule seats_cong) (rule keep [OF tables_okD(2) [OF assms(1)]])
  show "seats t (abs_members (abs_rooms s) rid) = seats s (abs_members (abs_rooms s) rid)"
    by (rule seats_cong) (rule keep [OF tables_okD(3) [OF assms(1)]])
qed

lemma chat_same:
  assumes "same_tables (gw s) (gw t)" "owner t = owner s"
  shows "chat_of t = chat_of s"
proof -
  have "seats (gw t) m = seats (gw s) m" for m
    by (rule seats_cong) (use assms(1) in \<open>simp add: same_tables_def\<close>)
  then show ?thesis
    using assms same_tables_abs [OF assms(1)] by (simp add: chat_of_def) (simp add: same_tables_def)
qed

section \<open>The steps\<close>

text \<open>A message other than \<open>auth\<close> leaves the online table and \<open>me\<close> alone.\<close>

lemma online_join: "onlineUsers (state_of (handle_join srv c m l s)) = onlineUsers s"
proof (cases "me l")
  case None
  then show ?thesis using same_tables_send_error [of s c txt_unauthenticated] by (simp add: handle_join_def same_tables_def)
next
  case (Some r)
  obtain rr s1 where g: "getOrCreateRoom (m_RoomID m) s = (rr, s1)" by fastforce
  obtain his s3 where h: "load_history srv (m_RoomID m) 50 (Slice []) (addClient rr r s1) = (his, s3)" by fastforce
  have "same_tables (addClient rr r s1) (state_of (sendJSON c (joined_payload (m_RoomID m) his) s3))"
    by (rule same_tables_trans [OF same_tables_load_history [OF h] same_tables_sendJSON])
  then show ?thesis
    using Some g h getOrCreateRoom_frame(1) [OF g] by (simp add: handle_join_def same_tables_def addClient_frame)
qed

lemma online_leave: "onlineUsers (state_of (handle_leave c m l s)) = onlineUsers s"
proof (cases "me l")
  case None
  then show ?thesis by (simp add: handle_leave_def)
next
  case (Some r)
  show ?thesis
    unfolding handle_leave_eq [OF Some]
    using same_tables_sendJSON [of "leave_room r (m_RoomID m) s" c] by (simp add: same_tables_def)
qed

lemma online_send: "onlineUsers (state_of (handle_send srv c e m l s)) = onlineUsers s"
proof (cases "me l")
  case None
  then show ?thesis using same_tables_send_error [of s c txt_unauthenticated] by (simp add: handle_send_def same_tables_def)
next
  case (Some r)
  obtain rr s1 where g: "getOrCreateRoom (m_RoomID m) s = (rr, s1)" by fastforce
  have st: "same_tables s1 (state_of (andThen (broadcast rr (e_ord e) b s1) (\<lambda>s2. Returns (spawn_save srv cm s2))))" for b cm
    by (rule same_tables_andThen) simp_all
  then show ?thesis
    using Some g getOrCreateRoom_frame(1) [OF g] by (simp add: handle_send_def Let_def same_tables_def)
qed

lemma not_auth_frame:
  assumes "unmarshal_WSMsg data = Some m" "m_Type m \<noteq> ''auth''"
  shows "onlineUsers (fst (state_of (handle_frame srv c e data (s, l)))) = onlineUsers s"
    and "snd (state_of (handle_frame srv c e data (s, l))) = l"
proof -
  have "same_tables s t \<Longrightarrow> onlineUsers t = onlineUsers s" for t by (simp add: same_tables_def)
  note same = this [OF same_tables_private] this [OF same_tables_history] this [OF same_tables_ping]
    this [OF same_tables_send_error]
  show "onlineUsers (fst (state_of (handle_frame srv c e data (s, l)))) = onlineUsers s"
    using assms by (simp add: handle_frame_def dispatch_def online_join online_leave online_send same)
  show "snd (state_of (handle_frame srv c e data (s, l))) = l"
    using assms by (simp add: handle_frame_def dispatch_def)
qed

lemma chat_of_message:
  "chat_of (do_message c (g, l) s) = \<lparr>user_of = owner (do_message c (g, l) s), reach_of = seats g (onlineUsers g),
     seat_of = (\<lambda>rid. seats g (abs_members (abs_rooms g) rid))\<rparr>"
  unfolding chat_of_def by (simp add: do_message_def)

text \<open>The event of a message that is no \<open>auth\<close> message.\<close>

definition room_event :: "nat \<Rightarrow> WSMsg \<Rightarrow> chat_event" where
  "room_event c m =
     (if m_Type m = ''join'' then Join c (m_RoomID m) else if m_Type m = ''leave'' then Leave c (m_RoomID m) else Quiet)"

text \<open>The event of any message: \<open>me\<close> is replaced exactly when an \<open>auth\<close> message has been accepted.\<close>

definition message_event :: "nat \<Rightarrow> bytes \<Rightarrow> ws_local \<Rightarrow> gw_state \<times> ws_local \<Rightarrow> chat_event" where
  "message_event c data l gl =
     (case (unmarshal_WSMsg data, identity (fst gl) (snd gl)) of
        (Some m, Some u) \<Rightarrow> (if me (snd gl) \<noteq> me l then Login c u else room_event c m)
      | _ \<Rightarrow> Quiet)"

lemma chat_not_auth:
  assumes inv: "sys_inv s" and ph: "ph s c = Reading" and r: "me (loc s c) = Some r"
    and m: "unmarshal_WSMsg data = Some m" "m_Type m \<noteq> ''auth''"
    and res: "handle_frame srv c e data (gw s, loc s c) = Returns (g, l)"
  shows "message_event c data (loc s c) (g, l) = room_event c m"
    and "enabled (room_event c m) (chat_of s) \<and> chat_of (do_message c (g, l) s) = perform (room_event c m) (chat_of s)"
proof -
  let ?u = "c_UserID (clientH (gw s) r)" and ?t = "do_message c (g, l) s"
  note own = sys_invD(2) [OF inv ph]
  have l: "l = loc s c" "onlineUsers g = onlineUsers (gw s)"
    using not_auth_frame [OF m, of srv c e "gw s" "loc s c"] res by simp_all
  have ext: "extends (gw s) g" using extends_handle_frame [of "gw s" srv c e data "loc s c"] res by simp
  have user: "owner s c = Some ?u" "c_Send (clientH g r) = c"
    using own r ext by (auto simp: owns_def identity_def extends_def)
  have id: "identity g l = owner s c" using identity_extends [OF own ext] own l by (simp add: owns_def)
  then have owner: "owner ?t = owner s" using owner_message [OF inv ph res] by (simp add: fun_upd_idem)
  show "message_event c data (loc s c) (g, l) = room_event c m"
    using id user(1) l(1) m(1) by (simp add: message_event_def)
  have rooms: "abs_rooms g = room_effect m ?u r (abs_rooms (gw s))"
    using not_auth_abs [OF tables_okD(1) [OF sys_invD(1) [OF inv]] r m, of srv c e] res by simp
  note keep = seats_extends [OF sys_invD(1) [OF inv] ext]
  have "chat_of ?t = \<lparr>user_of = owner s, reach_of = seats (gw s) (onlineUsers (gw s)),
      seat_of = (\<lambda>rid. seats g (abs_members (room_effect m ?u r (abs_rooms (gw s))) rid))\<rparr>"
    by (simp add: chat_of_message owner l(2) rooms keep(1))
  then show "enabled (room_event c m) (chat_of s) \<and> chat_of ?t = perform (room_event c m) (chat_of s)"
    using user
    by (auto simp: room_event_def room_effect_def chat_of_def abs_members_join abs_members_leave seats_upd keep(2) fun_eq_iff)
qed

lemma chat_auth:
  assumes inv: "sys_inv s" and ph: "ph s c = Reading"
    and m: "unmarshal_WSMsg data = Some m" "m_Type m = ''auth''"
    and frame: "handle_frame srv c e data (gw s, loc s c) = Returns (g, l)"
    and ids: "keeps_identity (gw s, loc s c) (g, l)"
  shows "enabled (message_event c data (loc s c) (g, l)) (chat_of s)
     \<and> chat_of (do_message c (g, l) s) = perform (message_event c data (loc s c) (g, l)) (chat_of s)"
proof -
  let ?t = "do_message c (g, l) s"
  note own = sys_invD(2) [OF inv ph] and ok = sys_invD(1) [OF inv]
  note owner = owner_message [OF inv ph frame]
  have res: "handle_auth srv c e m (gw s, loc s c) = Returns (g, l)"
    using frame m by (simp add: handle_frame_def dispatch_def)
  from handle_auth_outcome [of srv c e "gw s" "loc s c" m] show ?thesis
  proof cases
    case (refused t l' hangup msg)
    have st: "same_tables (gw s) g" "l = l'"
      using same_tables_trans [OF refused(2) same_tables_refuse [of t c hangup msg]] refused(1) res by (cases "refuse c hangup msg t"; simp)+
    have "identity g l = owner s c"
      using own st(2) refused(3) identity_same [OF st(1)] by (simp add: owns_def identity_def)
    then have "owner ?t = owner s" using owner by (simp add: fun_upd_idem)
    then have "chat_of ?t = chat_of s" using chat_same [of s ?t] st(1) by (simp add: do_message_def)
    moreover have "message_event c data (loc s c) (g, l) = Quiet"
      using st(2) refused(3) m by (simp add: message_event_def room_event_def split: option.split)
    ultimately show ?thesis by simp
  next
    case (accepted t l' uid ttl)
    have fin: "finish_auth srv c e uid ttl (t, l') = Returns (g, l)" using accepted(1) res by simp
    obtain r t1 where new: "new_client uid c t = (r, t1)" by fastforce
    have reg: "same_tables (registerOnline uid r t1) g"
      using finish_auth_state [OF new, of srv e ttl l'] fin by auto
    have id: "identity g l = Some uid"
      using finish_auth_identity [of srv c e uid ttl t l'] fin by simp
    then have may: "owner s c = None \<or> owner s c = Some uid"
      using ids own by (auto simp: keeps_identity_def owns_def split: option.splits)
    have g: "onlineUsers g = (onlineUsers (gw s))(uid \<mapsto> r)" "c_Send (clientH g r) = c"
      using reg accepted(2) new by (auto simp: same_tables_def new_client_def registerOnline_def)
    have rooms: "abs_rooms g = abs_rooms (gw s)"
      using same_tables_abs [OF reg] same_tables_abs [OF accepted(2)] new
        abs_rooms_cong [of "registerOnline uid r t1" t] by (auto simp: new_client_def registerOnline_def)
    have ext: "extends (gw s) g" using extends_handle_frame [of "gw s" srv c e data "loc s c"] frame by simp
    note keep = seats_extends [OF ok ext]
    have login: "chat_of ?t = perform (Login c uid) (chat_of s)"
      unfolding chat_of_message owner by (simp add: chat_of_def g seats_upd keep rooms id)
    have "me l = Some (nextClient (gw s))"
      using finish_auth_state [OF new, of srv e ttl l'] fin accepted(2) new by (auto simp: new_client_def same_tables_def)
    moreover have "me (loc s c) \<noteq> Some (nextClient (gw s))" using own by (auto simp: owns_def)
    ultimately have "me l \<noteq> me (loc s c)" by simp
    then have "message_event c data (loc s c) (g, l) = Login c uid" using id m(1) by (simp add: message_event_def)
    then show ?thesis using login may by (auto simp: chat_of_def)
  qed
qed

lemma chat_message:
  assumes inv: "sys_inv s" and ph: "ph s c = Reading" and ids: "keeps_identity (gw s, loc s c) (g, l)"
    and res: "handle_frame srv c e data (gw s, loc s c) = Returns (g, l)"
  shows "enabled (message_event c data (loc s c) (g, l)) (chat_of s)
     \<and> chat_of (do_message c (g, l) s) = perform (message_event c data (loc s c) (g, l)) (chat_of s)"
proof (cases "unmarshal_WSMsg data = None \<or> (me (loc s c) = None \<and> m_Type (the (unmarshal_WSMsg data)) \<noteq> ''auth'')")
  case True
  let ?t = "do_message c (g, l) s"
  have st: "same_tables (gw s) g \<and> l = loc s c"
  proof -
    have "same_tables (gw s) (fst (state_of (handle_frame srv c e data (gw s, loc s c))))
        \<and> snd (state_of (handle_frame srv c e data (gw s, loc s c))) = loc s c"
      using True by (auto simp: handle_frame_def dispatch_def handle_join_def handle_leave_def handle_send_def
          handle_private_def handle_history_def same_tables_ping split: option.split)
    then show ?thesis using res by simp
  qed
  then have "identity g l = owner s c"
    using identity_same [of "gw s" g] sys_invD(2) [OF inv ph] by (simp add: owns_def)
  then have "owner ?t = owner s" using owner_message [OF inv ph res] by (simp add: fun_upd_idem)
  then have "chat_of ?t = chat_of s" using chat_same [of s ?t] st by (simp add: do_message_def)
  moreover have "message_event c data (loc s c) (g, l) = Quiet"
    using True st by (auto simp: message_event_def identity_def split: option.split)
  ultimately show ?thesis by simp
next
  case False
  then obtain m where m: "unmarshal_WSMsg data = Some m" by auto
  show ?thesis
  proof (cases "m_Type m = ''auth''")
    case True
    then show ?thesis using chat_auth [OF inv ph m _ res ids] by simp
  next
    case not_auth: False
    then obtain r where "me (loc s c) = Some r" using False m by auto
    then show ?thesis using chat_not_auth [OF inv ph _ m not_auth res] by simp
  qed
qed

definition end_event :: "nat \<Rightarrow> ws_local \<Rightarrow> chat_event" where
  "end_event c l = (if me l = None then Quiet else Hangup c)"

lemma chat_cleanup:
  assumes inv: "sys_inv s" and ph: "ph s c = Reading" and ord: "range_order (rooms (gw s)) (e_ord e)"
  shows "enabled (end_event c (loc s c)) (chat_of s)
     \<and> chat_of (do_cleanup srv c e s) = perform (end_event c (loc s c)) (chat_of s)"
proof -
  let ?t = "do_cleanup srv c e s" and ?g = "cleanup srv e (loc s c) (gw s)"
  note own = sys_invD(2) [OF inv ph] and ok = sys_invD(1) [OF inv]
  note ext = extends_cleanup [of "gw s" srv e "loc s c"]
  note owner = owner_cleanup [OF inv ext]
  show ?thesis
  proof (cases "me (loc s c)")
    case None
    then have "owner s c = None" using own by (simp add: owns_def identity_def)
    then have "chat_of ?t = chat_of s"
      using None chat_same [of s ?t] owner by (simp add: cleanup_def fun_upd_idem)
    then show ?thesis using None by (simp add: end_event_def)
  next
    case (Some r)
    let ?u = "c_UserID (clientH (gw s) r)"
    have user: "owner s c = Some ?u" using own Some by (simp add: owns_def identity_def)
    note clean = cleanup_abs [OF tables_okD(1) [OF ok] Some ord, of srv]
    have "abs_members (abs_rooms ?g) rid = (abs_members (abs_rooms (gw s)) rid)(?u := None)" for rid
      using clean(1) by (auto simp: fun_eq_iff)
    then have "chat_of ?t = perform (Hangup c) (chat_of s)"
      using user clean(2) by (simp add: chat_of_def owner seats_upd seats_extends [OF ok ext])
    then show ?thesis using user Some by (simp add: end_event_def chat_of_def)
  qed
qed

lemma chat_step:
  assumes inv: "sys_inv s" and step: "id_step srv s t"
  shows "\<exists>ev. enabled ev (chat_of s) \<and> chat_of t = perform ev (chat_of s)"
proof -
  have quiet: ?thesis if "chat_of t = chat_of s" using that by (intro exI [of _ Quiet]) simp
  have same: ?thesis if "same_tables (gw s) (gw t)" "ph t = ph s" "loc t = loc s"
    using quiet chat_same [OF that(1) owner_same [OF that]] by simp
  have g: "gstep srv s t" and ids: "keeps_ids s t" using step by (simp_all add: id_step_def)
  from g show ?thesis
  proof cases
    case (accept c)
    have "chat_of t = chat_of s"
      unfolding chat_of_def accept(1) owner_accept [OF accept(2)]
      using abs_rooms_cong [of "gw (do_accept c s)" "gw s"] by (simp add: do_accept_def seats_def)
    then show ?thesis by (rule quiet)
  next
    case (message c e data gl)
    obtain g l where gl: "gl = (g, l)" by fastforce
    have "keeps_identity (gw s, loc s c) (g, l)"
      using ids message(1,2) unfolding keeps_ids_def gl by (auto simp: do_message_def)
    then show ?thesis using chat_message [OF inv message(2)] message(1,5) unfolding gl by blast
  next
    case (message_panic c e data g l)
    then show ?thesis
      using handle_frame_returns [OF sys_invD(1) [OF inv] sys_invD(2) [OF inv], of c srv e data] by simp
  next
    case (read_error c e)
    then show ?thesis using chat_cleanup [OF inv read_error(2,3), of srv] read_error(1) by blast
  next
    case (finish c)
    have "chat_of t = chat_of s"
      unfolding chat_of_def finish(1) owner_finish [OF finish(2)]
      using abs_rooms_cong [of "deferred c (gw s)" "gw s"] by (simp add: do_end_def deferred_frame seats_def)
    then show ?thesis by (rule quiet)
  next
    case (conn_write c b g)
    then show ?thesis using same_tables_recv by (intro same) auto
  next
    case (conn_write_error c b g)
    then show ?thesis using same_tables_recv by (intro same) auto
  next
    case (writer_end c)
    then show ?thesis by (intro same) auto
  next
    case (save ms cm now)
    then show ?thesis by (intro same) auto
  next
    case (disconnect uid)
    then show ?thesis using same_tables_disconnect by (intro same) auto
  qed
qed

lemma chat_start: "chat_of start = empty_chat"
  by (auto simp: chat_of_def empty_chat_def start_def owner_def seats_def empty_gw_def abs_members_def abs_rooms_def fun_eq_iff)

interpretation chatting: simulation start "id_step srv" sys_inv chat_of for srv :: GatewayServer
  by unfold_locales (rule chat_start, rule chat_step)

text \<open>
  The gateway implements a chat. As long as no connection changes its user ID, whatever the
  clients, the services and the goroutines do, every step is one event of the specification, allowed
  when it happens: an accepted \<open>auth\<close> message makes its user reachable at the connection, \<open>join\<close> and
  \<open>leave\<close> of an authenticated connection seat its user in that room or take the seat away, the end of
  an authenticated connection removes its user everywhere, and nothing else changes who is where. So
  a user is only ever reached at a connection authenticated as that user.
\<close>

theorem gateway_implements_chat:
  assumes "rtranclp (id_step srv) start s" "id_step srv s t"
  shows "(\<exists>ev. enabled ev (chat_of s) \<and> chat_of t = perform ev (chat_of s))
   \<and> (\<forall>c e data gl. ph s c = Reading \<and> keeps_identity (gw s, loc s c) gl
          \<and> handle_frame srv c e data (gw s, loc s c) = Returns gl \<longrightarrow>
        chat_of (do_message c gl s) = perform (message_event c data (loc s c) gl) (chat_of s))
   \<and> (\<forall>c e. ph s c = Reading \<and> range_order (rooms (gw s)) (e_ord e) \<longrightarrow>
        chat_of (do_cleanup srv c e s) = perform (end_event c (loc s c)) (chat_of s))
   \<and> seated (chat_of t)"
proof -
  have inv: "sys_inv s" by (rule gateway.inv_reachable [OF assms(1)])
  obtain evs where "plays evs empty_chat" "chat_of t = fold perform evs empty_chat"
    using chatting.run_is_played [OF rtranclp.rtrancl_into_rtrancl [OF assms]] by blast
  moreover have "seated empty_chat" by (simp add: seated_def empty_chat_def)
  ultimately have "seated (chat_of t)" using seated_plays by metis
  then show ?thesis
    using chat_step [OF inv assms(2)] chat_message [OF inv] chat_cleanup [OF inv] by auto
qed

theorem gateway_implements_chat_witness:
  "seated (chat_of logged0) \<and> chat_of logged0 = perform (Login 0 ''a'') empty_chat
   \<and> chat_of (do_cleanup dev_srv 0 env0 accepted0) = perform Quiet (chat_of accepted0)"
proof -
  have "chat_of logged0 = perform (Login 0 ''a'') empty_chat"
    by (auto simp: chat_of_def empty_chat_def owner_def identity_def seats_def abs_members_def abs_rooms_def run_defs
        fun_eq_iff)
  moreover have "range_order (rooms (gw accepted0)) (e_ord env0)" "end_event 0 (loc accepted0 0) = Quiet" "ph accepted0 0 = Reading"
    by (simp_all add: run_defs env0_def end_event_def)
  moreover have "rtranclp (id_step dev_srv) start accepted0"
    using accepted0_step by (rule r_into_rtranclp)
  note gateway_implements_chat [OF this logged0_step]
  ultimately show ?thesis by metis
qed

end
