(* ===== verification/Interleaving.thy ===== *)
theory Interleaving
  imports Gateway
begin

text \<open>
  The connections again, one critical section at a time. In \<open>Gateway\<close> a message is one step; here a
  step of \<open>HandleWS\<close> is one section under \<open>onlineMu\<close>, \<open>roomsMu\<close> or the mutex of a room, or one channel
  operation, and between two of them a goroutine only keeps the pointers it has looked up. Other
  goroutines may run in between. Only steps that return are steps here; which sends can panic is
  a question about the states reached.
\<close>

section \<open>Program counters\<close>

text \<open>What a goroutine wants with the room it looks up; \<open>Cleaning\<close> has the rooms still to leave.\<close>

datatype intent = Joining | Leaving | Sending bytes | Cleaning "string list"

text \<open>
  \<open>Outside\<close>: before the upgrade. \<open>Anon\<close> and \<open>Idle\<close>: at \<open>ReadMessage\<close> or between two calls of a handler, without or with a client object.
  \<open>Missed\<close>: \<open>getOrCreateRoom\<close> has found no room under the read lock. \<open>Holds\<close>: it has returned a room.
  \<open>Removed\<close>: before \<open>removeEmptyRoom\<close>. \<open>Target\<close>: \<open>getOnlineClient\<close> has returned a client that is to
  get some frames. \<open>Scan\<close>: the cleanup goes through the rooms, holding the read lock of the table; the
  IDs still to be looked at and those found. \<open>Sweep\<close>: in the second loop of the cleanup. \<open>Closing\<close>: before \<open>close(sendCh)\<close>.
\<close>

datatype pc =
    Outside
  | Anon
  | Idle nat
  | Missed nat string intent
  | Holds nat nat string intent
  | Removed nat string intent
  | Target nat nat "bytes list"
  | Scan nat "string list" "string list"
  | Sweep nat "string list"
  | Closing
  | Gone

record rt =
  sh :: gw_state
  at :: "nat \<Rightarrow> pc"

fun who :: "pc \<Rightarrow> nat option" where
  "who (Idle r) = Some r"
| "who (Missed r rid i) = Some r"
| "who (Holds r rr rid i) = Some r"
| "who (Removed r rid i) = Some r"
| "who (Target r q bs) = Some r"
| "who (Scan r todo acc) = Some r"
| "who (Sweep r rids) = Some r"
| "who _ = None"

text \<open>Whether a goroutine holds \<open>roomsMu\<close> for reading; nobody changes the table of rooms meanwhile.\<close>

fun scans :: "pc \<Rightarrow> bool" where
  "scans (Scan r todo acc) = True"
| "scans _ = False"

definition unscanned :: "(nat \<Rightarrow> pc) \<Rightarrow> bool" where
  "unscanned a \<longleftrightarrow> (\<forall>c. \<not> scans (a c))"

definition begin_rt :: rt where
  "begin_rt = \<lparr>sh = empty_gw, at = (\<lambda>_. Outside)\<rparr>"

section \<open>Steps\<close>

inductive istep :: "rt \<Rightarrow> rt \<Rightarrow> bool" where
  aside: "istep st (st\<lparr>sh := (sh st)\<lparr>gw_trace := h, saves := sv, wsClosed := cl\<rparr>\<rparr>)"
| accepted: "at st c = Outside \<Longrightarrow>
    istep st (st\<lparr>sh := (sh st)\<lparr>chanH := (chanH (sh st))(c := make_chan)\<rparr>, at := (at st)(c := Anon)\<rparr>)"
| taken: "recv_chan c (sh st) = Some (b, g) \<Longrightarrow> istep st (st\<lparr>sh := g\<rparr>)"
| replied: "at st c = Anon \<or> at st c = Idle r \<Longrightarrow> send_nb c b (sh st) = Returns g \<Longrightarrow> istep st (st\<lparr>sh := g\<rparr>)"
| beat: "at st c = Idle r \<Longrightarrow> istep st (st\<lparr>sh := touch now r (sh st)\<rparr>)"
| login: "at st c = Anon \<or> (at st c = Idle q \<and> c_UserID (clientH (sh st) q) = uid) \<Longrightarrow>
    new_client uid c (sh st) = (r, g) \<Longrightarrow>
    istep st (st\<lparr>sh := registerOnline uid r g, at := (at st)(c := Idle r)\<rparr>)"
| found: "at st c = Idle r \<Longrightarrow> \<forall>L. i \<noteq> Cleaning L \<Longrightarrow> rooms (sh st) rid = Some rr \<Longrightarrow>
    istep st (st\<lparr>at := (at st)(c := Holds r rr rid i)\<rparr>)"
| missing: "at st c = Idle r \<Longrightarrow> \<forall>L. i \<noteq> Cleaning L \<Longrightarrow> rooms (sh st) rid = None \<Longrightarrow>
    istep st (st\<lparr>at := (at st)(c := Missed r rid i)\<rparr>)"
| created: "at st c = Missed r rid i \<Longrightarrow> unscanned (at st) \<Longrightarrow> createRoom rid (sh st) = (rr, g) \<Longrightarrow>
    istep st (st\<lparr>sh := g, at := (at st)(c := Holds r rr rid i)\<rparr>)"
| joined: "at st c = Holds r rr rid Joining \<Longrightarrow>
    istep st (st\<lparr>sh := addClient rr r (sh st), at := (at st)(c := Idle r)\<rparr>)"
| removed: "at st c = Holds r rr rid i \<Longrightarrow> i = Leaving \<or> i = Cleaning L \<Longrightarrow>
    istep st (st\<lparr>sh := removeClient rr r (sh st), at := (at st)(c := Removed r rid i)\<rparr>)"
| left: "at st c = Removed r rid Leaving \<Longrightarrow> unscanned (at st) \<Longrightarrow>
    istep st (st\<lparr>sh := removeEmptyRoom rid (sh st), at := (at st)(c := Idle r)\<rparr>)"
| swept: "at st c = Removed r rid (Cleaning L) \<Longrightarrow> unscanned (at st) \<Longrightarrow>
    istep st (st\<lparr>sh := removeEmptyRoom rid (sh st), at := (at st)(c := Sweep r L)\<rparr>)"
| said: "at st c = Holds r rr rid (Sending b) \<Longrightarrow> range_order (r_clients (roomH (sh st) rr)) ord \<Longrightarrow>
    broadcast rr ord b (sh st) = Returns g \<Longrightarrow> istep st (st\<lparr>sh := g, at := (at st)(c := Idle r)\<rparr>)"
| aimed: "at st c = Idle r \<Longrightarrow> getOnlineClient u (sh st) = Some q \<Longrightarrow>
    istep st (st\<lparr>at := (at st)(c := Target r q bs)\<rparr>)"
| shot: "at st c = Target r q (b # bs) \<Longrightarrow> send_client q b (sh st) = Returns g \<Longrightarrow>
    istep st (st\<lparr>sh := g, at := (at st)(c := Target r q bs)\<rparr>)"
| released: "at st c = Target r q [] \<Longrightarrow> istep st (st\<lparr>at := (at st)(c := Idle r)\<rparr>)"
| hung_up: "at st c = Anon \<Longrightarrow> istep st (st\<lparr>at := (at st)(c := Closing)\<rparr>)"
| ended: "at st c = Idle r \<Longrightarrow> range_order (rooms (sh st)) ord \<Longrightarrow>
    istep st (st\<lparr>at := (at st)(c := Scan r ord [])\<rparr>)"
| looked: "at st c = Scan r (rid # todo) acc \<Longrightarrow> rooms (sh st) rid = Some rr \<Longrightarrow>
    acc' = (if Contains (c_UserID (clientH (sh st) r)) (roomH (sh st) rr) then acc @ [rid] else acc) \<Longrightarrow>
    istep st (st\<lparr>at := (at st)(c := Scan r todo acc')\<rparr>)"
| scanned: "at st c = Scan r [] acc \<Longrightarrow> istep st (st\<lparr>at := (at st)(c := Sweep r acc)\<rparr>)"
| sweep_found: "at st c = Sweep r (rid # L) \<Longrightarrow> rooms (sh st) rid = Some rr \<Longrightarrow>
    istep st (st\<lparr>at := (at st)(c := Holds r rr rid (Cleaning L))\<rparr>)"
| sweep_missing: "at st c = Sweep r (rid # L) \<Longrightarrow> rooms (sh st) rid = None \<Longrightarrow>
    istep st (st\<lparr>at := (at st)(c := Missed r rid (Cleaning L))\<rparr>)"
| unregistered: "at st c = Sweep r [] \<Longrightarrow>
    istep st (st\<lparr>sh := unregisterOnline (c_UserID (clientH (sh st) r)) (sh st), at := (at st)(c := Closing)\<rparr>)"
| closed: "at st c = Closing \<Longrightarrow> close_chan c (sh st) = Returns g \<Longrightarrow>
    istep st (st\<lparr>sh := g, at := (at st)(c := Gone)\<rparr>)"

section \<open>The invariant\<close>

text \<open>
  An entry of a connection in a room of the table is one that the connection's cleanup, if it is
  under way, is still going to visit; and a connection that holds a room object it has looked up is
  in no later room of that ID.
\<close>

fun covers :: "pc \<Rightarrow> string \<Rightarrow> nat \<Rightarrow> bool" where
  "covers (Sweep r L) rid rr = (rid \<in> set L)"
| "covers (Scan r todo acc) rid rr = (rid \<in> set todo \<or> rid \<in> set acc)"
| "covers (Missed r rid' (Cleaning L)) rid rr = (rid \<in> set L \<or> rid = rid')"
| "covers (Holds r rr' rid' (Cleaning L)) rid rr = (rid \<in> set L \<or> rr = rr')"
| "covers (Removed r rid' (Cleaning L)) rid rr = (rid \<in> set L)"
| "covers (Holds r rr' rid' Joining) rid rr = (rid = rid' \<longrightarrow> rr = rr')"
| "covers (Holds r rr' rid' Leaving) rid rr = (rid = rid' \<longrightarrow> rr = rr')"
| "covers (Holds r rr' rid' (Sending b)) rid rr = (rid = rid' \<longrightarrow> rr = rr')"
| "covers _ rid rr = True"

text \<open>The client object \<open>q\<close> stands for user \<open>u\<close> on a connection whose goroutine still serves that user.\<close>

definition serves :: "(nat \<Rightarrow> pc) \<Rightarrow> gw_state \<Rightarrow> string \<Rightarrow> nat \<Rightarrow> bool" where
  "serves a s u q \<longleftrightarrow> q < nextClient s \<and> c_UserID (clientH s q) = u
     \<and> (\<exists>r. who (a (c_Send (clientH s q))) = Some r \<and> c_UserID (clientH s r) = u)"

definition own_client :: "(nat \<Rightarrow> pc) \<Rightarrow> gw_state \<Rightarrow> bool" where
  "own_client a s \<longleftrightarrow> (\<forall>c r. who (a c) = Some r \<longrightarrow> r < nextClient s \<and> c_Send (clientH s r) = c)"

definition online_served :: "(nat \<Rightarrow> pc) \<Rightarrow> gw_state \<Rightarrow> bool" where
  "online_served a s \<longleftrightarrow> (\<forall>u q. onlineUsers s u = Some q \<longrightarrow> serves a s u q)"

definition rooms_served :: "(nat \<Rightarrow> pc) \<Rightarrow> gw_state \<Rightarrow> bool" where
  "rooms_served a s \<longleftrightarrow>
     (\<forall>rid rr u q. rooms s rid = Some rr \<longrightarrow> r_clients (roomH s rr) u = Some q \<longrightarrow>
        serves a s u q \<and> covers (a (c_Send (clientH s q))) rid rr)"

definition gone_closed :: "(nat \<Rightarrow> pc) \<Rightarrow> gw_state \<Rightarrow> bool" where
  "gone_closed a s \<longleftrightarrow> (\<forall>c. ch_closed (chanH s c) \<longleftrightarrow> a c = Gone)"

definition held_ok :: "(nat \<Rightarrow> pc) \<Rightarrow> gw_state \<Rightarrow> bool" where
  "held_ok a s \<longleftrightarrow> (\<forall>c r rr rid i. a c = Holds r rr rid i \<longrightarrow> rr < nextRoom s \<and> r_ID (roomH s rr) = rid)"

definition fine_inv :: "rt \<Rightarrow> bool" where
  "fine_inv st \<longleftrightarrow> rooms_wf (sh st) \<and> own_client (at st) (sh st) \<and> online_served (at st) (sh st)
     \<and> rooms_served (at st) (sh st) \<and> gone_closed (at st) (sh st) \<and> held_ok (at st) (sh st)"

lemmas served_defs = own_client_def online_served_def rooms_served_def gone_closed_def held_ok_def serves_def

lemma fine_invD:
  assumes "fine_inv st"
  shows "rooms_wf (sh st)" and "own_client (at st) (sh st)" and "online_served (at st) (sh st)"
    and "rooms_served (at st) (sh st)" and "gone_closed (at st) (sh st)" and "held_ok (at st) (sh st)"
  using assms by (simp_all add: fine_inv_def)

lemma fine_invI:
  "rooms_wf s \<Longrightarrow> own_client a s \<Longrightarrow> online_served a s \<Longrightarrow> rooms_served a s \<Longrightarrow> gone_closed a s \<Longrightarrow> held_ok a s
     \<Longrightarrow> fine_inv (st\<lparr>sh := s, at := a\<rparr>)"
  by (simp add: fine_inv_def)

lemma serves_who:
  "serves a s u q \<Longrightarrow> who (a c) = Some r \<Longrightarrow> c_Send (clientH s q) = c \<Longrightarrow> c_UserID (clientH s r) = u"
  by (auto simp: serves_def)

lemma serves_same: "same_tables s t \<Longrightarrow> serves a t u q = serves a s u q"
  by (simp add: serves_def same_tables_def)

lemma serves_cong: "(\<And>c. who (a' c) = who (a c)) \<Longrightarrow> serves a' s u q = serves a s u q"
  by (simp add: serves_def)

text \<open>A state with the same tables satisfies the invariant for the same program counters.\<close>

lemma fine_inv_same:
  assumes "fine_inv st" "same_tables (sh st) g"
  shows "fine_inv (st\<lparr>sh := g\<rparr>)"
proof -
  note s = serves_same [OF assms(2)]
  have "rooms_wf g" using assms same_tables_wf by (simp add: fine_inv_def)
  then show ?thesis
    using assms s unfolding fine_inv_def own_client_def online_served_def rooms_served_def gone_closed_def held_ok_def
    by (simp add: same_tables_def)
qed

text \<open>One program counter moves while its goroutine keeps serving the same client object.\<close>

lemma fine_inv_move:
  assumes inv: "fine_inv st" and who: "who p = who (at st c)" and gone: "at st c \<noteq> Gone" "p \<noteq> Gone"
    and cov: "\<And>rid rr u q. rooms (sh st) rid = Some rr \<Longrightarrow> r_clients (roomH (sh st) rr) u = Some q \<Longrightarrow>
        serves (at st) (sh st) u q \<Longrightarrow> c_Send (clientH (sh st) q) = c \<Longrightarrow> covers (at st c) rid rr \<Longrightarrow> covers p rid rr"
    and held: "\<And>r rr rid i. p = Holds r rr rid i \<Longrightarrow> rr < nextRoom (sh st) \<and> r_ID (roomH (sh st) rr) = rid"
  shows "fine_inv (st\<lparr>at := (at st)(c := p)\<rparr>)"
proof -
  let ?a = "(at st)(c := p)"
  have s: "serves ?a (sh st) u q = serves (at st) (sh st) u q" for u q
    by (rule serves_cong) (simp add: who)
  have "rooms_served ?a (sh st)"
    using fine_invD(4) [OF inv] cov unfolding rooms_served_def s by auto
  then show ?thesis
    using inv who gone held s
    by (auto simp: fine_inv_def own_client_def online_served_def gone_closed_def held_ok_def)
qed

text \<open>Fewer entries, and rooms created empty, keep the invariant.\<close>

lemma fine_inv_fewer:
  assumes "fine_inv st" "rooms_wf g" "chanH g = chanH (sh st)" "clientH g = clientH (sh st)" "nextClient g = nextClient (sh st)"
    and online: "\<And>u q. onlineUsers g u = Some q \<Longrightarrow> onlineUsers (sh st) u = Some q"
    and rooms: "\<And>rid rr u q. rooms g rid = Some rr \<Longrightarrow> r_clients (roomH g rr) u = Some q \<Longrightarrow>
        rooms (sh st) rid = Some rr \<and> r_clients (roomH (sh st) rr) u = Some q"
    and objects: "nextRoom (sh st) \<le> nextRoom g" "\<And>rr. rr < nextRoom (sh st) \<Longrightarrow> r_ID (roomH g rr) = r_ID (roomH (sh st) rr)"
  shows "fine_inv (st\<lparr>sh := g\<rparr>)"
proof -
  have s: "serves a g u q = serves a (sh st) u q" for a u q by (simp add: serves_def assms(4,5))
  have "online_served (at st) g" "rooms_served (at st) g"
    using fine_invD(3,4) [OF assms(1)] online rooms unfolding online_served_def rooms_served_def s assms(4) by blast+
  moreover have "own_client (at st) g" "gone_closed (at st) g"
    using fine_invD(2,5) [OF assms(1)] by (simp_all add: own_client_def gone_closed_def assms(3,4,5))
  moreover have "held_ok (at st) g"
    using fine_invD(6) [OF assms(1)] objects unfolding held_ok_def by (metis order_less_le_trans)
  ultimately show ?thesis using assms(2) by (simp add: fine_inv_def)
qed

lemma fine_inv_create:
  assumes inv: "fine_inv st" and new: "createRoom rid (sh st) = (rr, g)"
  shows "fine_inv (st\<lparr>sh := g\<rparr>)"
proof (rule fine_inv_fewer [OF inv])
  note wf = fine_invD(1) [OF inv]
  show "rooms_wf g" using rooms_wf_createRoom [OF wf, of rid] new by simp
  fix rid' rr' u q
  assume "rooms g rid' = Some rr'" "r_clients (roomH g rr') u = Some q"
  then show "rooms (sh st) rid' = Some rr' \<and> r_clients (roomH (sh st) rr') u = Some q"
    using new rooms_wfD(1) [OF wf] by (auto simp: createRoom_def newRoom_def split: option.splits if_splits)
qed (use new in \<open>auto simp: createRoom_def split: option.splits\<close>)

lemma fine_inv_remove:
  assumes inv: "fine_inv st"
  shows "fine_inv (st\<lparr>sh := removeClient rr r (sh st)\<rparr>)"
  by (rule fine_inv_fewer [OF inv rooms_wf_removeClient [OF fine_invD(1) [OF inv]]])
    (auto simp: removeClient_def Room_remove_def split: if_splits)

lemma fine_inv_collect:
  assumes inv: "fine_inv st"
  shows "fine_inv (st\<lparr>sh := removeEmptyRoom rid (sh st)\<rparr>)"
  by (rule fine_inv_fewer [OF inv rooms_wf_removeEmptyRoom [OF fine_invD(1) [OF inv]]])
    (auto simp: removeEmptyRoom_def split: option.splits if_splits)

lemma fine_inv_unregister:
  assumes inv: "fine_inv st"
  shows "fine_inv (st\<lparr>sh := unregisterOnline u (sh st)\<rparr>)"
proof (rule fine_inv_fewer [OF inv])
  show "rooms_wf (unregisterOnline u (sh st))"
    using fine_invD(1) [OF inv] by (rule iffD1 [OF rooms_wf_cong, rotated -1]) (simp_all add: unregisterOnline_def)
qed (auto simp: unregisterOnline_def split: if_splits)

text \<open>A member is added by its own connection.\<close>

lemma fine_inv_join:
  assumes inv: "fine_inv st" and c: "at st c = Holds r rr rid Joining"
  shows "fine_inv (st\<lparr>sh := addClient rr r (sh st)\<rparr>)"
proof -
  let ?g = "addClient rr r (sh st)"
  have own: "r < nextClient (sh st)" "c_Send (clientH (sh st) r) = c"
    using fine_invD(2) [OF inv, unfolded own_client_def, rule_format, of c r] c by simp_all
  have s: "serves a ?g u q = serves a (sh st) u q" for a u q by (simp add: serves_def addClient_def)
  have me: "serves (at st) (sh st) (c_UserID (clientH (sh st) r)) r" using own c by (simp add: serves_def)
  have "rooms_served (at st) ?g"
    using fine_invD(4) [OF inv] me own c unfolding rooms_served_def s
    by (auto simp: addClient_def Room_add_def split: if_splits)
  moreover have "held_ok (at st) ?g"
    using fine_invD(6) [OF inv] by (simp add: held_ok_def addClient_def Room_add_def)
  moreover have "online_served (at st) ?g"
    using fine_invD(3) [OF inv] s by (simp add: online_served_def) (simp add: addClient_def)
  ultimately show ?thesis
    using fine_invD [OF inv] rooms_wf_addClient [of "sh st"]
    by (simp add: fine_inv_def own_client_def gone_closed_def addClient_def)
qed

text \<open>A client object is made and registered.\<close>

lemma fine_inv_login:
  assumes inv: "fine_inv st" and c: "at st c = Anon \<or> (at st c = Idle q \<and> c_UserID (clientH (sh st) q) = uid)"
    and new: "new_client uid c (sh st) = (r, g)"
  shows "fine_inv (st\<lparr>sh := registerOnline uid r g, at := (at st)(c := Idle r)\<rparr>)"
proof -
  let ?a = "(at st)(c := Idle r)" and ?g = "registerOnline uid r g"
  have g: "nextClient (sh st) = r" "nextClient ?g = Suc r" "chanH ?g = chanH (sh st)" "rooms ?g = rooms (sh st)"
    "roomH ?g = roomH (sh st)" "nextRoom ?g = nextRoom (sh st)" "onlineUsers ?g = (onlineUsers (sh st))(uid \<mapsto> r)"
    "clientH ?g = (clientH (sh st))(r := \<lparr>c_UserID = uid, c_Conn = c, c_Send = c, c_lastSeen = 0\<rparr>)"
    using new by (auto simp: new_client_def registerOnline_def)
  have own: "who (at st d) = Some x \<Longrightarrow> x < r \<and> c_Send (clientH (sh st) x) = d" for d x
    using fine_invD(2) [OF inv] g(1) by (simp add: own_client_def)
  have keep: "serves ?a ?g u x" if sv: "serves (at st) (sh st) u x" for u x
  proof -
    obtain y where y: "x < r" "c_UserID (clientH (sh st) x) = u" "who (at st (c_Send (clientH (sh st) x))) = Some y"
      "c_UserID (clientH (sh st) y) = u"
      using sv unfolding serves_def g(1) by blast
    have "y < r" using own [OF y(3)] by simp
    then show ?thesis using y c by (auto simp: serves_def g)
  qed
  have me: "serves ?a ?g uid r" by (simp add: serves_def g)
  have "rooms_served ?a ?g"
  proof -
    have "x < r" if "serves (at st) (sh st) u x" for u x using that g(1) by (simp add: serves_def)
    then show ?thesis
      using fine_invD(4) [OF inv] keep unfolding rooms_served_def g by fastforce
  qed
  moreover have "online_served ?a ?g"
    using fine_invD(3) [OF inv] keep me unfolding online_served_def by (simp add: g)
  moreover have "own_client ?a ?g" using own by (auto simp: own_client_def g less_SucI)
  moreover have "gone_closed ?a ?g" using fine_invD(5) [OF inv] c by (auto simp: gone_closed_def g)
  moreover have "held_ok ?a ?g" using fine_invD(6) [OF inv] by (simp add: held_ok_def g)
  moreover have "rooms_wf ?g" using fine_invD(1) [OF inv] by (simp add: rooms_wf_def g)
  ultimately show ?thesis by (simp add: fine_inv_def)
qed

text \<open>A goroutine that no entry refers to any more may stop, and its channel may be closed.\<close>

lemma fine_inv_stop:
  assumes inv: "fine_inv st" and c: "at st c \<noteq> Gone"
    and online: "\<And>u q. onlineUsers (sh st) u = Some q \<Longrightarrow> c_Send (clientH (sh st) q) \<noteq> c"
    and rooms: "\<And>rid rr u q. rooms (sh st) rid = Some rr \<Longrightarrow> r_clients (roomH (sh st) rr) u = Some q
        \<Longrightarrow> c_Send (clientH (sh st) q) \<noteq> c"
  shows "fine_inv (st\<lparr>at := (at st)(c := Closing)\<rparr>)"
proof -
  let ?a = "(at st)(c := Closing)"
  have "serves ?a (sh st) u q = serves (at st) (sh st) u q" if "c_Send (clientH (sh st) q) \<noteq> c" for u q
    using that by (simp add: serves_def)
  then have "online_served ?a (sh st)" "rooms_served ?a (sh st)"
    using fine_invD(3,4) [OF inv] online rooms unfolding online_served_def rooms_served_def by fastforce+
  then show ?thesis
    using inv c by (auto simp: fine_inv_def own_client_def gone_closed_def held_ok_def)
qed

lemma fine_inv_close:
  assumes inv: "fine_inv st" and c: "at st c = Closing" "close_chan c (sh st) = Returns g"
  shows "fine_inv (st\<lparr>sh := g, at := (at st)(c := Gone)\<rparr>)"
proof -
  let ?a = "(at st)(c := Gone)"
  have g: "g = (sh st)\<lparr>chanH := (chanH (sh st))(c := (chanH (sh st) c)\<lparr>ch_closed := True\<rparr>)\<rparr>"
    using c(2) by (simp add: close_chan_def split: if_splits)
  have s: "serves ?a (sh st) u q = serves (at st) (sh st) u q" for u q
    by (rule serves_cong) (simp add: c(1))
  have sg: "serves ?a g u q = serves ?a (sh st) u q" for u q by (simp add: g serves_def)
  have "rooms_served ?a g" "online_served ?a g"
    using fine_invD(3,4) [OF inv] c(1) unfolding rooms_served_def online_served_def sg s by (auto simp: g)
  moreover have "rooms_wf g" using fine_invD(1) [OF inv] by (simp add: rooms_wf_def g)
  moreover have "own_client ?a g" "gone_closed ?a g" "held_ok ?a g"
    using fine_invD(2,5,6) [OF inv] by (auto simp: own_client_def gone_closed_def held_ok_def g split: if_splits)
  ultimately show ?thesis by (simp add: fine_inv_def)
qed

section \<open>Every step keeps it\<close>

lemma fine_inv_goto:
  assumes inv: "fine_inv (st\<lparr>sh := g\<rparr>)" and who: "who p = who (at st c)" and gone: "at st c \<noteq> Gone" "p \<noteq> Gone"
    and cov: "\<And>rid rr u q. rooms g rid = Some rr \<Longrightarrow> r_clients (roomH g rr) u = Some q \<Longrightarrow>
        serves (at st) g u q \<Longrightarrow> c_Send (clientH g q) = c \<Longrightarrow> covers (at st c) rid rr \<Longrightarrow> covers p rid rr"
    and held: "\<And>r rr rid i. p = Holds r rr rid i \<Longrightarrow> rr < nextRoom g \<and> r_ID (roomH g rr) = rid"
  shows "fine_inv (st\<lparr>sh := g, at := (at st)(c := p)\<rparr>)"
  using fine_inv_move [of "st\<lparr>sh := g\<rparr>" p c] assms by simp

lemma covers_other:
  "\<forall>L. i \<noteq> Cleaning L \<Longrightarrow> covers (Holds r rr rid i) rid' rr' = (rid' = rid \<longrightarrow> rr' = rr)"
  "\<forall>L. i \<noteq> Cleaning L \<Longrightarrow> covers (Missed r rid i) rid' rr'"
  by (cases i; simp)+

lemma covers_created:
  "covers (Missed r rid i) rid' rr' \<Longrightarrow> (rid' = rid \<Longrightarrow> rr' = rr) \<Longrightarrow> covers (Holds r rr rid i) rid' rr'"
  by (cases i) auto

lemma same_tables_returned: "same_tables s (state_of r) \<Longrightarrow> r = Returns g \<Longrightarrow> same_tables s g"
  by simp

lemma removed_key: "r_clients (roomH (removeClient rr r s) rr) (c_UserID (clientH s r)) = None"
  by (simp add: removeClient_def Room_remove_def)

lemma removeClient_tables: "rooms (removeClient rr r s) = rooms s" "clientH (removeClient rr r s) = clientH s"
  by (simp_all add: removeClient_def)

theorem fine_inv_step:
  assumes "istep st st'" "fine_inv st"
  shows "fine_inv st'"
  using assms(1)
proof cases
  case (aside h sv cl)
  then show ?thesis using fine_inv_same [OF assms(2)] by (simp add: same_tables_def)
next
  case (accepted c)
  let ?g = "(sh st)\<lparr>chanH := (chanH (sh st))(c := make_chan)\<rparr>"
  have "\<not> ch_closed (chanH (sh st) c)"
    using fine_invD(5) [OF assms(2)] accepted(2) by (simp add: gone_closed_def)
  then have "same_tables (sh st) ?g" by (simp add: same_tables_def make_chan_def)
  then show ?thesis unfolding accepted(1)
    by (intro fine_inv_goto [OF fine_inv_same [OF assms(2)]]) (use accepted(2) in simp_all)
next
  case (taken c b g)
  then show ?thesis using fine_inv_same [OF assms(2)] same_tables_recv by simp
next
  case (replied c r b g)
  then show ?thesis
    using fine_inv_same [OF assms(2)] same_tables_returned [OF same_tables_send] by simp
next
  case (beat c r now)
  then show ?thesis using fine_inv_same [OF assms(2) same_tables_touch] by simp
next
  case (login c q uid r g)
  then show ?thesis using fine_inv_login [OF assms(2)] by blast
next
  case (found c r i rid rr)
  show ?thesis unfolding found(1)
    by (rule fine_inv_move [OF assms(2)])
      (use found rooms_wfD(1,2) [OF fine_invD(1) [OF assms(2)]] covers_other(1) in auto)
next
  case (missing c r i rid)
  show ?thesis unfolding missing(1)
    by (rule fine_inv_move [OF assms(2)]) (use missing covers_other(2) in auto)
next
  case (created c r rid i rr g)
  have rr: "rooms g rid = Some rr"
    using created(4) by (auto simp: createRoom_def split: option.splits)
  note inv = fine_inv_create [OF assms(2) created(4)]
  show ?thesis unfolding created(1)
    by (rule fine_inv_goto [OF inv])
      (use created(2) rr rooms_wfD(1,2) [OF fine_invD(1) [OF inv]] in \<open>auto intro: covers_created\<close>)
next
  case (joined c r rr rid)
  show ?thesis unfolding joined(1)
    by (rule fine_inv_goto [OF fine_inv_join [OF assms(2) joined(2)]]) (use joined(2) in simp_all)
next
  case (removed c r rr rid i L)
  note inv = fine_inv_remove [OF assms(2), of rr r]
  show ?thesis unfolding removed(1)
  proof (rule fine_inv_goto [OF inv])
    fix rid' rr' u q
    assume entry: "r_clients (roomH (removeClient rr r (sh st)) rr') u = Some q"
      "serves (at st) (removeClient rr r (sh st)) u q" "c_Send (clientH (removeClient rr r (sh st)) q) = c"
      and cov: "covers (at st c) rid' rr'"
    have "u = c_UserID (clientH (sh st) r)"
      using serves_who [OF entry(2) _ entry(3)] removed(2) by (simp add: removeClient_tables)
    then have "rr' \<noteq> rr" using removed_key [of rr r "sh st"] entry(1) by auto
    then show "covers (Removed r rid i) rid' rr'" using cov removed(2,3) by auto
  qed (use removed(2) in simp_all)
next
  case (left c r rid)
  show ?thesis unfolding left(1)
    by (rule fine_inv_goto [OF fine_inv_collect [OF assms(2)]]) (use left(2) in simp_all)
next
  case (swept c r rid L)
  show ?thesis unfolding swept(1)
    by (rule fine_inv_goto [OF fine_inv_collect [OF assms(2)]]) (use swept(2) in simp_all)
next
  case (said c r rr rid b ord g)
  have "same_tables (sh st) g" by (rule same_tables_returned [OF same_tables_broadcast said(4)])
  then show ?thesis unfolding said(1)
    by (intro fine_inv_goto [OF fine_inv_same [OF assms(2)]]) (use said(2) in simp_all)
next
  case (aimed c r u q bs)
  show ?thesis unfolding aimed(1)
    by (rule fine_inv_move [OF assms(2)]) (use aimed in simp_all)
next
  case (shot c r q b bs g)
  have "same_tables (sh st) g" by (rule same_tables_returned [OF same_tables_send_client shot(3)])
  then show ?thesis unfolding shot(1)
    by (intro fine_inv_goto [OF fine_inv_same [OF assms(2)]]) (use shot(2) in simp_all)
next
  case (released c r q)
  show ?thesis unfolding released(1)
    by (rule fine_inv_move [OF assms(2)]) (use released in simp_all)
next
  case (hung_up c)
  show ?thesis unfolding hung_up(1)
    by (rule fine_inv_move [OF assms(2)]) (use hung_up in simp_all)
next
  case (ended c r ord)
  show ?thesis unfolding ended(1)
    by (rule fine_inv_move [OF assms(2)]) (use ended(2) range_orderD(2) [OF ended(3)] in auto)
next
  case (looked c r rid todo acc rr acc')
  show ?thesis unfolding looked(1)
  proof (rule fine_inv_move [OF assms(2)])
    fix rid' rr' u q
    assume entry: "rooms (sh st) rid' = Some rr'" "r_clients (roomH (sh st) rr') u = Some q"
      "serves (at st) (sh st) u q" "c_Send (clientH (sh st) q) = c" and cov: "covers (at st c) rid' rr'"
    then have "u = c_UserID (clientH (sh st) r)" using serves_who [OF entry(3) _ entry(4)] looked(2) by simp
    then have "rid' = rid \<Longrightarrow> rid \<in> set acc'"
      using entry(1,2) looked(3,4) by (simp add: Contains_def Room_client_def)
    then show "covers (Scan r todo acc') rid' rr'" using cov looked(2,4) by auto
  qed (use looked(2) in simp_all)
next
  case (scanned c r acc)
  show ?thesis unfolding scanned(1)
    by (rule fine_inv_move [OF assms(2)]) (use scanned in simp_all)
next
  case (sweep_found c r rid L rr)
  show ?thesis unfolding sweep_found(1)
    by (rule fine_inv_move [OF assms(2)])
      (use sweep_found rooms_wfD(1,2) [OF fine_invD(1) [OF assms(2)]] in auto)
next
  case (sweep_missing c r rid L)
  show ?thesis unfolding sweep_missing(1)
    by (rule fine_inv_move [OF assms(2)]) (use sweep_missing in auto)
next
  case (unregistered c r)
  let ?u = "c_UserID (clientH (sh st) r)"
  let ?st = "st\<lparr>sh := unregisterOnline ?u (sh st)\<rparr>"
  note inv = fine_inv_unregister [OF assms(2), of ?u]
  have me: "who (at st c) = Some r" using unregistered(2) by simp
  have online: "c_Send (clientH (sh ?st) q) \<noteq> c" if "onlineUsers (sh ?st) v = Some q" for v q
  proof
    assume q: "c_Send (clientH (sh ?st) q) = c"
    have "serves (at st) (sh st) v q" "v \<noteq> ?u"
      using that fine_invD(3) [OF assms(2)] by (auto simp: unregisterOnline_def online_served_def split: if_splits)
    then show False
      using serves_who [where a = "at st" and s = "sh st" and u = v and q = q and c = c and r = r] me q
      by (simp add: unregisterOnline_def)
  qed
  have rooms: "c_Send (clientH (sh ?st) q) \<noteq> c"
    if "rooms (sh ?st) rid = Some rr" "r_clients (roomH (sh ?st) rr) v = Some q" for rid rr v q
    using that fine_invD(4) [OF assms(2)] unregistered(2) by (fastforce simp: rooms_served_def unregisterOnline_def)
  have "fine_inv (?st\<lparr>at := (at ?st)(c := Closing)\<rparr>)"
    by (rule fine_inv_stop [OF inv]) (use online rooms unregistered(2) in auto)
  then show ?thesis unfolding unregistered(1) by simp
next
  case (closed c g)
  then show ?thesis using fine_inv_close [OF assms(2)] by blast
qed

lemma fine_inv_begin: "fine_inv begin_rt"
  by (simp add: fine_inv_def begin_rt_def served_defs empty_gw_def rooms_wf_def make_chan_def)

interpretation interleaved: invariant_system begin_rt istep fine_inv
  by unfold_locales (auto intro: fine_inv_begin fine_inv_step)

end
