(* ===== verification/InterleavingProperties.thy ===== *)
theory InterleavingProperties
  imports Interleaving HandlerFrame
begin

text \<open>
  Properties of the interleaved connections: which entries are live, when a join is lost and which
  sends can panic. That the steps of \<open>Gateway\<close> are runs of these ones is shown in \<open>Atomicity\<close>.
\<close>

section \<open>Live entries and safe sends\<close>

text \<open>
  C2: the tables only hold live entries even when the goroutines interleave between any two critical
  sections. In every state reached by panic-free steps of connections that keep their user ID, the
  client object under a user ID, online or in a room of the table, sends to a connection whose
  goroutine still serves that user and whose channel is open; so a broadcast over a room that is
  still in the table, and a send to a client that is still online, return.
\<close>

theorem interleaved_entries_live:
  assumes "rtranclp istep begin_rt st"
  shows "(\<forall>u q. onlineUsers (sh st) u = Some q \<or> (\<exists>rid. abs_members (abs_rooms (sh st)) rid u = Some q) \<longrightarrow>
       (\<exists>r. who (at st (c_Send (clientH (sh st) q))) = Some r \<and> c_UserID (clientH (sh st) r) = u)
       \<and> \<not> ch_closed (chanH (sh st) (c_Send (clientH (sh st) q))))
     \<and> (\<forall>rid rr ord b. rooms (sh st) rid = Some rr \<longrightarrow> returns (broadcast rr ord b (sh st)))
     \<and> (\<forall>u q b. getOnlineClient u (sh st) = Some q \<longrightarrow> returns (send_client q b (sh st)))"
proof -
  note inv = fine_invD [OF interleaved.inv_reachable [OF assms]]
  have gone: "\<not> ch_closed (chanH (sh st) c)" if "who (at st c) = Some r" for c r
    using inv(5) that by (auto simp: gone_closed_def)
  have room: "serves (at st) (sh st) u q" if "rooms (sh st) rid = Some rr" "r_clients (roomH (sh st) rr) u = Some q" for rid rr u q
    using inv(4) that unfolding rooms_served_def by blast
  have online: "serves (at st) (sh st) u q" if "onlineUsers (sh st) u = Some q" for u q
    using inv(3) that unfolding online_served_def by blast
  have live: "\<not> ch_closed (chanH (sh st) (c_Send (clientH (sh st) q)))" if "serves (at st) (sh st) u q" for u q
    using that gone unfolding serves_def by blast
  show ?thesis
  proof (intro conjI allI impI)
    fix u q
    assume "onlineUsers (sh st) u = Some q \<or> (\<exists>rid. abs_members (abs_rooms (sh st)) rid u = Some q)"
    then have s: "serves (at st) (sh st) u q"
      using online room by (auto simp: abs_members_def abs_rooms_def split: option.splits)
    then show "\<exists>r. who (at st (c_Send (clientH (sh st) q))) = Some r \<and> c_UserID (clientH (sh st) r) = u"
      unfolding serves_def by blast
    show "\<not> ch_closed (chanH (sh st) (c_Send (clientH (sh st) q)))" using live [OF s] .
  next
    fix rid rr ord b
    assume "rooms (sh st) rid = Some rr"
    then show "returns (broadcast rr ord b (sh st))"
      using room live unfolding broadcast_returns_iff all_open_def by blast
  next
    fix u q b
    assume "getOnlineClient u (sh st) = Some q"
    then show "returns (send_client q b (sh st))"
      using online live by (auto simp: getOnlineClient_def send_client_def sendq.deliver_returns_iff)
  qed
qed

section \<open>A run with three users\<close>

definition user_object :: "string \<Rightarrow> nat \<Rightarrow> Client" where
  "user_object u c = \<lparr>c_UserID = u, c_Conn = c, c_Send = c, c_lastSeen = 0\<rparr>"

definition three_online :: gw_state where
  "three_online = empty_gw\<lparr>onlineUsers := [''a'' \<mapsto> 0, ''b'' \<mapsto> 1, ''c'' \<mapsto> 2],
     clientH := (clientH empty_gw)(0 := user_object ''a'' 0, 1 := user_object ''b'' 1, 2 := user_object ''c'' 2),
     nextClient := 3\<rparr>"

definition at3 :: "pc \<Rightarrow> pc \<Rightarrow> pc \<Rightarrow> nat \<Rightarrow> pc" where
  "at3 p q r = (\<lambda>_. Outside)(0 := p, 1 := q, 2 := r)"

lemma at3_simps [simp]:
  "at3 p q r 0 = p" "at3 p q r 1 = q" "at3 p q r (Suc 0) = q" "at3 p q r 2 = r" "at3 p q r (Suc (Suc 0)) = r"
  "(at3 p q r)(0 := x) = at3 x q r" "(at3 p q r)(1 := x) = at3 p x r" "(at3 p q r)(Suc 0 := x) = at3 p x r"
  "(at3 p q r)(2 := x) = at3 p q x" "(at3 p q r)(Suc (Suc 0) := x) = at3 p q x"
  by (auto simp: at3_def fun_eq_iff numeral_2_eq_2)

lemma unscanned_at3 [simp]: "unscanned (at3 p q r) \<longleftrightarrow> \<not> scans p \<and> \<not> scans q \<and> \<not> scans r"
proof -
  have "c = 0 \<or> c = 1 \<or> c = 2 \<or> at3 p q r c = Outside" for c by (simp add: at3_def)
  then show ?thesis unfolding unscanned_def by (metis at3_simps(1,2,4) scans.simps(2))
qed

lemma begin_at3: "begin_rt = \<lparr>sh = empty_gw, at = at3 Outside Outside Outside\<rparr>"
  by (auto simp: begin_rt_def at3_def)

lemma log_in:
  assumes "at st c = Outside" "nextClient (sh st) = n" "chanH (sh st) c = make_chan"
  shows "rtranclp istep st (st\<lparr>sh := (sh st)\<lparr>clientH := (clientH (sh st))(n := user_object u c), nextClient := Suc n,
        onlineUsers := (onlineUsers (sh st))(u \<mapsto> n)\<rparr>, at := (at st)(c := Idle n)\<rparr>)"
proof -
  have "(chanH (sh st))(c := make_chan) = chanH (sh st)" using assms(3) by auto
  then have "istep st (st\<lparr>at := (at st)(c := Anon)\<rparr>)"
    using istep.accepted [OF assms(1)] by simp
  moreover have "istep (st\<lparr>at := (at st)(c := Anon)\<rparr>) (st\<lparr>sh := (sh st)\<lparr>clientH := (clientH (sh st))(n := user_object u c),
      nextClient := Suc n, onlineUsers := (onlineUsers (sh st))(u \<mapsto> n)\<rparr>, at := (at st)(c := Idle n)\<rparr>)"
    using istep.login [of "st\<lparr>at := (at st)(c := Anon)\<rparr>" c 0 u n "snd (new_client u c (sh st))"] assms(2)
    by (simp add: new_client_def registerOnline_def user_object_def)
  ultimately show ?thesis by simp
qed

lemma three_online_reachable:
  "rtranclp istep begin_rt \<lparr>sh = three_online, at = at3 (Idle 0) (Idle 1) (Idle 2)\<rparr>"
proof -
  let ?s0 = "\<lparr>sh = empty_gw\<lparr>onlineUsers := [''a'' \<mapsto> 0], clientH := (clientH empty_gw)(0 := user_object ''a'' 0), nextClient := 1\<rparr>,
     at = at3 (Idle 0) Outside Outside\<rparr>"
  let ?s1 = "\<lparr>sh = empty_gw\<lparr>onlineUsers := [''a'' \<mapsto> 0, ''b'' \<mapsto> 1], clientH := (clientH empty_gw)(0 := user_object ''a'' 0,
     1 := user_object ''b'' 1), nextClient := 2\<rparr>, at = at3 (Idle 0) (Idle 1) Outside\<rparr>"
  have "rtranclp istep begin_rt ?s0"
    using log_in [of begin_rt 0 0 "''a''"] by (simp add: begin_at3 empty_gw_def)
  moreover have "rtranclp istep ?s0 ?s1"
    using log_in [of ?s0 1 1 "''b''"] by (simp add: empty_gw_def numeral_2_eq_2)
  moreover have "rtranclp istep ?s1 \<lparr>sh = three_online, at = at3 (Idle 0) (Idle 1) (Idle 2)\<rparr>"
    using log_in [of ?s1 2 2 "''c''"] by (simp add: empty_gw_def three_online_def numeral_3_eq_3 numeral_2_eq_2)
  ultimately show ?thesis by (meson rtranclp_trans)
qed

text \<open>
  User \<open>a\<close> makes a room and joins it; while \<open>b\<close>, who joins, and \<open>c\<close>, who sends, hold the room object,
  \<open>a\<close> leaves and the room is taken out of the table; \<open>b\<close> joins the object and goes away.
\<close>

definition room_made :: gw_state where
  "room_made = snd (createRoom ''r'' three_online)"

definition a_joined :: gw_state where
  "a_joined = addClient 0 0 room_made"

definition a_left :: gw_state where
  "a_left = removeEmptyRoom ''r'' (removeClient 0 0 a_joined)"

definition b_lost :: gw_state where
  "b_lost = addClient 0 1 a_left"

lemma run_tables:
  "rooms three_online = Map.empty" "createRoom ''r'' three_online = (0, room_made)"
  "rooms a_joined = [''r'' \<mapsto> 0]" "r_clients (roomH a_joined 0) = [''a'' \<mapsto> 0]" "rooms a_left = Map.empty"
  "r_clients (roomH a_left 0) = Map.empty" "rooms b_lost = Map.empty" "r_clients (roomH b_lost 0) = [''b'' \<mapsto> 1]"
  "clientH b_lost 1 = user_object ''b'' 1" "chanH b_lost 1 = make_chan"
  "clientH three_online 1 = user_object ''b'' 1" "chanH three_online 1 = make_chan"
  by (simp_all add: b_lost_def a_left_def a_joined_def room_made_def three_online_def createRoom_def addClient_def
      Room_add_def removeClient_def Room_remove_def removeEmptyRoom_def newRoom_def unregisterOnline_def close_chan_def
      user_object_def make_chan_def empty_gw_def fun_eq_iff)

lemma lost_run_1:
  "rtranclp istep \<lparr>sh = three_online, at = at3 (Idle 0) (Idle 1) (Idle 2)\<rparr>
     \<lparr>sh = a_joined, at = at3 (Idle 0) (Holds 1 0 ''r'' Joining) (Holds 2 0 ''r'' (Sending b))\<rparr>"
proof -
  let ?t0 = "\<lparr>sh = three_online, at = at3 (Idle 0) (Idle 1) (Idle 2)\<rparr>"
  let ?t1 = "\<lparr>sh = three_online, at = at3 (Missed 0 ''r'' Joining) (Idle 1) (Idle 2)\<rparr>"
  let ?t2 = "\<lparr>sh = room_made, at = at3 (Holds 0 0 ''r'' Joining) (Idle 1) (Idle 2)\<rparr>"
  let ?t3 = "\<lparr>sh = a_joined, at = at3 (Idle 0) (Idle 1) (Idle 2)\<rparr>"
  let ?t4 = "\<lparr>sh = a_joined, at = at3 (Idle 0) (Holds 1 0 ''r'' Joining) (Idle 2)\<rparr>"
  have "istep ?t0 ?t1" using istep.missing [of ?t0 0 0 Joining "''r''"] by (simp add: run_tables)
  moreover have "istep ?t1 ?t2" using istep.created [of ?t1 0 0 "''r''" Joining 0 room_made] by (simp add: run_tables)
  moreover have "istep ?t2 ?t3" using istep.joined [of ?t2 0 0 0 "''r''"] by (simp add: a_joined_def)
  moreover have "istep ?t3 ?t4" using istep.found [of ?t3 1 1 Joining "''r''" 0] by (simp add: run_tables)
  moreover have "istep ?t4 \<lparr>sh = a_joined, at = at3 (Idle 0) (Holds 1 0 ''r'' Joining) (Holds 2 0 ''r'' (Sending b))\<rparr>"
    using istep.found [of ?t4 2 2 "Sending b" "''r''" 0] by (simp add: run_tables)
  ultimately show ?thesis by (meson converse_rtranclp_into_rtranclp rtranclp.rtrancl_refl)
qed

lemma lost_run_2:
  assumes "\<not> scans p"
  shows "rtranclp istep \<lparr>sh = a_joined, at = at3 (Idle 0) (Holds 1 0 ''r'' Joining) p\<rparr>
     \<lparr>sh = a_left, at = at3 (Idle 0) (Holds 1 0 ''r'' Joining) p\<rparr>"
proof -
  let ?t0 = "\<lparr>sh = a_joined, at = at3 (Idle 0) (Holds 1 0 ''r'' Joining) p\<rparr>"
  let ?t1 = "\<lparr>sh = a_joined, at = at3 (Holds 0 0 ''r'' Leaving) (Holds 1 0 ''r'' Joining) p\<rparr>"
  let ?t2 = "\<lparr>sh = removeClient 0 0 a_joined, at = at3 (Removed 0 ''r'' Leaving) (Holds 1 0 ''r'' Joining) p\<rparr>"
  have "istep ?t0 ?t1" using istep.found [of ?t0 0 0 Leaving "''r''" 0] by (simp add: run_tables)
  moreover have "istep ?t1 ?t2" using istep.removed [of ?t1 0 0 0 "''r''" Leaving] by simp
  moreover have "istep ?t2 \<lparr>sh = a_left, at = at3 (Idle 0) (Holds 1 0 ''r'' Joining) p\<rparr>"
    using istep.left [of ?t2 0 0 "''r''"] assms by (simp add: a_left_def)
  ultimately show ?thesis by (meson converse_rtranclp_into_rtranclp rtranclp.rtrancl_refl)
qed

lemma lost_run_3:
  "istep \<lparr>sh = a_left, at = at3 (Idle 0) (Holds 1 0 ''r'' Joining) p\<rparr> \<lparr>sh = b_lost, at = at3 (Idle 0) (Idle 1) p\<rparr>"
  using istep.joined [of "\<lparr>sh = a_left, at = at3 (Idle 0) (Holds 1 0 ''r'' Joining) p\<rparr>" 1 1 0 "''r''"]
  by (simp add: b_lost_def)

lemma race_reachable:
  "rtranclp istep begin_rt \<lparr>sh = a_left, at = at3 (Idle 0) (Holds 1 0 ''r'' Joining) (Holds 2 0 ''r'' (Sending b))\<rparr>"
  by (rule rtranclp_trans [OF rtranclp_trans [OF three_online_reachable lost_run_1] lost_run_2]) simp

theorem interleaved_entries_live_witness:
  "(\<exists>r. who (at3 (Idle 0) (Holds 1 0 ''r'' Joining) (Holds 2 0 ''r'' (Sending [])) (c_Send (clientH a_joined 0))) = Some r
      \<and> c_UserID (clientH a_joined r) = ''a'')
   \<and> \<not> ch_closed (chanH a_joined (c_Send (clientH a_joined 0)))
   \<and> returns (broadcast 0 [''a''] [] a_joined) \<and> returns (send_client 1 [] a_joined)"
proof -
  let ?st = "\<lparr>sh = a_joined, at = at3 (Idle 0) (Holds 1 0 ''r'' Joining) (Holds 2 0 ''r'' (Sending []))\<rparr>"
  have "rtranclp istep begin_rt ?st"
    using three_online_reachable lost_run_1 by (rule rtranclp_trans)
  note live = interleaved_entries_live [OF this]
  have "abs_members (abs_rooms a_joined) ''r'' ''a'' = Some 0"
    by (simp add: abs_members_def abs_rooms_def run_tables)
  moreover have "rooms a_joined ''r'' = Some 0" "getOnlineClient ''b'' a_joined = Some 1"
    by (simp_all add: run_tables getOnlineClient_def)
      (simp add: a_joined_def room_made_def createRoom_def addClient_def three_online_def empty_gw_def)
  ultimately show ?thesis
    using live [THEN conjunct1, rule_format, of "''a''" 0] live [THEN conjunct2, THEN conjunct1]
      live [THEN conjunct2, THEN conjunct2] by auto
qed

text \<open>A connection without rooms ends, from the state after that join or from the first one.\<close>

definition ended :: "gw_state \<Rightarrow> gw_state" where
  "ended g = state_of (close_chan 1 (unregisterOnline ''b'' g))"

lemma lost_run_4:
  assumes "rooms g = Map.empty" "clientH g 1 = user_object ''b'' 1" "chanH g 1 = make_chan"
  shows "rtranclp istep \<lparr>sh = g, at = at3 (Idle 0) (Idle 1) p\<rparr> \<lparr>sh = ended g, at = at3 (Idle 0) Gone p\<rparr>"
proof -
  let ?t0 = "\<lparr>sh = g, at = at3 (Idle 0) (Idle 1) p\<rparr>"
  let ?scan = "\<lparr>sh = g, at = at3 (Idle 0) (Scan 1 [] []) p\<rparr>"
  let ?t1 = "\<lparr>sh = g, at = at3 (Idle 0) (Sweep 1 []) p\<rparr>"
  let ?t2 = "\<lparr>sh = unregisterOnline ''b'' g, at = at3 (Idle 0) Closing p\<rparr>"
  have "istep ?t0 ?scan" using istep.ended [of ?t0 1 1 "[]"] by (simp add: assms)
  moreover have "istep ?scan ?t1" using istep.scanned [of ?scan 1 1 "[]"] by simp
  moreover have "istep ?t1 ?t2"
    using istep.unregistered [of ?t1 1 1] by (simp add: assms user_object_def del: One_nat_def)
  moreover have "close_chan 1 (unregisterOnline ''b'' g) = Returns (ended g)"
    by (simp add: ended_def close_chan_def unregisterOnline_def assms make_chan_def del: One_nat_def)
  then have "istep ?t2 \<lparr>sh = ended g, at = at3 (Idle 0) Gone p\<rparr>"
    using istep.closed [of ?t2 1 "ended g"] by simp
  ultimately show ?thesis by (meson converse_rtranclp_into_rtranclp rtranclp.rtrancl_refl)
qed

lemma ended_state:
  "chanH g 1 = make_chan \<Longrightarrow> roomH (ended g) = roomH g \<and> clientH (ended g) = clientH g \<and> chanH (ended g) 1 = make_chan\<lparr>ch_closed := True\<rparr>"
  by (simp add: ended_def close_chan_def unregisterOnline_def make_chan_def)

section \<open>A join can be lost\<close>

text \<open>
  C37: a join can be lost. A connection that has looked up the room becomes a member, as everyone else
  sees the room, exactly when the object it holds is still the one in the table. When the last member
  leaves between \<open>getOrCreateRoom\<close> and \<open>addClient\<close>, it is not, and the new member is added to an
  object nobody can find any more, although \<open>joined\<close> is sent.
\<close>

theorem join_takes_effect_iff:
  assumes "rtranclp istep begin_rt st" "at st c = Holds r rr rid Joining"
  shows "abs_members (abs_rooms (addClient rr r (sh st))) rid (c_UserID (clientH (sh st) r)) = Some r
     \<longleftrightarrow> rooms (sh st) rid = Some rr"
proof -
  note inv = fine_invD [OF interleaved.inv_reachable [OF assms(1)]]
  have own: "c_Send (clientH (sh st) r) = c"
    using inv(2) [unfolded own_client_def, rule_format, of c r] assms(2) by simp
  have only: "rr' = rr" if "rooms (sh st) rid = Some rr'" "r_clients (roomH (sh st) rr') u = Some r" for rr' u
    using inv(4) [unfolded rooms_served_def, rule_format, OF that] own assms(2) by simp
  show ?thesis
  proof (cases "rooms (sh st) rid")
    case None
    then show ?thesis by (simp add: abs_members_def abs_rooms_def addClient_def)
  next
    case (Some rr')
    show ?thesis
    proof (cases "rr' = rr")
      case True
      then show ?thesis using Some by (simp add: abs_members_def abs_rooms_def addClient_def Room_add_def)
    next
      case False
      then have "r_clients (roomH (sh st) rr') (c_UserID (clientH (sh st) r)) \<noteq> Some r"
        using only [OF Some] by blast
      then show ?thesis using Some False by (simp add: abs_members_def abs_rooms_def addClient_def)
    qed
  qed
qed

theorem join_takes_effect_iff_witness:
  "(abs_members (abs_rooms (addClient 0 1 a_left)) ''r'' (c_UserID (clientH a_left 1)) = Some 1 \<longleftrightarrow> rooms a_left ''r'' = Some 0)
   \<and> rooms a_left ''r'' = None"
  using join_takes_effect_iff [OF race_reachable [of "[]"], of 1 1 0 "''r''"] by (simp add: run_tables)

section \<open>A send can still panic\<close>

text \<open>
  C7: a goroutine that is slow between two critical sections can still send on a closed channel. In
  this run user \<open>b\<close> has joined a room object that is no longer in the table, so its cleanup does not
  find it there; \<open>c\<close>, which looked the room up before, now broadcasts over it and panics. No
  connection has changed its user ID. The same holds for a client looked up before it went away.
\<close>

theorem stale_pointers_panic:
  "(\<exists>st. rtranclp istep begin_rt st \<and> at st 2 = Holds 2 0 ''r'' (Sending b) \<and> at st 1 = Gone
       \<and> range_order (r_clients (roomH (sh st) 0)) [''b''] \<and> broadcast 0 [''b''] b (sh st) = Panics (sh st))
   \<and> (\<exists>st. rtranclp istep begin_rt st \<and> at st 2 = Target 2 1 [b] \<and> at st 1 = Gone
       \<and> send_client 1 b (sh st) = Panics (sh st))"
proof (intro conjI exI)
  let ?s = "\<lparr>sh = ended b_lost, at = at3 (Idle 0) Gone (Holds 2 0 ''r'' (Sending b))\<rparr>"
  note e = ended_state [of b_lost, OF run_tables(10)]
  show "rtranclp istep begin_rt ?s"
    using race_reachable lost_run_3 lost_run_4 [of b_lost] run_tables
    by (meson rtranclp.rtrancl_into_rtrancl rtranclp_trans)
  show "broadcast 0 [''b''] b (sh ?s) = Panics (sh ?s)"
    using e by (simp add: broadcast_def broadcast_to_def run_tables user_object_def send_nb_def del: One_nat_def)
  show "range_order (r_clients (roomH (sh ?s) 0)) [''b'']"
    using e by (simp add: range_order_def run_tables)
  show "at ?s 2 = Holds 2 0 ''r'' (Sending b)" "at ?s 1 = Gone" by simp_all
  let ?t = "\<lparr>sh = ended three_online, at = at3 (Idle 0) Gone (Target 2 1 [b])\<rparr>"
  note e' = ended_state [of three_online, OF run_tables(12)]
  have "getOnlineClient ''b'' three_online = Some 1" by (simp add: three_online_def getOnlineClient_def)
  then have "istep \<lparr>sh = three_online, at = at3 (Idle 0) (Idle 1) (Idle 2)\<rparr>
      \<lparr>sh = three_online, at = at3 (Idle 0) (Idle 1) (Target 2 1 [b])\<rparr>"
    using istep.aimed [of "\<lparr>sh = three_online, at = at3 (Idle 0) (Idle 1) (Idle 2)\<rparr>" 2 2 "''b''" 1 "[b]"] by simp
  then show "rtranclp istep begin_rt ?t"
    using three_online_reachable lost_run_4 [of three_online] run_tables
    by (meson rtranclp.rtrancl_into_rtrancl rtranclp_trans)
  show "send_client 1 b (sh ?t) = Panics (sh ?t)"
    using e' by (simp add: send_client_def run_tables user_object_def send_nb_def del: One_nat_def)
  show "at ?t 2 = Target 2 1 [b]" "at ?t 1 = Gone" by simp_all
qed

end
