(* ===== verification/Atomicity.thy ===== *)
theory Atomicity
  imports Interleaving SystemProperties
begin

text \<open>
  The steps of \<open>Gateway\<close> are runs of the interleaved connections in which one goroutine goes on
  without being interrupted: each handler is a sequence of critical sections of its connection, and
  so are the cleanup and the end of a connection. What holds in every interleaved state therefore
  holds in every state of \<open>Gateway\<close>.
\<close>

section \<open>Runs of one goroutine\<close>

definition runs :: "nat \<Rightarrow> gw_state \<times> pc \<Rightarrow> gw_state \<times> pc \<Rightarrow> bool" where
  "runs c x y \<longleftrightarrow>
     (\<forall>a. unscanned a \<longrightarrow> rtranclp istep \<lparr>sh = fst x, at = a(c := snd x)\<rparr> \<lparr>sh = fst y, at = a(c := snd y)\<rparr>)"

lemma runs_refl [simp, intro]: "runs c x x"
  by (simp add: runs_def)

lemma runs_trans [trans]: "runs c x y \<Longrightarrow> runs c y z \<Longrightarrow> runs c x z"
  unfolding runs_def by (meson rtranclp_trans)

lemma runs_step:
  "(\<And>a. unscanned a \<Longrightarrow> istep \<lparr>sh = g, at = a(c := p)\<rparr> \<lparr>sh = g', at = a(c := p')\<rparr>) \<Longrightarrow> runs c (g, p) (g', p')"
  by (simp add: runs_def r_into_rtranclp)

lemma unscanned_upd [simp]: "unscanned a \<Longrightarrow> \<not> scans p \<Longrightarrow> unscanned (a(c := p))"
  by (simp add: unscanned_def)

definition at_rest :: "ws_local \<Rightarrow> pc" where
  "at_rest l = (case me l of None \<Rightarrow> Anon | Some r \<Rightarrow> Idle r)"

definition rests :: "pc \<Rightarrow> bool" where
  "rests p \<longleftrightarrow> p = Anon \<or> (\<exists>r. p = Idle r)"

lemma rests_simps [simp]: "rests Anon" "rests (Idle r)" "rests (at_rest l)"
  by (auto simp: rests_def at_rest_def split: option.split)

lemma at_rest_cong: "me l' = me l \<Longrightarrow> at_rest l' = at_rest l"
  by (simp add: at_rest_def)

section \<open>The pieces of the handlers\<close>

lemma runs_aside: "runs c (g, p) (g\<lparr>gw_trace := h, saves := sv, wsClosed := cl\<rparr>, p)"
  by (rule runs_step) (use istep.aside [of "\<lparr>sh = g, at = _(c := p)\<rparr>"] in simp)

lemma runs_trace [intro]: "runs c (g, p) (g\<lparr>gw_trace := h\<rparr>, p)"
  using runs_aside [where c = c and g = g and p = p and h = h and sv = "saves g" and cl = "wsClosed g"] by simp

lemma runs_log [intro]: "runs c (g, p) (log_call k g, p)"
  unfolding log_call_def by (rule runs_trace)

lemma runs_close_conn [intro]: "runs c (g, p) (close_conn d g, p)"
  using runs_aside [where c = c and g = g and p = p and h = "gw_trace g" and sv = "saves g" and cl = "(wsClosed g)(d := True)"]
  by (simp add: close_conn_def)

lemma runs_spawn [intro]: "runs c (g, p) (spawn_save srv cm g, p)"
  using runs_aside [where c = c and g = g and p = p and h = "gw_trace g" and sv = "saves g @ [cm]" and cl = "wsClosed g"]
  by (simp add: spawn_save_def split: option.split)

lemma runs_send:
  assumes "rests p" "send_nb c b g = Returns g'"
  shows "runs c (g, p) (g', p)"
proof (rule runs_step)
  fix a
  let ?st = "\<lparr>sh = g, at = a(c := p)\<rparr>"
  obtain r where "at ?st c = Anon \<or> at ?st c = Idle r" using assms(1) by (auto simp: rests_def)
  then show "istep ?st \<lparr>sh = g', at = a(c := p)\<rparr>" using istep.replied [of ?st c r b g'] assms(2) by simp
qed

lemma runs_reply: "rests p \<Longrightarrow> sendJSON c v g = Returns g' \<Longrightarrow> runs c (g, p) (g', p)"
  by (auto simp: sendJSON_def intro: runs_send split: option.splits)

lemma runs_error: "rests p \<Longrightarrow> send_error c msg g = Returns g' \<Longrightarrow> runs c (g, p) (g', p)"
  unfolding send_error_def by (rule runs_reply)

lemma andThen_Returns: "andThen r f = Returns t \<longleftrightarrow> (\<exists>s. r = Returns s \<and> f s = Returns t)"
  by (cases r) auto

lemma runs_lookup:
  assumes "getOrCreateRoom rid g = (rr, g')" "\<forall>L. i \<noteq> Cleaning L"
  shows "runs c (g, Idle r) (g', Holds r rr rid i)"
proof (cases "rooms g rid")
  case None
  have "runs c (g, Idle r) (g, Missed r rid i)"
    by (rule runs_step) (use istep.missing [of "\<lparr>sh = g, at = _(c := Idle r)\<rparr>" c r i rid] None assms(2) in simp)
  also have "runs c (g, Missed r rid i) (g', Holds r rr rid i)"
    by (rule runs_step)
      (use istep.created [of "\<lparr>sh = g, at = _(c := Missed r rid i)\<rparr>" c r rid i rr g'] None assms(1) in \<open>simp add: getOrCreateRoom_def\<close>)
  finally show ?thesis .
next
  case (Some q)
  show ?thesis
    by (rule runs_step)
      (use istep.found [of "\<lparr>sh = g, at = _(c := Idle r)\<rparr>" c r i rid q] Some assms in \<open>simp add: getOrCreateRoom_def\<close>)
qed

lemma runs_join: "runs c (g, Holds r rr rid Joining) (addClient rr r g, Idle r)"
  by (rule runs_step) (use istep.joined [of "\<lparr>sh = g, at = _(c := Holds r rr rid Joining)\<rparr>" c r rr rid] in simp)

lemma runs_remove:
  "i = Leaving \<or> i = Cleaning L \<Longrightarrow> runs c (g, Holds r rr rid i) (removeClient rr r g, Removed r rid i)"
  by (rule runs_step) (use istep.removed [of "\<lparr>sh = g, at = _(c := Holds r rr rid i)\<rparr>" c r rr rid i L] in simp)

lemma runs_leave: "runs c (g, Idle r) (leave_room r rid g, Idle r)"
proof -
  obtain rr g1 where g: "getOrCreateRoom rid g = (rr, g1)" by fastforce
  have "runs c (g, Idle r) (g1, Holds r rr rid Leaving)" by (rule runs_lookup [OF g]) simp
  also have "runs c (g1, Holds r rr rid Leaving) (removeClient rr r g1, Removed r rid Leaving)"
    by (rule runs_remove) simp
  also have "runs c (removeClient rr r g1, Removed r rid Leaving) (removeEmptyRoom rid (removeClient rr r g1), Idle r)"
    by (rule runs_step)
      (use istep.left [of "\<lparr>sh = removeClient rr r g1, at = _(c := Removed r rid Leaving)\<rparr>" c r rid] in simp)
  finally show ?thesis using g by (simp add: leave_room_def)
qed

lemma runs_sweep_one: "runs c (g, Sweep r (rid # L)) (leave_room r rid g, Sweep r L)"
proof -
  obtain rr g1 where g: "getOrCreateRoom rid g = (rr, g1)" by fastforce
  have "runs c (g, Sweep r (rid # L)) (g1, Holds r rr rid (Cleaning L))"
  proof (cases "rooms g rid")
    case None
    have "runs c (g, Sweep r (rid # L)) (g, Missed r rid (Cleaning L))"
      by (rule runs_step) (use istep.sweep_missing [of "\<lparr>sh = g, at = _(c := Sweep r (rid # L))\<rparr>" c r rid L] None in simp)
    also have "runs c (g, Missed r rid (Cleaning L)) (g1, Holds r rr rid (Cleaning L))"
      by (rule runs_step)
        (use istep.created [of "\<lparr>sh = g, at = _(c := Missed r rid (Cleaning L))\<rparr>" c r rid "Cleaning L" rr g1] None g
         in \<open>simp add: getOrCreateRoom_def\<close>)
    finally show ?thesis .
  next
    case (Some q)
    show ?thesis
      by (rule runs_step)
        (use istep.sweep_found [of "\<lparr>sh = g, at = _(c := Sweep r (rid # L))\<rparr>" c r rid L q] Some g in \<open>simp add: getOrCreateRoom_def\<close>)
  qed
  also have "runs c (g1, Holds r rr rid (Cleaning L)) (removeClient rr r g1, Removed r rid (Cleaning L))"
    by (rule runs_remove) simp
  also have "runs c (removeClient rr r g1, Removed r rid (Cleaning L)) (removeEmptyRoom rid (removeClient rr r g1), Sweep r L)"
    by (rule runs_step)
      (use istep.swept [of "\<lparr>sh = removeClient rr r g1, at = _(c := Removed r rid (Cleaning L))\<rparr>" c r rid L] in simp)
  finally show ?thesis using g by (simp add: leave_room_def)
qed

lemma runs_sweep: "runs c (g, Sweep r rids) (fold (leave_room r) rids g, Sweep r [])"
proof (induction rids arbitrary: g)
  case Nil
  then show ?case by simp
next
  case (Cons rid rids)
  show ?case unfolding fold_simps by (rule runs_trans [OF runs_sweep_one Cons])
qed

lemma runs_broadcast:
  assumes "range_order (r_clients (roomH g rr)) ord" "broadcast rr ord b g = Returns g'"
  shows "runs c (g, Holds r rr rid (Sending b)) (g', Idle r)"
  by (rule runs_step)
    (use istep.said [of "\<lparr>sh = g, at = _(c := Holds r rr rid (Sending b))\<rparr>" c r rr rid b ord g'] assms in simp)

lemma runs_shots:
  "for_each (\<lambda>m. send_client q (f m)) ms g = Returns g' \<Longrightarrow> runs c (g, Target r q (map f ms)) (g', Target r q [])"
proof (induction ms arbitrary: g)
  case Nil
  then show ?case by simp
next
  case (Cons m ms)
  obtain g1 where g1: "send_client q (f m) g = Returns g1" "for_each (\<lambda>m. send_client q (f m)) ms g1 = Returns g'"
    using Cons.prems by (auto simp: andThen_Returns)
  have "runs c (g, Target r q (map f (m # ms))) (g1, Target r q (map f ms))"
    by (rule runs_step)
      (use istep.shot [of "\<lparr>sh = g, at = _(c := Target r q (map f (m # ms)))\<rparr>" c r q "f m" "map f ms" g1] g1(1) in simp)
  also have "runs c (g1, Target r q (map f ms)) (g', Target r q [])" by (rule Cons.IH [OF g1(2)])
  finally show ?case .
qed

lemma runs_frames:
  assumes "getOnlineClient u g = Some q" "for_each (\<lambda>m. send_client q (f m)) ms g = Returns g'"
  shows "runs c (g, Idle r) (g', Idle r)"
proof -
  have "runs c (g, Idle r) (g, Target r q (map f ms))"
    by (rule runs_step) (use istep.aimed [of "\<lparr>sh = g, at = _(c := Idle r)\<rparr>" c r u q "map f ms"] assms(1) in simp)
  also have "runs c (g, Target r q (map f ms)) (g', Target r q [])" by (rule runs_shots [OF assms(2)])
  also have "runs c (g', Target r q []) (g', Idle r)"
    by (rule runs_step) (use istep.released [of "\<lparr>sh = g', at = _(c := Target r q [])\<rparr>" c r q] in simp)
  finally show ?thesis .
qed


lemma runs_save: "runs c (g, p) (run_save ms now cm g, p)"
  using runs_aside [where c = c and g = g and p = p and h = "snd (SaveMessage ms now cm (gw_trace g))"
      and sv = "remove1 cm (saves g)" and cl = "wsClosed g"]
  by (simp add: run_save_def)

lemma runs_disconnect: "runs c (g, p) (disconnectUser uid g, p)"
  by (auto simp: disconnectUser_def split: option.split)

lemma runs_redis: "runs c (g, p) (redis_set_online srv uid ttl now g, p)"
  by (auto simp: redis_set_online_def split: option.split intro: runs_trans)

lemma runs_ban: "runs c (g, p) (log_ban_check srv uid g, p)"
  by (auto simp: log_ban_check_def split: option.split)

lemma runs_refuse: "rests p \<Longrightarrow> refuse c hangup msg g = Returns g' \<Longrightarrow> runs c (g, p) (g', p)"
  by (auto simp: refuse_def andThen_Returns intro: runs_trans [OF runs_error] split: if_splits)

lemma runs_push:
  assumes "pushUndelivered srv uid g = Returns g'"
  shows "runs c (g, Idle r) (g', Idle r)"
proof (cases "gs_Mongo srv")
  case None
  then show ?thesis using assms by (simp add: pushUndelivered_def)
next
  case (Some ms)
  obtain res h where p: "PullUndeliveredForUser ms uid (gw_trace g) = (res, h)" by fastforce
  let ?g = "g\<lparr>gw_trace := h\<rparr>"
  have "runs c (?g, Idle r) (g', Idle r)"
    using assms Some p
    by (auto simp: pushUndelivered_def Let_def intro: runs_frames split: sum.splits if_splits option.splits)
  then show ?thesis by (rule runs_trans [OF runs_trace])
qed

lemma runs_load:
  assumes "load_history srv room limit dflt g = (his, g')"
  shows "runs c (g, p) (g', p)"
  using assms by (auto simp: load_history_def split: option.splits sum.splits prod.splits)

section \<open>The handlers\<close>

lemma with_local_Returns [simp]: "with_local l r = Returns (g', l') \<longleftrightarrow> r = Returns g' \<and> l' = l"
  by (cases r) auto

lemma runs_finish_auth:
  assumes p: "p = Anon \<or> (p = Idle q \<and> c_UserID (clientH g q) = uid)"
    and res: "finish_auth srv c e uid ttl (g, l) = Returns (g', l')"
  shows "runs c (g, p) (g', at_rest l')"
proof -
  obtain r g1 where new: "new_client uid c g = (r, g1)" by fastforce
  obtain g2 where l': "l' = l\<lparr>me := Some r\<rparr>"
    and push: "pushUndelivered srv uid (registerOnline uid r g1) = Returns g2"
    and reply: "sendJSON c (Some (authed_payload uid)) (redis_set_online srv uid ttl (UnixMilli (e_clk e 0)) g2) = Returns g'"
    using res new by (auto simp: finish_auth_def Let_def andThen_Returns)
  have "runs c (g, p) (registerOnline uid r g1, Idle r)"
    by (rule runs_step) (use istep.login [of "\<lparr>sh = g, at = _(c := p)\<rparr>" c q uid r g1] p new in auto)
  also have "runs c (registerOnline uid r g1, Idle r) (g2, Idle r)" by (rule runs_push [OF push])
  also have "runs c (g2, Idle r) (redis_set_online srv uid ttl (UnixMilli (e_clk e 0)) g2, Idle r)"
    by (rule runs_redis)
  also have "runs c (redis_set_online srv uid ttl (UnixMilli (e_clk e 0)) g2, Idle r) (g', Idle r)"
    by (rule runs_reply [OF _ reply]) simp
  finally show ?thesis using l' by (simp add: at_rest_def)
qed

lemma rest_of_identity:
  "identity g l = None \<or> identity g l = Some uid \<Longrightarrow>
     at_rest l = Anon \<or> (\<exists>q. at_rest l = Idle q \<and> c_UserID (clientH g q) = uid)"
  by (auto simp: identity_def at_rest_def split: option.splits)

lemma finish_auth_keeps:
  assumes "finish_auth srv c e uid ttl (g, l) = Returns (g', l')" "keeps_identity (s, k) (g', l')"
  shows "identity s k = None \<or> identity s k = Some uid"
  using assms finish_auth_identity [of srv c e uid ttl g l] by (auto simp: keeps_identity_def split: option.splits)

lemma runs_auth:
  assumes res: "handle_auth srv c e m (g, l) = Returns (g', l')" and ids: "keeps_identity (g, l) (g', l')"
  shows "runs c (g, at_rest l) (g', at_rest l')"
proof -
  have refused: "runs c (t, at_rest l) (g', at_rest l')"
    if "refuse c hangup msg t = Returns g'" "me l' = me l" for t hangup msg
    using runs_refuse [OF _ that(1), of "at_rest l"] at_rest_cong [OF that(2)] by simp
  have accepted: "runs c (t, at_rest l) (g', at_rest l')"
    if fin: "finish_auth srv c e uid ttl (t, k) = Returns (g', l')" and t: "clientH t = clientH g" for t k uid ttl
  proof -
    have "at_rest l = Anon \<or> (\<exists>q. at_rest l = Idle q \<and> c_UserID (clientH t q) = uid)"
      using rest_of_identity [OF finish_auth_keeps [OF fin ids]] t by simp
    then show ?thesis using runs_finish_auth [OF _ fin] by blast
  qed
  show ?thesis
  proof (cases "gs_AuthClient srv")
    case None
    then show ?thesis using res refused accepted by (auto simp: handle_auth_def Let_def split: if_splits)
  next
    case (Some ac)
    let ?g1 = "log_call (CallValidate (m_Token m)) g"
    have log: "runs c (g, at_rest l) (?g1, at_rest l)" by (rule runs_log)
    show ?thesis
    proof (cases "maxAuthAttempts < authAttempts l + 1")
      case True
      then show ?thesis using res Some refused by (auto simp: handle_auth_def Let_def)
    next
      case False
      note early = res [unfolded handle_auth_def Let_def, simplified Some, simplified] False
      show ?thesis
      proof (rule runs_trans [OF log], cases "ac_Validate ac (gw_trace g) (m_Token m)")
        case (Inl err)
        then show "runs c (?g1, at_rest l) (g', at_rest l')" using early refused by (auto split: if_splits)
      next
        case (Inr reply)
        have ban: "runs c (?g1, at_rest l) (log_ban_check srv u ?g1, at_rest l)" for u by (rule runs_ban)
        have kept: "clientH (log_ban_check srv u ?g1) = clientH g" for u
          by (simp add: log_ban_check_def log_call_def split: option.split)
        show "runs c (?g1, at_rest l) (g', at_rest l')"
          using early Inr refused runs_trans [OF ban refused] runs_trans [OF ban accepted [OF _ kept]]
          by (auto split: option.splits if_splits)
      qed
    qed
  qed
qed

lemma rest_idle: "me l = Some r \<Longrightarrow> at_rest l = Idle r"
  by (simp add: at_rest_def)

lemma runs_handle_join:
  assumes "handle_join srv c m l g = Returns g'"
  shows "runs c (g, at_rest l) (g', at_rest l)"
proof (cases "me l")
  case None
  then show ?thesis using assms by (auto simp: handle_join_def intro: runs_error)
next
  case (Some r)
  obtain rr g1 where g1: "getOrCreateRoom (m_RoomID m) g = (rr, g1)" by fastforce
  obtain his g2 where g2: "load_history srv (m_RoomID m) 50 (Slice []) (addClient rr r g1) = (his, g2)"
    by fastforce
  have "runs c (g, Idle r) (g1, Holds r rr (m_RoomID m) Joining)" by (rule runs_lookup [OF g1]) simp
  also have "runs c (g1, Holds r rr (m_RoomID m) Joining) (addClient rr r g1, Idle r)" by (rule runs_join)
  also have "runs c (addClient rr r g1, Idle r) (g2, Idle r)" by (rule runs_load [OF g2])
  also have "runs c (g2, Idle r) (g', Idle r)"
    by (rule runs_reply) (use assms Some g1 g2 in \<open>simp_all add: handle_join_def\<close>)
  finally show ?thesis using rest_idle [OF Some] by simp
qed

lemma runs_handle_leave:
  assumes "handle_leave c m l g = Returns g'"
  shows "runs c (g, at_rest l) (g', at_rest l)"
proof (cases "me l")
  case None
  then show ?thesis using assms by (simp add: handle_leave_def)
next
  case (Some r)
  then have "sendJSON c (Some (left_payload (m_RoomID m))) (leave_room r (m_RoomID m) g) = Returns g'"
    using assms handle_leave_eq by simp
  from runs_trans [OF runs_leave runs_reply [OF _ this]] show ?thesis using rest_idle [OF Some] by simp
qed

lemma runs_handle_send:
  assumes res: "handle_send srv c e m l g = Returns g'" and wf: "rooms_wf g"
    and ord: "range_order (abs_members (abs_rooms g) (m_RoomID m)) (e_ord e)"
  shows "runs c (g, at_rest l) (g', at_rest l)"
proof (cases "me l")
  case None
  then show ?thesis using res by (auto simp: handle_send_def intro: runs_error)
next
  case (Some r)
  let ?b = "message_frame (c_UserID (clientH g r)) m e"
  obtain rr g1 where g1: "getOrCreateRoom (m_RoomID m) g = (rr, g1)" by fastforce
  obtain g2 where g2: "broadcast rr (e_ord e) ?b g1 = Returns g2"
    and g': "g' = spawn_save srv (room_message (c_UserID (clientH g r)) m e) g2"
    using res Some g1 by (auto simp: handle_send_def Let_def andThen_Returns)
  have "runs c (g, Idle r) (g1, Holds r rr (m_RoomID m) (Sending ?b))" by (rule runs_lookup [OF g1]) simp
  also have "runs c (g1, Holds r rr (m_RoomID m) (Sending ?b)) (g2, Idle r)"
    by (rule runs_broadcast [OF _ g2]) (use ord getOrCreateRoom_members [OF wf g1] in simp)
  also have "runs c (g2, Idle r) (g', Idle r)" unfolding g' by (rule runs_spawn)
  finally show ?thesis using rest_idle [OF Some] by simp
qed

lemma runs_one_frame:
  assumes "getOnlineClient u g = Some q" "send_client q b g = Returns g'"
  shows "runs c (g, Idle r) (g', Idle r)"
  using runs_frames [of u g q "\<lambda>_. b" "[()]" g'] assms by simp

lemma runs_handle_private:
  assumes "handle_private srv c e m l g = Returns g'"
  shows "runs c (g, at_rest l) (g', at_rest l)"
proof (cases "me l")
  case None
  then show ?thesis using assms by (auto simp: handle_private_def intro: runs_error)
next
  case (Some r)
  let ?uid = "c_UserID (clientH g r)"
  have reply: "runs c (g2, Idle r) (g', Idle r)" if "sendJSON c (Some (ack_payload (m_To m))) g2 = Returns g'" for g2
    by (rule runs_reply [OF _ that]) simp
  have "runs c (g, Idle r) (g', Idle r)"
  proof (cases "getOnlineClient (m_To m) g")
    case None
    then show ?thesis
      using assms Some runs_trans [OF runs_spawn reply] by (simp add: handle_private_def Let_def)
  next
    case (Some q)
    then obtain g1 where "send_client q (private_frame ?uid m e) g = Returns g1"
      "sendJSON c (Some (ack_payload (m_To m))) (spawn_save srv (private_message ?uid m e True) g1) = Returns g'"
      using assms \<open>me l = Some r\<close> by (auto simp: handle_private_def Let_def andThen_Returns)
    then show ?thesis
      using runs_trans [OF runs_one_frame [OF Some] runs_trans [OF runs_spawn reply]] by blast
  qed
  then show ?thesis using rest_idle [OF Some] by simp
qed

lemma runs_handle_history:
  assumes "handle_history srv c m l g = Returns g'"
  shows "runs c (g, at_rest l) (g', at_rest l)"
proof (cases "me l")
  case None
  then show ?thesis using assms by (auto simp: handle_history_def intro: runs_error)
next
  case (Some r)
  obtain his g1 where g1: "load_history srv (m_RoomID m) (effective_limit (m_Limit m)) NilSlice g = (his, g1)"
    by fastforce
  then show ?thesis
    using assms Some by (simp add: handle_history_def runs_trans [OF runs_load [OF g1] runs_reply])
qed

lemma runs_handle_ping:
  assumes "handle_ping srv c e l g = Returns g'"
  shows "runs c (g, at_rest l) (g', at_rest l)"
proof -
  obtain g1 where g1: "sendJSON c (Some (pong_payload (UnixMilli (e_clk e 0)))) g = Returns g1"
    using assms by (auto simp: handle_ping_def andThen_Returns)
  have reply: "runs c (g, at_rest l) (g1, at_rest l)" by (rule runs_reply [OF _ g1]) simp
  have beat: "runs c (t, Idle r) (touch now r t, Idle r)" for t now r
    by (rule runs_step) (use istep.beat [of "\<lparr>sh = t, at = _(c := Idle r)\<rparr>" c r now] in simp)
  have "runs c (g1, at_rest l) (g', at_rest l)"
  proof (cases "me l")
    case None
    then show ?thesis using assms g1 by (simp add: handle_ping_def)
  next
    case (Some r)
    then show ?thesis
      using assms g1 beat runs_trans [OF beat runs_log] rest_idle [OF Some]
      by (auto simp: handle_ping_def Let_def split: option.splits)
  qed
  with reply show ?thesis by (rule runs_trans)
qed

lemma runs_handle_frame:
  assumes res: "handle_frame srv c e data (g, l) = Returns (g', l')" and wf: "rooms_wf g"
    and ord: "order_ok e data g" and ids: "keeps_identity (g, l) (g', l')"
  shows "runs c (g, at_rest l) (g', at_rest l')"
proof (cases "unmarshal_WSMsg data")
  case None
  then show ?thesis using res by (auto simp: handle_frame_def intro: runs_error)
next
  case (Some m)
  then have d: "dispatch srv c e m (g, l) = Returns (g', l')" using res by (simp add: handle_frame_def)
  have send: "m_Type m = ''send'' \<Longrightarrow> range_order (abs_members (abs_rooms g) (m_RoomID m)) (e_ord e)"
    using ord Some by (simp add: order_ok_def)
  show ?thesis
    using d runs_auth [OF _ ids] runs_handle_join runs_handle_leave runs_handle_send [OF _ wf send]
      runs_handle_private runs_handle_history runs_handle_ping runs_error [of "at_rest l"]
    unfolding dispatch_def by (auto split: if_splits)
qed

section \<open>The end of a connection\<close>

lemma runs_scan_loop:
  "set todo \<subseteq> dom (rooms g) \<Longrightarrow>
     runs c (g, Scan r todo acc) (g, Scan r [] (acc @ my_rooms (c_UserID (clientH g r)) todo g))"
proof (induction todo arbitrary: acc)
  case Nil
  then show ?case by simp
next
  case (Cons rid todo)
  then obtain rr where rr: "rooms g rid = Some rr" by auto
  let ?acc = "if Contains (c_UserID (clientH g r)) (roomH g rr) then acc @ [rid] else acc"
  have "runs c (g, Scan r (rid # todo) acc) (g, Scan r todo ?acc)"
    by (rule runs_step)
      (use istep.looked [of "\<lparr>sh = g, at = _(c := Scan r (rid # todo) acc)\<rparr>" c r rid todo acc rr ?acc] rr in simp)
  also have "runs c (g, Scan r todo ?acc) (g, Scan r [] (?acc @ my_rooms (c_UserID (clientH g r)) todo g))"
    by (rule Cons.IH) (use Cons.prems in simp)
  finally show ?case using rr by (simp split: if_splits)
qed

lemma runs_scan:
  assumes "range_order (rooms g) ord"
  shows "runs c (g, Idle r) (g, Sweep r (my_rooms (c_UserID (clientH g r)) ord g))"
proof -
  let ?found = "my_rooms (c_UserID (clientH g r)) ord g"
  have "runs c (g, Idle r) (g, Scan r ord [])"
    by (rule runs_step) (use istep.ended [of "\<lparr>sh = g, at = _(c := Idle r)\<rparr>" c r ord] assms in simp)
  also have "runs c (g, Scan r ord []) (g, Scan r [] ?found)"
    using runs_scan_loop [of ord g c r "[]"] assms by (simp add: range_order_def)
  also have "runs c (g, Scan r [] ?found) (g, Sweep r ?found)"
    by (rule runs_step) (use istep.scanned [of "\<lparr>sh = g, at = _(c := Scan r [] ?found)\<rparr>" c r ?found] in simp)
  finally show ?thesis .
qed

lemma runs_cleanup:
  assumes ord: "range_order (rooms g) (e_ord e)"
  shows "runs c (g, at_rest l) (cleanup srv e l g, Closing)"
proof (cases "me l")
  case None
  have "runs c (g, Anon) (g, Closing)"
    by (rule runs_step) (use istep.hung_up [of "\<lparr>sh = g, at = _(c := Anon)\<rparr>" c] in simp)
  then show ?thesis using None by (simp add: cleanup_def at_rest_def)
next
  case (Some r)
  let ?uid = "c_UserID (clientH g r)"
  let ?g1 = "fold (leave_room r) (my_rooms ?uid (e_ord e) g) g"
  have uid: "c_UserID (clientH ?g1 r) = ?uid" by (simp add: leave_rooms_frame)
  have "runs c (g, Idle r) (g, Sweep r (my_rooms ?uid (e_ord e) g))" by (rule runs_scan [OF ord])
  also have "runs c (g, Sweep r (my_rooms ?uid (e_ord e) g)) (?g1, Sweep r [])" by (rule runs_sweep)
  also have "runs c (?g1, Sweep r []) (unregisterOnline ?uid ?g1, Closing)"
    by (rule runs_step) (use istep.unregistered [of "\<lparr>sh = ?g1, at = _(c := Sweep r [])\<rparr>" c r] uid in simp)
  also have "runs c (unregisterOnline ?uid ?g1, Closing) (cleanup srv e l g, Closing)"
    using Some by (auto simp: cleanup_def Let_def split: option.split intro: runs_trans)
  finally show ?thesis using rest_idle [OF Some] by simp
qed

lemma runs_deferred:
  assumes "\<not> ch_closed (chanH g c)"
  shows "runs c (g, Closing) (deferred c g, Gone)"
proof -
  let ?g1 = "state_of (close_chan c g)"
  have "close_chan c g = Returns ?g1" using assms by (simp add: close_chan_def)
  then have "runs c (g, Closing) (?g1, Gone)"
    by (intro runs_step) (use istep.closed [of "\<lparr>sh = g, at = _(c := Closing)\<rparr>" c ?g1] in simp)
  also have "runs c (?g1, Gone) (deferred c g, Gone)" unfolding deferred_def by (rule runs_close_conn)
  finally show ?thesis .
qed

lemma runs_accept:
  "runs c (g, Outside) (g\<lparr>chanH := (chanH g)(c := make_chan), wsClosed := (wsClosed g)(c := False)\<rparr>, Anon)"
proof -
  let ?g1 = "g\<lparr>chanH := (chanH g)(c := make_chan)\<rparr>"
  have "runs c (g, Outside) (?g1, Anon)"
    by (rule runs_step) (use istep.accepted [of "\<lparr>sh = g, at = _(c := Outside)\<rparr>" c] in simp)
  also have "runs c (?g1, Anon) (?g1\<lparr>wsClosed := (wsClosed g)(c := False)\<rparr>, Anon)"
    using runs_aside [where c = c and g = ?g1 and p = Anon and h = "gw_trace g" and sv = "saves g"
        and cl = "(wsClosed g)(c := False)"] by simp
  finally show ?thesis by simp
qed

lemma runs_taken:
  assumes "recv_chan c g = Some (b, g')"
  shows "runs c (g, p) (g', p)"
  by (rule runs_step) (use istep.taken [of c "\<lparr>sh = g, at = _(c := p)\<rparr>" b g'] assms in simp)

section \<open>The gateway\<close>

definition pc_of :: "sys \<Rightarrow> nat \<Rightarrow> pc" where
  "pc_of s c =
     (case ph s c of Fresh \<Rightarrow> Outside | Reading \<Rightarrow> at_rest (loc s c) | Draining \<Rightarrow> Closing | Ended \<Rightarrow> Gone)"

definition fine_state :: "sys \<Rightarrow> rt" where
  "fine_state s = \<lparr>sh = gw s, at = pc_of s\<rparr>"

lemma unscanned_pc_of: "unscanned (pc_of s)"
  by (simp add: unscanned_def pc_of_def at_rest_def split: phase.split option.split)

lemma run_of_system:
  assumes "runs c (gw s, pc_of s c) (gw t, pc_of t c)"
    and "\<And>d. d \<noteq> c \<Longrightarrow> ph t d = ph s d" "\<And>d. d \<noteq> c \<Longrightarrow> loc t d = loc s d"
  shows "rtranclp istep (fine_state s) (fine_state t)"
proof -
  have "pc_of t = (pc_of s)(c := pc_of t c)" by (auto simp: fun_eq_iff assms(2,3) pc_of_def split: phase.split)
  then show ?thesis
    using assms(1) unscanned_pc_of [of s] unfolding runs_def fine_state_def by (metis fst_conv fun_upd_triv snd_conv)
qed

lemma run_of_system_same:
  assumes "runs c (gw s, pc_of s c) (gw t, pc_of s c)" "ph t = ph s" "loc t = loc s"
  shows "rtranclp istep (fine_state s) (fine_state t)"
proof -
  have "pc_of t c = pc_of s c" using assms(2,3) by (simp add: pc_of_def split: phase.split)
  then show ?thesis using assms by (intro run_of_system [where c = c]) simp_all
qed

lemma atomic_step_is_run:
  assumes step: "gstep srv s t" and ids: "keeps_ids s t" and inv: "sys_inv s"
  shows "rtranclp istep (fine_state s) (fine_state t)"
  using step
proof cases
  case (accept c)
  show ?thesis
    by (rule run_of_system [where c = c])
      (use accept runs_accept in \<open>auto simp: pc_of_def do_accept_def at_rest_def init_local_def\<close>)
next
  case (message c e data gl)
  obtain g l where gl: "gl = (g, l)" by fastforce
  have "keeps_identity (gw s, loc s c) (g, l)"
    using ids message(1,2) unfolding keeps_ids_def gl by (auto simp: do_message_def)
  with message have "runs c (gw s, at_rest (loc s c)) (g, at_rest l)"
    using runs_handle_frame [of srv c e data "gw s" "loc s c" g l] tables_okD(1) [OF sys_invD(1) [OF inv]] gl by simp
  then show ?thesis
    by (intro run_of_system [where c = c])
      (use message gl in \<open>auto simp: pc_of_def do_message_def\<close>)
next
  case (message_panic c e data g l)
  have "returns (handle_frame srv c e data (gw s, loc s c))"
    using handle_frame_returns [OF sys_invD(1) [OF inv] sys_invD(2) [OF inv message_panic(2)]] .
  then show ?thesis using message_panic(5) by simp
next
  case (read_error c e)
  show ?thesis
    by (rule run_of_system [where c = c])
      (use read_error runs_cleanup in \<open>auto simp: pc_of_def\<close>)
next
  case (finish c)
  show ?thesis
    by (rule run_of_system [where c = c])
      (use finish runs_deferred sys_invD(3) [OF inv] in \<open>auto simp: pc_of_def do_end_def\<close>)
next
  case (conn_write c b g)
  then show ?thesis by (intro run_of_system_same [where c = c]) (auto intro: runs_taken)
next
  case (conn_write_error c b g)
  then show ?thesis by (intro run_of_system_same [where c = c]) (auto intro: runs_taken)
next
  case (writer_end c)
  then show ?thesis by (intro run_of_system_same) auto
next
  case (save ms cm now)
  then show ?thesis by (intro run_of_system_same) (auto intro: runs_save)
next
  case (disconnect uid)
  then show ?thesis by (intro run_of_system_same) (auto intro: runs_disconnect)
qed

lemma fine_state_start: "fine_state start = begin_rt"
  by (simp add: fine_state_def pc_of_def start_def begin_rt_def fun_eq_iff)



end
