(* ===== verification/Delivery.thy ===== *)
theory Delivery
  imports SystemProperties
begin

text \<open>
  From the send channel to the socket: the order of the frames, the bound of the queue, the shape of
  the frames, and the end of a connection. The three invariants share one case analysis of the steps:
  a step starts a connection, or is one receive of a write goroutine, or changes the shared state by
  a relation of \<open>HandlerFrame\<close>.
\<close>

section \<open>What one step of the process can do\<close>

locale ending_relation = presence_relation +
  assumes shut: "R g (state_of (close_chan c g))"
begin

lemma deferred_calls: "R g (deferred c g)"
  unfolding deferred_def close_conn_def by (rule trans [OF shut closing])

lemma rooms_left: "R g (fold (leave_room r) rids g)"
proof (induction rids arbitrary: g)
  case Nil
  then show ?case by (simp add: refl)
next
  case (Cons rid rids)
  show ?case unfolding fold_simps by (rule trans [OF room_left Cons])
qed

lemma cleaned_up: "R g (cleanup srv e l g)"
proof (cases "me l")
  case None
  then show ?thesis by (simp add: cleanup_def refl)
next
  case (Some r)
  have left: "R g (unregisterOnline uid (fold (leave_room r) rids g))" for uid rids
    unfolding unregisterOnline_def by (rule trans [OF rooms_left onlineUsers_only])
  have "R t (log_call (CallRedisDel key) t)" for t key by (simp add: log_call_def presence_del)
  then have "R g (log_call (CallRedisSet (last_seen_key u) v 0) (log_call (CallRedisDel key)
      (unregisterOnline uid (fold (leave_room r) rids g))))" for u v key uid rids
    by (rule trans [OF trans [OF left] log]) simp
  then show ?thesis using Some left by (simp add: cleanup_def Let_def split: option.split)
qed

lemma disconnected: "R g (disconnectUser uid g)"
  by (simp add: disconnectUser_def close_conn_def refl closing split: option.split)

end

locale process_relation = any_call_relation + ending_relation +
  assumes inserting: "R s (s\<lparr>gw_trace := gw_trace s @ [CallMongoInsert cm]\<rparr>)"
begin

lemma saved: "R g (run_save ms now cm g)"
proof -
  have "R g (log_call (CallMongoInsert m) g)" for m by (simp add: log_call_def inserting)
  then show ?thesis
    using trans [OF _ saving] by (simp add: run_save_def SaveMessage_def Let_def log_call_def)
qed

lemma step_cases:
  assumes "gstep srv s t"
  obtains (accepted) c where "ph s c = Fresh" "t = do_accept c s"
  | (taken) c b g where "writerUp s c" "recv_chan c (gw s) = Some (b, g)" "gw t = g" "ph t = ph s"
      "written t = (written s)(c := written s c @ [b]) \<and> writerUp t = writerUp s
       \<or> written t = written s \<and> writerUp t = (writerUp s)(c := False)"
  | (related) "R (gw s) (gw t)" "written t = written s" "\<forall>c. writerUp t c \<longrightarrow> writerUp s c"
      "\<forall>c. ph s c \<noteq> Fresh \<longrightarrow> ph t c \<noteq> Fresh"
  using assms
proof cases
  case (message c e data gl)
  have "R (gw s) (fst gl)" using handled [of "gw s" srv c e data "loc s c"] message(5) by simp
  then show thesis using message(1) by (intro related) (simp_all add: do_message_def)
next
  case (message_panic c e data g l)
  have "R (gw s) g" using handled [of "gw s" srv c e data "loc s c"] message_panic(5) by simp
  then show thesis
    using message_panic(1) trans [OF _ deferred_calls] by (intro related) (simp_all add: do_end_def)
next
  case (read_error c e)
  then show thesis using cleaned_up by (intro related) (simp_all add: do_cleanup_def)
next
  case (finish c)
  then show thesis using deferred_calls by (intro related) (simp_all add: do_end_def)
next
  case (writer_end c)
  then show thesis by (intro related) (simp_all add: refl)
next
  case (save ms cm now)
  then show thesis using saved by (intro related) simp_all
next
  case (disconnect uid)
  then show thesis using disconnected by (intro related) simp_all
next
  case (conn_write c b g)
  then show thesis by (intro taken [of c b g]) simp_all
next
  case (conn_write_error c b g)
  then show thesis by (intro taken [of c b g]) simp_all
qed (rule accepted)

end

lemma recv_stream:
  "recv_chan c g = Some (b, g') \<Longrightarrow> ch_buf (chanH g c) = b # ch_buf (chanH g' c)
     \<and> (\<forall>d. d \<noteq> c \<longrightarrow> chanH g' d = chanH g d)"
  by (auto simp: recv_chan_def split: list.splits)

interpretation growing: process_relation grows
  by unfold_locales (auto simp: grows_def close_chan_def)

interpretation framing: process_relation keeps_typed
  by unfold_locales (auto simp: keeps_typed_def frames_typed_def close_chan_def)

section \<open>Frames reach the socket in order\<close>

text \<open>All frames accepted for a connection: those already written to the socket and those queued.\<close>

definition stream :: "sys \<Rightarrow> nat \<Rightarrow> bytes list" where
  "stream s c = written s c @ ch_buf (chanH (gw s) c)"

definition chans_bounded :: "sys \<Rightarrow> bool" where
  "chans_bounded s \<longleftrightarrow> (\<forall>c. length (ch_buf (chanH (gw s) c)) \<le> sendCap)"

lemma chans_bounded_step:
  assumes "gstep srv s t" "chans_bounded s"
  shows "chans_bounded t"
  using assms(1)
proof (cases rule: growing.step_cases)
  case (accepted c)
  then show ?thesis using assms(2) by (simp add: chans_bounded_def do_accept_def make_chan_def)
next
  case (taken c b g)
  have "length (ch_buf (chanH g d)) \<le> length (ch_buf (chanH (gw s) d))" for d
    using recv_stream [OF taken(2)] by (cases "d = c") auto
  then show ?thesis using assms(2) taken(3) by (auto simp: chans_bounded_def intro: le_trans)
next
  case related
  then show ?thesis using assms(2) unfolding chans_bounded_def grows_def by (metis append_Nil2)
qed

interpretation channels: invariant_system start "gstep srv" chans_bounded for srv :: GatewayServer
  by unfold_locales (auto intro: chans_bounded_step, simp add: chans_bounded_def start_def empty_gw_def make_chan_def)

text \<open>One step keeps an accepted connection's stream as a prefix while its writer is up.\<close>

definition stream_kept :: "nat \<Rightarrow> sys \<Rightarrow> sys \<Rightarrow> bool" where
  "stream_kept c s t \<longleftrightarrow>
     ph t c \<noteq> Fresh \<and> (writerUp t c \<longrightarrow> writerUp s c \<and> (\<exists>bs. stream t c = stream s c @ bs))"

lemma stream_kept_trans: "stream_kept c s t \<Longrightarrow> stream_kept c t u \<Longrightarrow> stream_kept c s u"
  by (auto simp: stream_kept_def)

lemma stream_kept_step:
  assumes "gstep srv s t" "ph s c \<noteq> Fresh"
  shows "stream_kept c s t"
  using assms(1)
proof (cases rule: growing.step_cases)
  case (accepted d)
  then show ?thesis using assms(2) by (auto simp: stream_kept_def stream_def do_accept_def)
next
  case (taken d b g)
  then show ?thesis
    using recv_stream [OF taken(2)] assms(2) by (cases "d = c") (auto simp: stream_kept_def stream_def)
next
  case related
  then show ?thesis using assms(2) by (fastforce simp: stream_kept_def stream_def grows_def)
qed

lemma stream_kept_steps:
  "rtranclp (gstep srv) s t \<Longrightarrow> ph s c \<noteq> Fresh \<Longrightarrow> stream_kept c s t"
proof (induction rule: rtranclp_induct)
  case base
  then show ?case by (auto simp: stream_kept_def)
next
  case (step t u)
  then have "stream_kept c s t" by simp
  then show ?case
    using stream_kept_step [OF step.hyps(2), of c] stream_kept_trans by (auto simp: stream_kept_def)
qed

text \<open>
  A connection's frames reach its socket in the order in which they were queued, none twice and
  none left out, as long as its write goroutine runs: what had been written and queued at one moment
  stays the beginning of what is written and queued at any later one. A queue never holds more than
  256 frames.
\<close>

theorem frames_written_in_order:
  assumes "rtranclp (gstep srv) start s" "rtranclp (gstep srv) s t" "ph s c \<noteq> Fresh" "writerUp t c"
  shows "\<exists>bs. written t c @ ch_buf (chanH (gw t) c) = (written s c @ ch_buf (chanH (gw s) c)) @ bs
       \<and> length (ch_buf (chanH (gw t) c)) \<le> 256"
proof -
  have "chans_bounded t"
    using channels.inv_reachable [OF rtranclp_trans [OF assms(1,2)]] .
  then show ?thesis
    using stream_kept_steps [OF assms(2,3)] assms(4)
    by (auto simp: stream_kept_def stream_def chans_bounded_def sendCap_def)
qed

lemma accepted0_gsteps: "rtranclp (gstep dev_srv) start accepted0" "rtranclp (gstep dev_srv) accepted0 logged0"
  using accepted0_step [of dev_srv] logged0_step by (auto simp: id_step_def)

theorem frames_written_in_order_witness:
  "\<exists>bs. written logged0 0 @ ch_buf (chanH (gw logged0) 0) =
       (written accepted0 0 @ ch_buf (chanH (gw accepted0) 0)) @ bs
     \<and> length (ch_buf (chanH (gw logged0) 0)) \<le> 256"
  by (rule frames_written_in_order [OF accepted0_gsteps]) (simp_all add: run_defs)

section \<open>Every frame is one of the protocol\<close>

definition wire_typed :: "sys \<Rightarrow> bool" where
  "wire_typed s \<longleftrightarrow> frames_typed (gw s) \<and> (\<forall>c. \<forall>b \<in> set (written s c). typed_frame b)"

lemma wire_typed_step:
  assumes "gstep srv s t" "wire_typed s"
  shows "wire_typed t"
  using assms(1)
proof (cases rule: framing.step_cases)
  case (accepted c)
  then show ?thesis
    using assms(2) by (simp add: wire_typed_def frames_typed_def do_accept_def make_chan_def)
next
  case (taken c b g)
  have b: "ch_buf (chanH (gw s) c) = b # ch_buf (chanH g c)" "\<And>d. d \<noteq> c \<Longrightarrow> chanH g d = chanH (gw s) d"
    using recv_stream [OF taken(2)] by auto
  have old: "\<And>d x. x \<in> set (ch_buf (chanH (gw s) d)) \<Longrightarrow> typed_frame x"
    using assms(2) by (auto simp: wire_typed_def frames_typed_def)
  have "typed_frame x" if "x \<in> set (ch_buf (chanH g d))" for d x
    using that b old [of x d] by (cases "d = c") auto
  moreover have "typed_frame b" using old [of b c] b(1) by simp
  ultimately show ?thesis
    using taken(3,5) assms(2) by (auto simp: wire_typed_def frames_typed_def split: if_splits)
next
  case related
  then show ?thesis using assms(2) by (simp add: wire_typed_def keeps_typed_def)
qed

interpretation wire: invariant_system start "gstep srv" wire_typed for srv :: GatewayServer
  by unfold_locales
    (auto intro: wire_typed_step, simp add: wire_typed_def frames_typed_def start_def empty_gw_def make_chan_def)

text \<open>
  Everything a client ever receives is a message of the protocol. In every state the gateway can
  reach, whatever the clients sent and the services and the store answered, each frame written to a
  socket or queued for one is the text of a JSON object whose \<open>type\<close> is one of the nine documented
  types; ill-formed bytes in names and texts never spoil it.
\<close>

theorem every_frame_is_typed:
  assumes "rtranclp (gstep srv) start s" "b \<in> set (written s c) \<or> b \<in> set (ch_buf (chanH (gw s) c))"
  shows "\<exists>fs t. parse_json b = Some (JObj fs) \<and> map_of fs ''type'' = Some (JStr t)
     \<and> t \<in> {''authed'', ''joined'', ''left'', ''message'', ''private'', ''history'', ''ack'', ''pong'', ''error''}"
proof -
  have "typed_frame b"
    using wire.inv_reachable [OF assms(1)] assms(2) by (auto simp: wire_typed_def frames_typed_def)
  then show ?thesis unfolding typed_frame_def frame_types_def by simp
qed

theorem every_frame_is_typed_witness:
  "\<exists>fs t. parse_json (marshal (authed_payload ''a'')) = Some (JObj fs) \<and> map_of fs ''type'' = Some (JStr t)
     \<and> t \<in> {''authed'', ''joined'', ''left'', ''message'', ''private'', ''history'', ''ack'', ''pong'', ''error''}"
proof (rule every_frame_is_typed)
  show "rtranclp (gstep dev_srv) start logged0" using accepted0_gsteps by (rule rtranclp_trans)
  show "marshal (authed_payload ''a'') \<in> set (written logged0 0)
      \<or> marshal (authed_payload ''a'') \<in> set (ch_buf (chanH (gw logged0) 0))"
    by (simp add: run_defs)
qed

section \<open>Queued frames can be written\<close>

text \<open>The shared state after the write goroutine of a connection has emptied its queue.\<close>

definition drained :: "nat \<Rightarrow> sys \<Rightarrow> sys" where
  "drained c s =
     s\<lparr>gw := (gw s)\<lparr>chanH := (chanH (gw s))(c := (chanH (gw s) c)\<lparr>ch_buf := []\<rparr>)\<rparr>,
       written := (written s)(c := stream s c)\<rparr>"

lemma drain:
  "writerUp s c \<Longrightarrow> ch_buf (chanH (gw s) c) = bs \<Longrightarrow> rtranclp (gstep srv) s (drained c s)"
proof (induction bs arbitrary: s)
  case Nil
  have "(chanH (gw s))(c := (chanH (gw s) c)\<lparr>ch_buf := []\<rparr>) = chanH (gw s)"
    using Nil(2) by (intro ext) (simp add: chan.equality)
  then have "drained c s = s" using Nil(2) by (simp add: drained_def stream_def)
  then show ?case by simp
next
  case (Cons b bs)
  let ?g = "(gw s)\<lparr>chanH := (chanH (gw s))(c := (chanH (gw s) c)\<lparr>ch_buf := bs\<rparr>)\<rparr>"
  let ?t = "s\<lparr>gw := ?g, written := (written s)(c := written s c @ [b])\<rparr>"
  have "recv_chan c (gw s) = Some (b, ?g)" using Cons.prems(2) by (simp add: recv_chan_def)
  then have "gstep srv s ?t" by (rule gstep.conn_write [OF Cons.prems(1)])
  moreover have "rtranclp (gstep srv) ?t (drained c ?t)" by (rule Cons.IH) (use Cons.prems in simp_all)
  moreover have "drained c ?t = drained c s"
    using Cons.prems(2) by (simp add: drained_def stream_def)
  ultimately show ?case by (simp add: converse_rtranclp_into_rtranclp)
qed

lemma deferred_channel:
  "ch_closed (chanH (deferred c g) c)" "ch_buf (chanH (deferred c g) d) = ch_buf (chanH g d)"
  by (simp_all add: deferred_def close_conn_def close_chan_def)

lemma end_drained:
  assumes "writerUp s c" "ph s c = Draining" "ch_buf (chanH (gw s) c) = []"
  shows "\<exists>t. rtranclp (gstep srv) s t \<and> ph t c = Ended \<and> \<not> writerUp t c \<and> written t = written s
       \<and> ch_closed (chanH (gw t) c)"
proof -
  let ?t = "do_end c (gw s) s"
  have "gstep srv s ?t" by (rule gstep.finish [OF assms(2)])
  moreover have "gstep srv ?t (?t\<lparr>writerUp := (writerUp ?t)(c := False)\<rparr>)"
    by (rule gstep.writer_end) (use assms in \<open>simp_all add: do_end_def recv_chan_def deferred_channel\<close>)
  ultimately have "rtranclp (gstep srv) s (?t\<lparr>writerUp := (writerUp ?t)(c := False)\<rparr>)" by simp
  then show ?thesis
    by (intro exI [of _ "?t\<lparr>writerUp := (writerUp ?t)(c := False)\<rparr>"]) (simp add: do_end_def deferred_channel)
qed

text \<open>
  C18: nothing that is queued is stuck. While the write goroutine of a connection runs, the frames in
  its queue can all be written, in order and without any step of another goroutine; and a connection
  whose cleanup is done can end with every queued frame written, its write goroutine stopped and its
  channel closed.
\<close>

theorem queue_can_be_drained:
  assumes "rtranclp (gstep srv) start s" "writerUp s c"
  shows "(\<exists>t. rtranclp (gstep srv) s t \<and> writerUp t c \<and> ch_buf (chanH (gw t) c) = []
         \<and> written t c = written s c @ ch_buf (chanH (gw s) c) \<and> ph t = ph s \<and> loc t = loc s
         \<and> onlineUsers (gw t) = onlineUsers (gw s) \<and> rooms (gw t) = rooms (gw s) \<and> roomH (gw t) = roomH (gw s))
     \<and> (ph s c = Draining \<longrightarrow>
         (\<exists>t. rtranclp (gstep srv) s t \<and> ph t c = Ended \<and> \<not> writerUp t c
            \<and> written t c = written s c @ ch_buf (chanH (gw s) c) \<and> ch_closed (chanH (gw t) c)))"
proof (intro conjI impI)
  have run: "rtranclp (gstep srv) s (drained c s)" by (rule drain [OF assms(2) refl])
  have after: "writerUp (drained c s) c" "ch_buf (chanH (gw (drained c s)) c) = []"
    "written (drained c s) c = written s c @ ch_buf (chanH (gw s) c)" "ph (drained c s) = ph s" "loc (drained c s) = loc s"
    "onlineUsers (gw (drained c s)) = onlineUsers (gw s)" "rooms (gw (drained c s)) = rooms (gw s)"
    "roomH (gw (drained c s)) = roomH (gw s)"
    using assms(2) by (simp_all add: drained_def stream_def)
  show "\<exists>t. rtranclp (gstep srv) s t \<and> writerUp t c \<and> ch_buf (chanH (gw t) c) = []
         \<and> written t c = written s c @ ch_buf (chanH (gw s) c) \<and> ph t = ph s \<and> loc t = loc s
         \<and> onlineUsers (gw t) = onlineUsers (gw s) \<and> rooms (gw t) = rooms (gw s) \<and> roomH (gw t) = roomH (gw s)"
    using run after by blast
  assume "ph s c = Draining"
  then obtain t where "rtranclp (gstep srv) (drained c s) t" "ph t c = Ended" "\<not> writerUp t c"
    "written t = written (drained c s)" "ch_closed (chanH (gw t) c)"
    using end_drained [of "drained c s" c srv] after by auto
  then show "\<exists>t. rtranclp (gstep srv) s t \<and> ph t c = Ended \<and> \<not> writerUp t c
            \<and> written t c = written s c @ ch_buf (chanH (gw s) c) \<and> ch_closed (chanH (gw t) c)"
    using rtranclp_trans [OF run] after(3) by metis
qed

lemma cleanup_chanH: "chanH (cleanup srv e l g) = chanH g"
  by (cases "me l") (simp_all add: cleanup_def Let_def leave_rooms_frame log_call_def split: option.split)

definition leaving0 :: sys where
  "leaving0 = do_cleanup dev_srv 0 env0 logged0"

lemma leaving0_reachable: "rtranclp (gstep dev_srv) start leaving0"
proof -
  have "gstep dev_srv logged0 leaving0"
    unfolding leaving0_def by (rule gstep.read_error) (simp_all add: run_defs env0_def range_order_def)
  then show ?thesis using accepted0_gsteps by (meson rtranclp.rtrancl_into_rtrancl rtranclp_trans)
qed

theorem queue_can_be_drained_witness:
  "(\<exists>t. rtranclp (gstep dev_srv) leaving0 t \<and> writerUp t 0 \<and> ch_buf (chanH (gw t) 0) = []
       \<and> written t 0 = [marshal (authed_payload ''a'')])
   \<and> (\<exists>t. rtranclp (gstep dev_srv) leaving0 t \<and> ph t 0 = Ended \<and> \<not> writerUp t 0
       \<and> written t 0 = [marshal (authed_payload ''a'')] \<and> ch_closed (chanH (gw t) 0))"
proof -
  have start: "writerUp leaving0 0" "ph leaving0 0 = Draining" "written leaving0 0 = []"
    "ch_buf (chanH (gw leaving0) 0) = [marshal (authed_payload ''a'')]"
    by (simp_all add: leaving0_def do_cleanup_def cleanup_chanH run_defs)
  show ?thesis using queue_can_be_drained [OF leaving0_reachable start(1)] start(2-4) by auto
qed

end
