(* ===== verification/Lifecycle.thy ===== *)
theory Lifecycle
  imports Delivery
begin

text \<open>
  The life of a connection in all runs of the gateway, those with a panic included: the phases are
  ordered, no step goes back, and the channel of a connection is closed by the step that ends it and
  by no other, so \<open>close(sendCh)\<close> never panics.
\<close>

section \<open>The order of the phases\<close>

fun rank :: "phase \<Rightarrow> nat" where
  "rank Fresh = 0"
| "rank Reading = 1"
| "rank Draining = 2"
| "rank Ended = 3"

lemma rank_inject: "rank p = rank q \<longleftrightarrow> p = q"
  by (cases p; cases q) simp_all

instantiation phase :: linorder
begin

definition less_eq_phase :: "phase \<Rightarrow> phase \<Rightarrow> bool" where
  "p \<le> q \<longleftrightarrow> rank p \<le> rank q"

definition less_phase :: "phase \<Rightarrow> phase \<Rightarrow> bool" where
  "p < q \<longleftrightarrow> rank p < rank q"

instance
  by standard (auto simp: less_eq_phase_def less_phase_def rank_inject)

end

lemma phase_le_simps [simp]:
  "Fresh \<le> p" "p \<le> Ended" "Reading \<le> p \<longleftrightarrow> p \<noteq> Fresh" "Draining \<le> p \<longleftrightarrow> p = Draining \<or> p = Ended"
  by (cases p; simp add: less_eq_phase_def)+

section \<open>One step\<close>

text \<open>Neither the handlers nor the cleanup change a \<open>closed\<close> flag.\<close>

definition flags :: "gw_state \<Rightarrow> nat \<Rightarrow> bool" where
  "flags g c = ch_closed (chanH g c)"

lemma flags_extends: "extends g g' \<Longrightarrow> flags g' = flags g"
  by (auto simp: extends_def flags_def)

lemma flags_same: "same_tables g g' \<Longrightarrow> flags g' = flags g"
  by (rule flags_extends [OF same_tables_extends])

lemma flags_deferred: "flags (deferred c g) = (flags g)(c := True)"
  by (auto simp: flags_def deferred_def close_conn_def close_chan_def fun_eq_iff)

definition alive_open :: "sys \<Rightarrow> bool" where
  "alive_open s \<longleftrightarrow> (\<forall>c. flags (gw s) c \<longleftrightarrow> ph s c = Ended)"

lemma lifecycle_step:
  assumes "gstep srv s t" "alive_open s"
  shows "alive_open t \<and> (\<forall>c. ph s c \<le> ph t c)"
proof -
  have kept: "alive_open t \<and> (\<forall>c. ph s c \<le> ph t c)"
    if "flags (gw t) = flags (gw s)" "ph t = (ph s)(d := p)" "ph s d \<noteq> Ended" "p \<noteq> Ended" "ph s d \<le> p" for d p
    using that assms(2) by (auto simp: alive_open_def)
  have same: "alive_open t \<and> (\<forall>c. ph s c \<le> ph t c)" if "flags (gw t) = flags (gw s)" "ph t = ph s"
    using that assms(2) by (simp add: alive_open_def)
  have over: "alive_open t \<and> (\<forall>c. ph s c \<le> ph t c)"
    if "flags g = flags (gw s)" "t = do_end d g s" for d g
    using that assms(2) by (auto simp: alive_open_def do_end_def flags_deferred)
  show ?thesis
    using assms(1)
  proof cases
    case (accept d)
    then have "\<not> flags (gw s) d" using assms(2) by (simp add: alive_open_def)
    then have "flags (gw t) = flags (gw s)"
      using accept(1) by (auto simp: do_accept_def flags_def make_chan_def fun_eq_iff)
    then show ?thesis using kept [of d Reading] accept by (simp add: do_accept_def)
  next
    case (message d e data gl)
    have "flags (fst gl) = flags (gw s)"
      using flags_extends [OF extends_handle_frame [of "gw s" srv d e data "loc s d"]] message(5) by simp
    then show ?thesis using same message(1) by (simp add: do_message_def)
  next
    case (message_panic d e data g l)
    have "flags g = flags (gw s)"
      using flags_extends [OF extends_handle_frame [of "gw s" srv d e data "loc s d"]] message_panic(5) by simp
    then show ?thesis using over message_panic(1) by simp
  next
    case (read_error d e)
    have "flags (gw t) = flags (gw s)"
      unfolding read_error(1) do_cleanup_simps by (rule flags_extends [OF extends_cleanup])
    then show ?thesis using kept [of d Draining] read_error by (simp add: less_eq_phase_def)
  next
    case (finish d)
    then show ?thesis using over by simp
  next
    case (conn_write d b g)
    then show ?thesis using same flags_same [OF same_tables_recv] by simp
  next
    case (conn_write_error d b g)
    then show ?thesis using same flags_same [OF same_tables_recv] by simp
  next
    case (writer_end d)
    then show ?thesis using same by simp
  next
    case (save ms cm now)
    then show ?thesis using same flags_same [OF same_tables_run_save] by simp
  next
    case (disconnect uid)
    then show ?thesis using same flags_same [OF same_tables_disconnect] by simp
  qed
qed

interpretation lifecycle: invariant_system start "gstep srv" alive_open for srv :: GatewayServer
  by unfold_locales
    (simp add: alive_open_def flags_def start_def empty_gw_def make_chan_def, blast dest: lifecycle_step)

lemma phases_advance:
  assumes "rtranclp (gstep srv) s t" "alive_open s"
  shows "ph s c \<le> ph t c"
  using assms
proof (induction rule: rtranclp_induct)
  case base
  then show ?case by simp
next
  case (step t u)
  have "alive_open t" by (rule lifecycle.inv_from [OF step.hyps(1) step.prems])
  then show ?case using step lifecycle_step [OF step.hyps(2)] order_trans by blast
qed

text \<open>
  A connection goes through its phases in one direction and its channel is closed exactly once. In
  every run, whatever is sent and also after a panic, no connection goes back to an earlier phase, a
  channel is closed if and only if its connection has ended, and the deferred \<open>close(sendCh)\<close> of a
  connection that has not ended cannot panic.
\<close>

theorem channel_closed_once:
  assumes "rtranclp (gstep srv) start s" "rtranclp (gstep srv) s t"
  shows "ph s c \<le> ph t c \<and> (ch_closed (chanH (gw t) c) \<longleftrightarrow> ph t c = Ended)
     \<and> (returns (close_chan c (gw t)) \<longleftrightarrow> ph t c \<noteq> Ended)"
proof -
  have "alive_open s" by (rule lifecycle.inv_reachable [OF assms(1)])
  then have "ph s c \<le> ph t c" "alive_open t"
    using phases_advance [OF assms(2)] lifecycle.inv_from [OF assms(2)] by blast+
  then show ?thesis by (auto simp: alive_open_def flags_def close_chan_def)
qed

lemma leaving_step:
  "rtranclp (gstep dev_srv) logged0 (do_cleanup dev_srv 0 env0 logged0)"
proof (rule r_into_rtranclp)
  show "gstep dev_srv logged0 (do_cleanup dev_srv 0 env0 logged0)"
    by (rule gstep.read_error) (simp_all add: run_defs env0_def)
qed

theorem channel_closed_once_witness:
  "ph logged0 0 \<le> ph (do_cleanup dev_srv 0 env0 logged0) 0 \<and> ph logged0 0 < Draining
   \<and> returns (close_chan 0 (gw (do_cleanup dev_srv 0 env0 logged0)))"
  using channel_closed_once [OF rtranclp_trans [OF accepted0_gsteps] leaving_step, of 0]
  by (simp add: less_phase_def) (simp add: run_defs)

end
