(* ===== verification/Conservation.thy ===== *)
theory Conservation
  imports Lifecycle PrivateProperties
begin

text \<open>
  The way of a message from a handler to the store: a handler spawns a goroutine that will insert
  the message, and the goroutine runs later. Pending and inserted messages together are conserved by
  every step but the handling of a \<open>send\<close> or \<open>private\<close> message, which adds one message in the name of
  the user the connection has authenticated as.
\<close>

section \<open>Pending and inserted messages\<close>

fun inserted :: "trace \<Rightarrow> ChatMessage list" where
  "inserted [] = []"
| "inserted (k # h) = (case k of CallMongoInsert cm \<Rightarrow> cm # inserted h | _ \<Rightarrow> inserted h)"

lemma inserted_append [simp]: "inserted (h @ h') = inserted h @ inserted h'"
  by (induction h) (auto split: call.split)

lemma inserted_other: "(\<And>cm. k \<noteq> CallMongoInsert cm) \<Longrightarrow> inserted [k] = []"
  by (simp split: call.split)

definition ledger :: "gw_state \<Rightarrow> ChatMessage multiset" where
  "ledger g = mset (saves g) + mset (inserted (gw_trace g))"

text \<open>Both relations concern a handler: it leaves the ledger alone, or spawns one save.\<close>

definition books :: "gw_state \<Rightarrow> gw_state \<Rightarrow> bool" where
  "books s t \<longleftrightarrow> saves t = saves s \<and> inserted (gw_trace t) = inserted (gw_trace s)"

definition adds :: "ChatMessage \<Rightarrow> gw_state \<Rightarrow> gw_state \<Rightarrow> bool" where
  "adds cm s t \<longleftrightarrow> saves t = saves s @ [cm] \<and> inserted (gw_trace t) = inserted (gw_trace s)"

lemma books_refl [simp]: "books s s"
  by (simp add: books_def)

lemma books_trans: "books s t \<Longrightarrow> books t u \<Longrightarrow> books s u"
  by (simp add: books_def)

lemma books_adds: "books s t \<Longrightarrow> adds cm t u \<Longrightarrow> adds cm s u" "adds cm s t \<Longrightarrow> books t u \<Longrightarrow> adds cm s u"
  by (simp_all add: books_def adds_def)

lemma books_send: "books s (state_of (send_nb c b s))"
  by (cases rule: send_nb_cases [of s c b]) (simp_all add: books_def)

lemma books_call: "(\<And>cm. k \<noteq> CallMongoInsert cm) \<Longrightarrow> books s (s\<lparr>gw_trace := gw_trace s @ [k]\<rparr>)"
  using inserted_other [of k] by (simp add: books_def del: inserted.simps)

interpretation booking: auth_relation books
  by unfold_locales (auto intro: books_trans books_send books_call dest: plain_callD, auto simp: books_def)

interpretation booking: ending_relation books
  by unfold_locales (simp add: books_def close_chan_def)

section \<open>The messages a handler adds\<close>

text \<open>The stored form of a \<open>send\<close> or \<open>private\<close> message of the user.\<close>

definition authored :: "string \<Rightarrow> WSMsg \<Rightarrow> ws_env \<Rightarrow> ChatMessage \<Rightarrow> bool" where
  "authored uid m e cm \<longleftrightarrow> m_Type m = ''send'' \<and> cm = room_message uid m e
     \<or> m_Type m = ''private'' \<and> (\<exists>b. cm = private_message uid m e b)"

lemma authored_From: "authored uid m e cm \<Longrightarrow> cm_From cm = uid \<and> cm_ID cm \<noteq> []"
  by (auto simp: authored_def room_message_def private_message_def)

lemma spawn_books: "books s (spawn_save srv cm s) \<or> adds cm s (spawn_save srv cm s)"
  by (simp add: spawn_save_def books_def adds_def split: option.split)

lemma then_spawn:
  assumes "books s (state_of r)"
  shows "books s (state_of (andThen r (\<lambda>t. Returns (spawn_save srv cm t))))
     \<or> adds cm s (state_of (andThen r (\<lambda>t. Returns (spawn_save srv cm t))))"
proof (cases r)
  case (Returns t)
  then show ?thesis using assms spawn_books [of t srv cm] books_trans books_adds(1) by fastforce
next
  case (Panics t)
  then show ?thesis using assms by simp
qed

lemma send_books:
  assumes "me l = Some r"
  shows "books s (state_of (handle_send srv c e m l s))
     \<or> adds (room_message (c_UserID (clientH s r)) m e) s (state_of (handle_send srv c e m l s))"
proof -
  obtain rr s1 where g: "getOrCreateRoom (m_RoomID m) s = (rr, s1)" by fastforce
  let ?b = "broadcast rr (e_ord e) (message_frame (c_UserID (clientH s r)) m e) s1"
  have "books s s1" by (rule booking.room_opened [OF g])
  then have "books s (state_of ?b)"
    by (rule books_trans) (simp add: booking.to_room message_frame_def)
  then show ?thesis using then_spawn assms g by (simp add: handle_send_def Let_def)
qed

lemma private_books:
  assumes "me l = Some r"
  shows "\<exists>b. books s (state_of (handle_private srv c e m l s))
     \<or> adds (private_message (c_UserID (clientH s r)) m e b) s (state_of (handle_private srv c e m l s))"
proof -
  let ?uid = "c_UserID (clientH s r)"
  have ack: "books t (state_of (sendJSON c (Some (ack_payload (m_To m))) t))" for t
    by (rule booking.send_payload) simp
  let ?res = "case getOnlineClient (m_To m) s of
      Some target \<Rightarrow> andThen (send_client target (private_frame ?uid m e) s)
        (\<lambda>s1. Returns (spawn_save srv (private_message ?uid m e True) s1))
    | None \<Rightarrow> Returns (spawn_save srv (private_message ?uid m e False) s)"
  have "books s (state_of (send_client q (private_frame ?uid m e) s))" for q
    by (rule booking.to_client) (simp add: private_frame_def)
  then have "\<exists>b. books s (state_of ?res) \<or> adds (private_message ?uid m e b) s (state_of ?res)"
    using then_spawn spawn_books by (cases "getOnlineClient (m_To m) s") fastforce+
  then have "\<exists>b. books s (state_of (andThen ?res (sendJSON c (Some (ack_payload (m_To m))))))
      \<or> adds (private_message ?uid m e b) s (state_of (andThen ?res (sendJSON c (Some (ack_payload (m_To m))))))"
    using ack books_trans books_adds(2) by (cases ?res) fastforce+
  then show ?thesis using assms by (simp add: handle_private_def Let_def)
qed

lemma handle_frame_books:
  "books s (fst (state_of (handle_frame srv c e data (s, l))))
   \<or> (\<exists>m r cm. unmarshal_WSMsg data = Some m \<and> me l = Some r \<and> authored (c_UserID (clientH s r)) m e cm
        \<and> adds cm s (fst (state_of (handle_frame srv c e data (s, l)))))"
proof (cases "unmarshal_WSMsg data")
  case None
  then show ?thesis by (simp add: handle_frame_def booking.error)
next
  case (Some m)
  show ?thesis
  proof (cases "me l")
    case None
    then show ?thesis
      using Some booking.auth_handled booking.error
      by (simp add: handle_frame_def dispatch_def handle_join_def handle_leave_def handle_send_def handle_private_def
          handle_history_def booking.ponged)
  next
    case me: (Some r)
    show ?thesis
      using Some me send_books [OF me, of s srv c e m] private_books [OF me, of s srv c e m]
      by (auto simp: handle_frame_def dispatch_def authored_def booking.auth_handled booking.joined booking.departed
          booking.history_sent booking.ponged booking.error)
  qed
qed

section \<open>The steps of the gateway\<close>

lemma books_ledger: "books s t \<Longrightarrow> ledger t = ledger s"
  by (simp add: books_def ledger_def)

lemma adds_ledger: "adds cm s t \<Longrightarrow> ledger t = add_mset cm (ledger s)"
  by (simp add: adds_def ledger_def)

text \<open>Every pending message has an ID, so \<open>SaveMessage\<close> inserts it as it is.\<close>

definition pending_named :: "sys \<Rightarrow> bool" where
  "pending_named s \<longleftrightarrow> (\<forall>cm \<in> set (saves (gw s)). cm_ID cm \<noteq> [])"

lemma run_save_ledger:
  assumes "cm \<in> set (saves g)" "cm_ID cm \<noteq> []"
  shows "ledger (run_save ms now cm g) = ledger g"
  using assms by (simp add: ledger_def run_save_def SaveMessage_def with_ID_def Let_def)

text \<open>What a step does to the ledger: nothing, a message added by a handler, or a save.\<close>

lemma step_ledger:
  assumes "gstep srv s t"
  obtains (kept) "books (gw s) (gw t)"
  | (added) c e data m r cm where "ph s c = Reading" "me (loc s c) = Some r" "unmarshal_WSMsg data = Some m"
      "authored (c_UserID (clientH (gw s) r)) m e cm" "adds cm (gw s) (gw t)"
  | (saved) ms now cm where "cm \<in> set (saves (gw s))" "gw t = run_save ms now cm (gw s)"
  using assms
proof cases
  case (accept c)
  then show thesis by (intro kept) (simp add: do_accept_def books_def)
next
  case (message c e data gl)
  then have g: "gw t = fst (state_of (handle_frame srv c e data (gw s, loc s c)))" by (simp add: do_message_def)
  show thesis
    using handle_frame_books [of "gw s" srv c e data "loc s c"] kept added [OF message(2)] unfolding g by blast
next
  case (message_panic c e data g l)
  then have g: "fst (state_of (handle_frame srv c e data (gw s, loc s c))) = g" "gw t = deferred c g"
    by (simp_all add: do_end_def)
  have after: "books g (gw t)" unfolding g(2) by (rule booking.deferred_calls)
  show thesis
    using handle_frame_books [of "gw s" srv c e data "loc s c"] kept [OF books_trans [OF _ after]]
      added [OF message_panic(2) _ _ _ books_adds(2) [OF _ after]] unfolding g(1) by blast
next
  case (read_error c e)
  then show thesis by (intro kept) (simp add: booking.cleaned_up)
next
  case (finish c)
  then show thesis by (intro kept) (simp add: do_end_def booking.deferred_calls)
next
  case (conn_write c b g)
  then show thesis by (intro kept) (auto simp: recv_chan_def books_def split: list.splits)
next
  case (conn_write_error c b g)
  then show thesis by (intro kept) (auto simp: recv_chan_def books_def split: list.splits)
next
  case (writer_end c)
  then show thesis by (intro kept) simp
next
  case (save ms cm now)
  then show thesis by (intro saved) simp_all
next
  case (disconnect uid)
  then show thesis by (intro kept) (simp add: booking.disconnected)
qed

lemma pending_named_step:
  assumes "gstep srv s t" "pending_named s"
  shows "pending_named t"
  using assms(1)
proof (cases rule: step_ledger)
  case kept
  then show ?thesis using assms(2) by (simp add: pending_named_def books_def)
next
  case (added c e data m r cm)
  then show ?thesis using assms(2) authored_From by (auto simp: pending_named_def adds_def)
next
  case (saved ms now cm)
  then show ?thesis
    using assms(2) set_remove1_subset [of cm "saves (gw s)"] by (auto simp: pending_named_def run_save_def)
qed

interpretation naming: invariant_system start "gstep srv" pending_named for srv :: GatewayServer
  by unfold_locales (simp add: pending_named_def start_def empty_gw_def, blast intro: pending_named_step)

text \<open>
  What a step changes in the books: one message is added, with the user ID of an authenticated
  connection as its sender, or none; and what is inserted was pending.
\<close>

definition conserves :: "sys \<Rightarrow> gw_state \<Rightarrow> bool" where
  "conserves s g \<longleftrightarrow>
     (ledger g = ledger (gw s)
      \<or> (\<exists>c e data m r cm. ph s c = Reading \<and> me (loc s c) = Some r \<and> unmarshal_WSMsg data = Some m
           \<and> authored (c_UserID (clientH (gw s) r)) m e cm \<and> cm_From cm = c_UserID (clientH (gw s) r)
           \<and> ledger g = add_mset cm (ledger (gw s))))
   \<and> (\<exists>new. inserted (gw_trace g) = inserted (gw_trace (gw s)) @ new \<and> set new \<subseteq> set (saves (gw s)))"

lemma step_conserves:
  assumes "gstep srv s t" "pending_named s"
  shows "conserves s (gw t)"
  using assms(1)
proof (cases rule: step_ledger)
  case kept
  then show ?thesis by (auto simp: conserves_def books_ledger) (auto simp: books_def)
next
  case (added c e data m r cm)
  then show ?thesis unfolding conserves_def using adds_ledger authored_From by (fastforce simp: adds_def)
next
  case (saved ms now cm)
  then show ?thesis
    using run_save_ledger [OF saved(1), of ms now] assms(2)
    by (auto simp: conserves_def pending_named_def run_save_def SaveMessage_def with_ID_def Let_def)
qed

text \<open>
  No message is stored twice, altered on its way to the store, or stored in another user's name.
  In every run the pending and the inserted messages together are changed by one kind of step only:
  a connection that has authenticated sends a \<open>send\<close> or \<open>private\<close> message, and exactly one message is
  added, with the user ID of that connection as its sender. A save moves one message from the pending
  to the inserted ones, and nothing is ever taken back.
\<close>

theorem messages_conserved:
  assumes "rtranclp (gstep srv) start s" "gstep srv s t"
  shows "(ledger (gw t) = ledger (gw s)
      \<or> (\<exists>c e data m r cm. ph s c = Reading \<and> me (loc s c) = Some r \<and> unmarshal_WSMsg data = Some m
           \<and> authored (c_UserID (clientH (gw s) r)) m e cm \<and> cm_From cm = c_UserID (clientH (gw s) r)
           \<and> ledger (gw t) = add_mset cm (ledger (gw s))))
     \<and> (\<exists>new. inserted (gw_trace (gw t)) = inserted (gw_trace (gw s)) @ new \<and> set new \<subseteq> set (saves (gw s)))"
  using step_conserves [OF assms(2) naming.inv_reachable [OF assms(1)]] unfolding conserves_def .

text \<open>User \<open>a\<close> logs in while the store refuses queries, and writes to \<open>b\<close>, who is offline.\<close>

definition query_down :: GatewayServer where
  "query_down = dev_srv\<lparr>gs_Mongo := Some \<lparr>mc_InsertOne = (\<lambda>_ _. None), mc_Find = (\<lambda>_ _ _. Inl ''down''),
     mc_UpdateMany = (\<lambda>_ _. None), mc_Ping = (\<lambda>_. None)\<rparr>\<rparr>"

definition writer_in :: "gw_state \<times> ws_local" where
  "writer_in = ((dev_login ''a'' 0 (gw accepted0))
     \<lparr>gw_trace := [CallMongoFind (undelivered_filter ''a'') \<lparr>fo_sortDesc = None, fo_limit = pullLimit\<rparr>]\<rparr>,
     init_local\<lparr>me := Some 0\<rparr>)"

definition note_sent :: "gw_state \<times> ws_local" where
  "note_sent = (fst writer_in\<lparr>chanH := after_private (fst writer_in) 0 ''b'' (private_frame ''a'' (private_msg ''b'' ''c'') env0),
     saves := [private_message ''a'' (private_msg ''b'' ''c'') env0 False]\<rparr>, snd writer_in)"

lemma writer_in_step:
  "handle_frame query_down 0 env0 (frame (auth_msg ''a'')) (gw accepted0, loc accepted0 0) = Returns writer_in"
  unfolding handle_frame_def unmarshal_auth [OF ascii_words(3)]
  by (simp add: dispatch_def handle_auth_def query_down_def dev_srv_def Let_def finish_auth_def new_client_def
      pushUndelivered_def PullUndeliveredForUser_def redis_set_online_def sendJSON_def send_nb_def registerOnline_def
      auth_msg_def writer_in_def run_defs)

lemma note_sent_step:
  "handle_frame query_down 0 env0 (frame (private_msg ''b'' ''c'')) writer_in = Returns note_sent"
proof -
  have me: "me (snd writer_in) = Some 0" and closed: "\<not> ch_closed (chanH (fst writer_in) 0)"
    and uid: "c_UserID (clientH (fst writer_in) 0) = ''a''" and offline: "getOnlineClient ''b'' (fst writer_in) = None"
    and none: "saves (fst writer_in) = []"
    by (simp_all add: writer_in_def run_defs getOnlineClient_def)
  have "handle_private query_down 0 env0 (private_msg ''b'' ''c'') (snd writer_in) (fst writer_in) = Returns (fst note_sent)"
    using handle_private_effect [OF me closed, of "private_msg ''b'' ''c''" query_down env0] offline uid none
    by (simp add: note_sent_def private_msg_def query_down_def)
  then show ?thesis
    unfolding handle_frame_def unmarshal_private [OF ascii_words(4,5)]
    by (simp add: dispatch_def case_prod_unfold note_sent_def private_msg_def)
qed

lemma writer_in_gstep: "gstep query_down accepted0 (do_message 0 writer_in accepted0)"
proof (rule gstep.message [OF _ _ _ writer_in_step])
  show "order_ok env0 (frame (auth_msg ''a'')) (gw accepted0)"
    using unmarshal_auth [OF ascii_words(3)] by (simp add: order_ok_def) (simp add: auth_msg_def)
qed (simp_all add: run_defs env0_def)

lemma note_run:
  "rtranclp (gstep query_down) start (do_message 0 writer_in accepted0)"
  "gstep query_down (do_message 0 writer_in accepted0) (do_message 0 note_sent (do_message 0 writer_in accepted0))"
proof -
  have "gstep query_down start accepted0"
    unfolding accepted0_def by (rule gstep.accept) (simp add: start_def)
  then show "rtranclp (gstep query_down) start (do_message 0 writer_in accepted0)"
    using writer_in_gstep by simp
  show "gstep query_down (do_message 0 writer_in accepted0) (do_message 0 note_sent (do_message 0 writer_in accepted0))"
  proof (rule gstep.message [where e = env0 and data = "frame (private_msg ''b'' ''c'')"])
    show "order_ok env0 (frame (private_msg ''b'' ''c'')) (gw (do_message 0 writer_in accepted0))"
      using unmarshal_private [OF ascii_words(4,5)] by (simp add: order_ok_def) (simp add: private_msg_def)
    show "handle_frame query_down 0 env0 (frame (private_msg ''b'' ''c''))
        (gw (do_message 0 writer_in accepted0), loc (do_message 0 writer_in accepted0) 0) = Returns note_sent"
      using note_sent_step by (simp add: do_message_def)
  qed (simp_all add: env0_def do_message_def run_defs)
qed

theorem messages_conserved_witness:
  "ledger (fst writer_in) = {#} \<and> ledger (fst note_sent) = {#private_message ''a'' (private_msg ''b'' ''c'') env0 False#}
   \<and> (\<exists>c e data m r cm. ph accepted0 c = Reading \<and> unmarshal_WSMsg data = Some m
        \<and> authored (c_UserID (clientH (fst writer_in) r)) m e cm \<and> cm_From cm = c_UserID (clientH (fst writer_in) r)
        \<and> ledger (fst note_sent) = add_mset cm (ledger (fst writer_in)))"
proof -
  have l: "ledger (fst writer_in) = {#}"
    "ledger (fst note_sent) = {#private_message ''a'' (private_msg ''b'' ''c'') env0 False#}"
    by (simp_all add: ledger_def note_sent_def writer_in_def run_defs)
  then show ?thesis
    using messages_conserved [OF note_run] by (fastforce simp: do_message_def split: if_splits)
qed

end
