(* ===== verification/RestApi.thy ===== *)
theory RestApi
  imports Middleware
begin

text \<open>
  \<open>internal/gateway/api.go\<close>: the REST endpoints. Each is a handler on the exchange; its guards are
  in the order of the code's early returns.
\<close>

section \<open>Accounts\<close>

record RESTHandler =
  rh_AuthClient :: "AuthServiceClient option"
  rh_Redis :: "RedisClient option"

definition log_x :: "call \<Rightarrow> exchange \<Rightarrow> exchange" where
  "log_x c x = x\<lparr>x_gw := log_call c (x_gw x)\<rparr>"

text \<open>The body of both account endpoints: both fields must be there and not be empty.\<close>

definition credentials :: "bytes \<Rightarrow> (string \<times> string) option" where
  "credentials body =
     (case decode_body2 ''username'' ''password'' body of
        None \<Rightarrow> None
      | Some (u, p) \<Rightarrow> (if u = [] \<or> p = [] then None else Some (u, p)))"

definition rest_Register :: "RESTHandler \<Rightarrow> handler" where
  "rest_Register h e r x =
     (if rq_Method r \<noteq> MethodPost then Returns (error_reply 405 ''method not allowed'' x)
      else
        (case credentials (rq_Body r) of
           None \<Rightarrow> Returns (error_reply 400 ''username and password required'' x)
         | Some (u, p) \<Rightarrow>
             (case rh_AuthClient h of
                None \<Rightarrow> Returns (error_reply 503 ''auth service unavailable'' x)
              | Some ac \<Rightarrow>
                  (let x1 = log_x (CallRegister u p) x in
                   case ac_Register ac (gw_trace (x_gw x)) u p of
                     Inl err \<Rightarrow> Returns (error_reply 500 err x1)
                   | Inr resp \<Rightarrow>
                       Returns (reply 200 (json_map [(''ok'', JBool (rr_Success resp)), (''msg'', JStr (rr_Message resp))]) x1)))))"

definition rest_Login :: "RESTHandler \<Rightarrow> handler" where
  "rest_Login h e r x =
     (if rq_Method r \<noteq> MethodPost then Returns (error_reply 405 ''method not allowed'' x)
      else
        (case credentials (rq_Body r) of
           None \<Rightarrow> Returns (error_reply 400 ''username and password required'' x)
         | Some (u, p) \<Rightarrow>
             (case rh_AuthClient h of
                None \<Rightarrow> Returns (error_reply 503 ''auth service unavailable'' x)
              | Some ac \<Rightarrow>
                  (let x1 = log_x (CallLogin u p) x in
                   case ac_Login ac (gw_trace (x_gw x)) u p of
                     Inl err \<Rightarrow> Returns (error_reply 500 err x1)
                   | Inr resp \<Rightarrow>
                       Returns (reply 200 (json_map [(''ok'', JBool (lr_Success resp)), (''msg'', JStr (lr_Message resp)),
                                                     (''token'', JStr (lr_Token resp))]) x1)))))"

definition JStrs :: "string list \<Rightarrow> json" where
  "JStrs xs = JArr (map JStr xs)"

definition OnlineUsers :: handler where
  "OnlineUsers e r x =
     (if rq_Method r \<noteq> MethodGet then Returns (error_reply 405 ''method not allowed'' x)
      else Returns (reply 200 (json_map [(''ok'', JBool True), (''users'', JStrs (GetOnlineUsers (we_online e) (x_gw x)))]) x))"

section \<open>Health\<close>

text \<open>The status of one dependency: disabled when the pointer is nil, else what the ping says.\<close>

definition probe :: "go_error option option \<Rightarrow> string" where
  "probe p = (case p of None \<Rightarrow> ''disabled'' | Some (Some err) \<Rightarrow> ''disconnected'' | Some None \<Rightarrow> ''connected'')"

definition Health :: "GatewayServer \<Rightarrow> handler" where
  "Health s e r x =
     (let h0 = gw_trace (x_gw x);
          mongo = map_option (\<lambda>ms. mc_Ping ms h0) (gs_Mongo s);
          x1 = (if mongo = None then x else log_x CallMongoPing x);
          redis = map_option (\<lambda>rd. rd_Ping rd (gw_trace (x_gw x1))) (gs_Redis s);
          x2 = (if redis = None then x1 else log_x CallRedisPing x1);
          ok = (probe mongo \<noteq> ''disconnected'' \<and> probe redis \<noteq> ''disconnected'');
          authsvc = (if gs_AuthClient s \<noteq> None then ''configured'' else ''disabled'')
      in Returns (reply (if ok then 200 else 503)
           (json_map [(''status'', JStr (if ok then ''ok'' else ''degraded'')), (''mongo'', JStr (probe mongo)),
                      (''redis'', JStr (probe redis)), (''authsvc'', JStr authsvc)]) x2))"

section \<open>Administration\<close>

definition AdminStats :: handler where
  "AdminStats e r x =
     (let users = GetOnlineUsers (we_online e) (x_gw x); ids = GetRoomIDs (we_rooms e) (x_gw x) in
      Returns (reply 200
        (json_map [(''ok'', JBool True), (''online_users'', JInt (int (length users))), (''online_list'', JStrs users),
                   (''active_rooms'', JInt (int (GetRoomCount (x_gw x)))), (''room_list'', JStrs ids)]) x))"

definition user_json :: "gw_state \<Rightarrow> user_row \<Rightarrow> json" where
  "user_json s u =
     json_map [(''id'', JInt (ur_id u)), (''username'', JStr (ur_username u)), (''role'', JStr (ur_role u)),
               (''created_at'', JStr (rfc3339 (ur_created u))),
               (''is_online'', JBool (getOnlineClient (ur_username u) s \<noteq> None))]"

text \<open>Rows that fail to scan are skipped.\<close>

fun scan_users :: "gw_state \<Rightarrow> user_row option list \<Rightarrow> json list \<Rightarrow> json list" where
  "scan_users s [] users = users"
| "scan_users s (None # rows) users = scan_users s rows users"
| "scan_users s (Some u # rows) users = scan_users s rows (users @ [user_json s u])"

definition AdminUsers :: "GatewayServer \<Rightarrow> handler" where
  "AdminUsers srv e r x =
     (case gs_DB srv of
        None \<Rightarrow> Returns (error_reply 503 ''database unavailable'' x)
      | Some db \<Rightarrow>
          (let x1 = log_x CallSelectUsers x in
           case db_Users db (gw_trace (x_gw x)) of
             Inl err \<Rightarrow> Returns (error_reply 500 ''database error'' x1)
           | Inr rows \<Rightarrow>
               Returns (reply 200 (json_map [(''ok'', JBool True), (''users'', JArr (scan_users (x_gw x) rows []))]) x1)))"

definition user_id_of :: "bytes \<Rightarrow> string option" where
  "user_id_of body = (case decode_body1 ''user_id'' body of None \<Rightarrow> None | Some uid \<Rightarrow> if uid = [] then None else Some uid)"

definition AdminBanUser :: "GatewayServer \<Rightarrow> handler" where
  "AdminBanUser srv e r x =
     (if rq_Method r \<noteq> MethodPost then Returns (error_reply 405 ''method not allowed'' x)
      else
        (case gs_DB srv of
           None \<Rightarrow> Returns (error_reply 503 ''database unavailable'' x)
         | Some db \<Rightarrow>
             (case user_id_of (rq_Body r) of
                None \<Rightarrow> Returns (error_reply 400 ''user_id required'' x)
              | Some uid \<Rightarrow>
                  (let x1 = log_x (CallBan uid) x in
                   case db_Ban db (gw_trace (x_gw x)) uid of
                     Inl err \<Rightarrow> Returns (error_reply 500 ''database error'' x1)
                   | Inr affected \<Rightarrow>
                       (if affected = 0 then Returns (error_reply 400 ''user not found or is admin'' x1)
                        else
                          (let x2 = x1\<lparr>x_gw := disconnectUser uid (x_gw x1)\<rparr>
                           in Returns (reply 200 (json_map [(''ok'', JBool True), (''msg'', JStr ''user banned'')]) x2)))))))"

definition AdminUnbanUser :: "GatewayServer \<Rightarrow> handler" where
  "AdminUnbanUser srv e r x =
     (if rq_Method r \<noteq> MethodPost then Returns (error_reply 405 ''method not allowed'' x)
      else
        (case gs_DB srv of
           None \<Rightarrow> Returns (error_reply 503 ''database unavailable'' x)
         | Some db \<Rightarrow>
             (case user_id_of (rq_Body r) of
                None \<Rightarrow> Returns (error_reply 400 ''user_id required'' x)
              | Some uid \<Rightarrow>
                  (let x1 = log_x (CallUnban uid) x in
                   case db_Unban db (gw_trace (x_gw x)) uid of
                     Inl err \<Rightarrow> Returns (error_reply 500 ''database error'' x1)
                   | Inr affected \<Rightarrow>
                       (if affected = 0 then Returns (error_reply 400 ''user not found or not banned'' x1)
                        else Returns (reply 200 (json_map [(''ok'', JBool True), (''msg'', JStr ''user unbanned'')]) x1))))))"

section \<open>Upload\<close>

definition maxUploadSize :: nat where
  "maxUploadSize = 10 * 2 ^ 20"

definition letters :: string where
  "letters = ''abcdefghijklmnopqrstuvwxyz0123456789''"

text \<open>
  Go's remainder has the sign of the dividend; an index below zero panics (\<open>None\<close>). The arguments
  are the successive readings of \<open>time.Now().UnixNano()\<close>.
\<close>

definition letter_at :: "time_ns \<Rightarrow> char option" where
  "letter_at t =
     (let i = (if t < 0 then - ((- t) mod int (length letters)) else t mod int (length letters))
      in if i < 0 then None else Some (letters ! nat i))"

fun randomString :: "(nat \<Rightarrow> time_ns) \<Rightarrow> nat \<Rightarrow> nat \<Rightarrow> string option" where
  "randomString clk i 0 = Some []"
| "randomString clk i (Suc n) =
     (case letter_at (clk i) of
        None \<Rightarrow> None
      | Some c \<Rightarrow> map_option (\<lambda>s. c # s) (randomString clk (Suc i) n))"

definition allowed_exts :: "string list" where
  "allowed_exts = [''.jpg'', ''.jpeg'', ''.png'', ''.gif'', ''.webp'', ''.pdf'', ''.doc'', ''.docx'', ''.txt'', ''.zip'',
     ''.mp3'', ''.mp4'', ''.wav'']"

text \<open>
  The file is created empty under \<open>uploads/\<close> (what \<open>filepath.Join\<close> makes of \<open>./uploads\<close> and a name
  without a slash), then copied into; \<open>we_copied\<close> is how many bytes a failing copy has written.
\<close>

definition dst_path :: "string \<Rightarrow> string" where
  "dst_path filename = ''uploads/'' @ filename"

definition put_file :: "string \<Rightarrow> bytes \<Rightarrow> exchange \<Rightarrow> exchange" where
  "put_file path content x = x\<lparr>x_files := (x_files x)(path \<mapsto> content)\<rparr>"

definition Upload :: handler where
  "Upload e r x =
     (if rq_Method r \<noteq> MethodPost then Returns (error_reply 405 ''method not allowed'' x)
      else
        (case rq_Multipart r maxUploadSize of
           None \<Rightarrow> Returns (error_reply 400 ''file too large (max 10MB)'' x)
         | Some parts \<Rightarrow>
             (case parts ''file'' of
                None \<Rightarrow> Returns (error_reply 400 ''file field required'' x)
              | Some f \<Rightarrow>
                  (let ext = ToLower (Ext (up_Filename f)) in
                   if ext \<notin> set allowed_exts then Returns (error_reply 400 ''file type not allowed'' x)
                   else if we_mkdir e \<noteq> None then Returns (error_reply 500 ''server error'' x)
                   else
                     (case randomString (we_clk e) 2 8 of
                        None \<Rightarrow> Panics x
                      | Some rnd \<Rightarrow>
                          (let filename = show_int (we_clk e 1) @ ''_'' @ rnd @ ext in
                           if we_create e \<noteq> None then Returns (error_reply 500 ''server error'' x)
                           else
                             (case we_copied e of
                                Some n \<Rightarrow>
                                  Returns (error_reply 500 ''server error'' (put_file (dst_path filename) (take n (up_Content f)) x))
                              | None \<Rightarrow>
                                  Returns (reply 200
                                    (json_map [(''ok'', JBool True), (''url'', JStr (''/uploads/'' @ filename)),
                                               (''filename'', JStr (up_Filename f)), (''size'', JInt (up_Size f))])
                                    (put_file (dst_path filename) (up_Content f) x)))))))))"

end
