(* ===== verification/Startup.thy ===== *)
theory Startup
  imports RestApi
begin

text \<open>
  The two programs under \<open>cmd/\<close>: how the configuration is read, which services a process ends up
  with when some cannot be reached, and the routes of the gateway with their middlewares.
\<close>

section \<open>Configuration of the gateway\<close>

text \<open>
  \<open>viper\<close> is a parameter: what \<open>GetString\<close> returns for the settings made by \<open>loadConfig\<close>, in the
  process environment and with the contents of the config file (\<open>None\<close> when it cannot be read).
\<close>

record viper_settings =
  vs_Defaults :: "(string \<times> string) list"
  vs_EnvPrefix :: string
  vs_AutomaticEnv :: bool
  vs_Replacer :: "(string \<Rightarrow> string) option"
  vs_File :: "(string \<Rightarrow> string option) option"

type_synonym viper = "viper_settings \<Rightarrow> (string \<Rightarrow> string) \<Rightarrow> string \<Rightarrow> string"

definition loadConfig :: "string \<Rightarrow> (string \<Rightarrow> (string \<Rightarrow> string option) option) \<Rightarrow> viper_settings" where
  "loadConfig path read_file =
     \<lparr>vs_Defaults = [(''authsvc.addr'', ''localhost:50051''), (''mongo.uri'', ''mongodb://127.0.0.1:27017''),
        (''mongo.db'', ''gochatx''), (''redis.addr'', ''127.0.0.1:6379''), (''gateway.listen'', '':8080''),
        (''gateway.cors'', ''*'')],
      vs_EnvPrefix = ''GOCHATX'', vs_AutomaticEnv = True, vs_Replacer = None,
      vs_File = (if path = [] then None else read_file path)\<rparr>"

text \<open>
  The documented look-up: with \<open>AutomaticEnv\<close> a key is first looked up in the environment, under
  the prefix, an underscore and the key, passed through the replacer when one is set, in upper
  case; an empty variable counts as unset. Then come the file and the default.
\<close>

definition upper :: "string \<Rightarrow> string" where
  "upper s = map upper_byte s"

definition env_name :: "viper_settings \<Rightarrow> string \<Rightarrow> string" where
  "env_name s key =
     (let k = upper (vs_EnvPrefix s @ ''_'' @ key) in (case vs_Replacer s of None \<Rightarrow> k | Some f \<Rightarrow> f k))"

definition viper_laws :: "viper \<Rightarrow> bool" where
  "viper_laws vp \<longleftrightarrow>
     (\<forall>s env key. vp s env key =
        (if vs_AutomaticEnv s \<and> env (env_name s key) \<noteq> [] then env (env_name s key)
         else case (case vs_File s of None \<Rightarrow> None | Some f \<Rightarrow> f key) of
             Some v \<Rightarrow> v
           | None \<Rightarrow> (case map_of (vs_Defaults s) key of Some v \<Rightarrow> v | None \<Rightarrow> [])))"

section \<open>Connecting\<close>

text \<open>The MongoDB driver: a connection with its ping and its collections, by database and name.\<close>

record mongo_conn =
  mn_Ping :: "go_error option"
  mn_Collection :: "string \<Rightarrow> string \<Rightarrow> MangoStore"

definition NewMangoStore :: "(string \<Rightarrow> go_error + mongo_conn) \<Rightarrow> string \<Rightarrow> string \<Rightarrow> go_error + MangoStore" where
  "NewMangoStore connect uri dbName =
     (case connect uri of
        Inl e \<Rightarrow> Inl (''mongo connect: '' @ e)
      | Inr client \<Rightarrow>
          (case mn_Ping client of
             Some e \<Rightarrow> Inl (''mongo ping: '' @ e)
           | None \<Rightarrow> Inr (mn_Collection client dbName ''messages'')))"

text \<open>What the outside world answers at start-up.\<close>

record outside =
  o_Getenv :: "string \<Rightarrow> string"
  o_Viper :: viper
  o_ReadFile :: "string \<Rightarrow> (string \<Rightarrow> string option) option"
  o_Dial :: "string \<Rightarrow> go_error + AuthServiceClient"
  o_SqlOpen :: "string \<Rightarrow> go_error + UserDB"
  o_SqlPing :: "string \<Rightarrow> go_error option"
  o_MongoConnect :: "string \<Rightarrow> go_error + mongo_conn"
  o_RedisClient :: "string \<Rightarrow> RedisClient"

definition ok_opt :: "'e + 'a \<Rightarrow> 'a option" where
  "ok_opt r = (case r of Inl _ \<Rightarrow> None | Inr a \<Rightarrow> Some a)"

definition NewGatewayServer :: "AuthServiceClient option \<Rightarrow> MangoStore option \<Rightarrow> RedisClient option \<Rightarrow> GatewayServer" where
  "NewGatewayServer authConn mongo rdb =
     \<lparr>gs_AuthClient = authConn, gs_Mongo = mongo, gs_Redis = rdb, gs_DB = None\<rparr>"

definition NewRESTHandler :: "AuthServiceClient option \<Rightarrow> RedisClient option \<Rightarrow> RESTHandler" where
  "NewRESTHandler authConn rdb = \<lparr>rh_AuthClient = authConn, rh_Redis = rdb\<rparr>"

definition connect_auth :: "outside \<Rightarrow> string \<Rightarrow> AuthServiceClient option" where
  "connect_auth w addr = (if addr = [] then None else ok_opt (o_Dial w addr))"

definition connect_db :: "outside \<Rightarrow> string \<Rightarrow> UserDB option" where
  "connect_db w dsn =
     (if dsn = [] then None
      else case o_SqlOpen w dsn of
          Inl _ \<Rightarrow> None
        | Inr db \<Rightarrow> (if o_SqlPing w dsn \<noteq> None then None else Some db))"

definition connect_mongo :: "outside \<Rightarrow> string \<Rightarrow> string \<Rightarrow> MangoStore option" where
  "connect_mongo w uri dbName = (if uri = [] then None else ok_opt (NewMangoStore (o_MongoConnect w) uri dbName))"

definition connect_redis :: "outside \<Rightarrow> string \<Rightarrow> RedisClient option" where
  "connect_redis w addr =
     (if addr = [] then None
      else (let rdb = o_RedisClient w addr in if rd_Ping rdb [] \<noteq> None then None else Some rdb))"

section \<open>The gateway process\<close>

record gateway_process =
  gp_Server :: GatewayServer
  gp_Rest :: RESTHandler
  gp_Limiter :: RateLimiter
  gp_Secret :: bytes
  gp_Cors :: string
  gp_Listen :: string

definition gateway_main :: "outside \<Rightarrow> string \<Rightarrow> gateway_process" where
  "gateway_main w config_path =
     (let cfg = loadConfig config_path (o_ReadFile w);
          GetString = o_Viper w cfg (o_Getenv w);
          jwtSecret = (if o_Getenv w ''JWT_SECRET'' = [] then ''supersecretkey'' else o_Getenv w ''JWT_SECRET'');
          authConn = connect_auth w (GetString ''authsvc.addr'');
          db = connect_db w (o_Getenv w ''DB_DSN'');
          mongoStore = connect_mongo w (GetString ''mongo.uri'') (GetString ''mongo.db'');
          rdb = connect_redis w (GetString ''redis.addr'')
      in \<lparr>gp_Server = (NewGatewayServer authConn mongoStore rdb)\<lparr>gs_DB := db\<rparr>,
          gp_Rest = NewRESTHandler authConn rdb, gp_Limiter = NewRateLimiter rdb, gp_Secret = jwtSecret,
          gp_Cors = GetString ''gateway.cors'', gp_Listen = GetString ''gateway.listen''\<rparr>)"

definition minute :: time_ns where
  "minute = 60 * 1000000000"

text \<open>
  The routes. \<open>ws\<close> is the WebSocket endpoint and \<open>files\<close> answers everything else: the two file
  servers and the redirects of the multiplexer.
\<close>

definition mux :: "JWTLib \<Rightarrow> handler \<Rightarrow> handler \<Rightarrow> gateway_process \<Rightarrow> handler" where
  "mux j ws files p e r x =
     (let path = rq_Path r; admin = AdminMiddleware j (gp_Secret p); srv = gp_Server p; rl = gp_Limiter p in
      if path = ''/ws'' then ws e r x
      else if path = ''/health'' then Health srv e r x
      else if path = ''/api/login'' then Limit rl LoginKey 10 minute (rest_Login (gp_Rest p)) e r x
      else if path = ''/api/register'' then Limit rl LoginKey 5 minute (rest_Register (gp_Rest p)) e r x
      else if path = ''/api/users/online'' then Limit rl IPKey 30 minute OnlineUsers e r x
      else if path = ''/api/upload'' then AuthMiddleware j (gp_Secret p) Upload e r x
      else if path = ''/api/admin/stats'' then admin AdminStats e r x
      else if path = ''/api/admin/users'' then admin (AdminUsers srv) e r x
      else if path = ''/api/admin/users/ban'' then admin (AdminBanUser srv) e r x
      else if path = ''/api/admin/users/unban'' then admin (AdminUnbanUser srv) e r x
      else files e r x)"

definition serve :: "JWTLib \<Rightarrow> handler \<Rightarrow> handler \<Rightarrow> gateway_process \<Rightarrow> handler" where
  "serve j ws files p = CORSMiddleware (gp_Cors p) (mux j ws files p)"

section \<open>The auth service process\<close>

definition getEnvOrDefault :: "(string \<Rightarrow> string) \<Rightarrow> string \<Rightarrow> string \<Rightarrow> string" where
  "getEnvOrDefault env key dflt = (if env key \<noteq> [] then env key else dflt)"

record authsvc_outside =
  ao_Getenv :: "string \<Rightarrow> string"
  ao_SqlOpen :: "string \<Rightarrow> go_error + AccountDB"
  ao_SqlPing :: "string \<Rightarrow> go_error option"
  ao_CreateTable :: "string \<Rightarrow> go_error option"
  ao_RedisPing :: "string \<Rightarrow> go_error option"
  ao_Listen :: "string \<Rightarrow> go_error option"
  ao_Bcrypt :: Bcrypt
  ao_JWT :: JWTLib

text \<open>\<open>os.Exit(1)\<close> after the logged message, or a value.\<close>

datatype 'a startup = Exit string | Up 'a

definition initDB :: "authsvc_outside \<Rightarrow> string \<Rightarrow> AccountDB startup" where
  "initDB w dsn =
     (case ao_SqlOpen w dsn of
        Inl e \<Rightarrow> Exit ''failed to open database''
      | Inr db \<Rightarrow>
          (if ao_SqlPing w dsn \<noteq> None then Exit ''failed to ping database''
           else if ao_CreateTable w dsn \<noteq> None then Exit ''failed to migrate users table''
           else Up db))"

definition initRedis :: "authsvc_outside \<Rightarrow> string \<Rightarrow> unit startup" where
  "initRedis w addr = (if ao_RedisPing w addr \<noteq> None then Exit ''failed to connect to redis'' else Up ())"

definition authsvc_main :: "authsvc_outside \<Rightarrow> (string \<times> AuthService) startup" where
  "authsvc_main w =
     (let dsn = ao_Getenv w ''DB_DSN'' in
      if dsn = [] then Exit ''DB_DSN environment variable is required''
      else
        (let redisAddr = getEnvOrDefault (ao_Getenv w) ''REDIS_ADDR'' ''127.0.0.1:6379'';
             listenAddr = getEnvOrDefault (ao_Getenv w) ''LISTEN_ADDR'' '':50051'';
             jwtSecret = ao_Getenv w ''JWT_SECRET''
         in if jwtSecret = [] then Exit ''JWT_SECRET environment variable is required''
            else
              (case initDB w dsn of
                 Exit msg \<Rightarrow> Exit msg
               | Up db \<Rightarrow>
                   (case initRedis w redisAddr of
                      Exit msg \<Rightarrow> Exit msg
                    | Up _ \<Rightarrow>
                        (if ao_Listen w listenAddr \<noteq> None then Exit ''failed to listen''
                         else Up (listenAddr,
                           \<lparr>as_DB = db, as_Bcrypt = ao_Bcrypt w, as_JWT = ao_JWT w, as_JWTSecret = jwtSecret\<rparr>))))))"

end
