(* ===== verification/AuthRpc.thy ===== *)
theory AuthRpc
  imports Startup
begin

text \<open>
  The gRPC path between the two processes, \<open>api/auth_grpc.pb.go\<close>: the client stub of the gateway calls
  \<open>Invoke\<close>, the handler on the other side decodes the request and calls the service. The transport is
  a parameter: whether a call fails before a reply arrives, as a function of the gateway's trace, and
  the instant at which it is served. The stub returns a response or an error, never both nil.
\<close>

record transport =
  tr_Fails :: "trace \<Rightarrow> go_error option"
  tr_Now :: "trace \<Rightarrow> time_ns"

text \<open>The text of a gRPC status error as the client sees it.\<close>

definition rpc_text :: "rpc_error \<Rightarrow> go_error" where
  "rpc_text err =
     (case err of
        RpcInternal msg \<Rightarrow> ''rpc error: code = Internal desc = '' @ msg
      | RpcUnimplemented msg \<Rightarrow> ''rpc error: code = Unimplemented desc = '' @ msg)"

definition Invoke :: "transport \<Rightarrow> trace \<Rightarrow> (time_ns \<Rightarrow> rpc_error + 'r) \<Rightarrow> go_error + 'r" where
  "Invoke net h handler =
     (case tr_Fails net h of
        Some e \<Rightarrow> Inl e
      | None \<Rightarrow> (case handler (tr_Now net h) of Inl err \<Rightarrow> Inl (rpc_text err) | Inr out \<Rightarrow> Inr out))"

text \<open>
  The stub over a service. \<open>salt\<close> and \<open>db\<close> give the random salt and the trace of the auth service at
  the time of a call, which the gateway does not see.
\<close>

definition NewAuthServiceClient ::
    "transport \<Rightarrow> AuthService \<Rightarrow> (trace \<Rightarrow> nat) \<Rightarrow> (trace \<Rightarrow> auth_trace) \<Rightarrow> AuthServiceClient" where
  "NewAuthServiceClient net svc salt db =
     \<lparr>ac_Validate = (\<lambda>h tok. map_sum id Some (Invoke net h (\<lambda>now. Validate svc now tok))),
      ac_Register = (\<lambda>h u p. Invoke net h (\<lambda>now. fst (Register svc (salt h) u p (db h)))),
      ac_Login = (\<lambda>h u p. Invoke net h (\<lambda>now. fst (Login svc now now u p (db h))))\<rparr>"

lemma validate_rpc:
  "ac_Validate (NewAuthServiceClient net svc salt db) h tok =
     (case tr_Fails net h of
        Some e \<Rightarrow> Inl e
      | None \<Rightarrow> (case Validate svc (tr_Now net h) tok of Inl err \<Rightarrow> Inl (rpc_text err) | Inr r \<Rightarrow> Inr (Some r)))"
  by (simp add: NewAuthServiceClient_def Invoke_def split: option.split sum.split)

end
