(* ===== verification/RestProperties.thy ===== *)
theory RestProperties
  imports Startup SystemProperties
begin

text \<open>
  Properties of the REST endpoints as the gateway serves them: the guards of the administration, the
  ban, the list of online users, the upload and the cross-origin headers.
\<close>

section \<open>Requests for the witnesses\<close>

definition no_jwt :: JWTLib where
  "no_jwt = \<lparr>jl_Sign = (\<lambda>_ _ _. Inl []), jl_Parse = (\<lambda>_ _ _. Inl ''invalid'')\<rparr>"

definition request :: "string \<Rightarrow> string \<Rightarrow> http_request" where
  "request meth path = \<lparr>rq_Method = meth, rq_Path = path, rq_Header = (\<lambda>_. []), rq_RemoteAddr = ''10.0.0.1:80'',
     rq_Body = [], rq_Multipart = (\<lambda>_. None), rq_Ctx = Map.empty\<rparr>"

definition plain_process :: gateway_process where
  "plain_process = \<lparr>gp_Server = dev_srv, gp_Rest = NewRESTHandler None None, gp_Limiter = NewRateLimiter None,
     gp_Secret = ''key'', gp_Cors = ''*'', gp_Listen = '':8080''\<rparr>"

definition web0 :: web_env where
  "web0 = \<lparr>we_clk = (\<lambda>_. 0), we_online = [], we_rooms = [], we_mkdir = None, we_create = None, we_copied = None\<rparr>"

definition fresh :: exchange where
  "fresh = \<lparr>x_w = new_writer, x_gw = empty_gw, x_files = Map.empty\<rparr>"

definition idle :: handler where
  "idle e r x = Returns x"

section \<open>Guards\<close>

text \<open>The claims of the bearer token of a request, when it has a valid one.\<close>

definition token_claims :: "JWTLib \<Rightarrow> bytes \<Rightarrow> web_env \<Rightarrow> http_request \<Rightarrow> Claims option" where
  "token_claims j secret e r =
     (if HasPrefix (rq_Header r ''Authorization'') bearer
      then ok_opt (parseJWTToken j (we_clk e 0) (TrimPrefix (rq_Header r ''Authorization'') bearer) secret) else None)"

definition admin_paths :: "string list" where
  "admin_paths = [''/api/admin/stats'', ''/api/admin/users'', ''/api/admin/users/ban'', ''/api/admin/users/unban'']"

definition is_admin :: "Claims option \<Rightarrow> bool" where
  "is_admin c \<longleftrightarrow> (case c of None \<Rightarrow> False | Some cl \<Rightarrow> cl_Role cl = ''admin'')"

lemma HasPrefix_bearer_Nil [simp]: "\<not> HasPrefix [] bearer"
  by (simp add: HasPrefix_def bearer_def)

lemma AdminMiddleware_refuses:
  assumes "\<not> is_admin (token_claims j secret e r)"
  shows "\<exists>msg. AdminMiddleware j secret next e r x = Returns (error_reply 401 msg x)
       \<or> AdminMiddleware j secret next e r x = Returns (error_reply 403 msg x)"
  using assms
  by (auto simp: AdminMiddleware_def token_claims_def is_admin_def ok_opt_def Let_def split: sum.splits)

lemma AuthMiddleware_refuses:
  assumes "token_claims j secret e r = None"
  shows "\<exists>msg. AuthMiddleware j secret next e r x = Returns (error_reply 401 msg x)"
  using assms by (auto simp: AuthMiddleware_def token_claims_def ok_opt_def Let_def split: sum.splits)

lemma cors_frame:
  "\<exists>w. CORSMiddleware o' next e r x =
     (if rq_Method r = MethodOptions then Returns (x\<lparr>x_w := WriteHeader 204 w\<rparr>) else next e r (x\<lparr>x_w := w\<rparr>))
   \<and> w_Sent w = w_Sent (x_w x)"
  by (auto simp: CORSMiddleware_def Let_def cors_headers_def intro: exI [of _ "x_w x"])



text \<open>
  A preflight request never reaches an endpoint: whatever the path and the configured origins,
  an \<open>OPTIONS\<close> request is answered with 204 and an empty body and leaves the state and the files alone;
  the CORS headers are in the answer exactly when the origin is an allowed one.
\<close>

theorem preflight_is_answered:
  assumes "rq_Method r = MethodOptions"
  shows "\<exists>y. serve j ws files p e r (x\<lparr>x_w := new_writer\<rparr>) = Returns y \<and> x_gw y = x_gw x \<and> x_files y = x_files x
     \<and> w_status (x_w y) = Some 204 \<and> w_Body (x_w y) = []
     \<and> sent_header ''Access-Control-Allow-Origin'' (x_w y)
         = (if allowed_origin (gp_Cors p) (rq_Header r ''Origin'') then Some (rq_Header r ''Origin'') else None)"
  using assms
  by (simp add: serve_def CORSMiddleware_def Let_def w_status_def sent_header_def new_writer_def cors_headers_def)

theorem preflight_is_answered_witness:
  "\<exists>y. serve no_jwt idle idle plain_process web0 (request ''OPTIONS'' ''/api/login'') (fresh\<lparr>x_w := new_writer\<rparr>) = Returns y
     \<and> x_gw y = x_gw fresh \<and> x_files y = x_files fresh \<and> w_status (x_w y) = Some 204 \<and> w_Body (x_w y) = []
     \<and> sent_header ''Access-Control-Allow-Origin'' (x_w y)
         = (if allowed_origin (gp_Cors plain_process) (rq_Header (request ''OPTIONS'' ''/api/login'') ''Origin'')
            then Some (rq_Header (request ''OPTIONS'' ''/api/login'') ''Origin'') else None)"
  by (rule preflight_is_answered) (simp add: request_def MethodOptions_def)

section \<open>Online users\<close>

text \<open>
  The list of online users is complete and has no duplicates: a \<open>GET\<close> is answered with 200 and
  the user IDs of the online table, each once, in the order in which Go visits the table.
\<close>

theorem online_list_is_complete:
  assumes "rq_Method r = MethodGet" "range_order (onlineUsers (x_gw x)) (we_online e)" "w_Sent (x_w x) = None"
  shows "\<exists>y. OnlineUsers e r x = Returns y \<and> x_gw y = x_gw x \<and> w_status (x_w y) = Some 200
     \<and> w_Body (x_w y) = w_Body (x_w x) @ marshal (json_map [(''ok'', JBool True), (''users'', JStrs (we_online e))]) @ [CHR 0x0A]
     \<and> distinct (we_online e) \<and> set (we_online e) = {u. getOnlineClient u (x_gw x) \<noteq> None}"
proof -
  have ord: "range_order (\<lambda>u. getOnlineClient u (x_gw x)) (we_online e)"
    using assms(2) by (simp add: getOnlineClient_def)
  have "OnlineUsers e r x = Returns (reply 200 (json_map [(''ok'', JBool True), (''users'', JStrs (we_online e))]) x)"
    using assms(1) online.keys_all [OF ord] by (simp add: OnlineUsers_def)
  then show ?thesis
    using jsonResponse_fresh [OF assms(3)] online.keys_complete [OF ord] online.keys_all [OF ord] by simp
qed

theorem online_list_is_complete_witness:
  "\<exists>y. OnlineUsers (web0\<lparr>we_online := [''a'']\<rparr>) (request ''GET'' ''/api/users/online'') (fresh\<lparr>x_gw := gw logged0\<rparr>) = Returns y
     \<and> x_gw y = x_gw (fresh\<lparr>x_gw := gw logged0\<rparr>) \<and> w_status (x_w y) = Some 200
     \<and> w_Body (x_w y) = w_Body (x_w (fresh\<lparr>x_gw := gw logged0\<rparr>))
         @ marshal (json_map [(''ok'', JBool True), (''users'', JStrs (we_online (web0\<lparr>we_online := [''a'']\<rparr>)))]) @ [CHR 0x0A]
     \<and> distinct (we_online (web0\<lparr>we_online := [''a'']\<rparr>))
     \<and> set (we_online (web0\<lparr>we_online := [''a'']\<rparr>)) = {u. getOnlineClient u (x_gw (fresh\<lparr>x_gw := gw logged0\<rparr>)) \<noteq> None}"
  by (rule online_list_is_complete)
    (simp_all add: request_def MethodGet_def fresh_def new_writer_def range_order_def run_defs)

text \<open>
  The administration's list asks the wrong key whether a user is online. The online table is
  keyed by the user ID of the token, which is the numeric id of the row, but the list looks up the
  user name: a user who is online under that id is listed as offline unless someone is online under
  an id equal to the name.
\<close>

theorem admin_list_asks_by_name:
  assumes "getOnlineClient (show_int (ur_id u)) s \<noteq> None" "getOnlineClient (ur_username u) s = None"
  shows "\<exists>kvs. user_json s u = JObj kvs \<and> map_of kvs ''is_online'' = Some (JBool False)"
proof -
  have "map_of (sort_key fst [(a, b), (c, d), (e, f), (g, h), (''is_online'', v)]) ''is_online'' = Some v"
    if "a = ''id''" "c = ''username''" "e = ''role''" "g = ''created_at''" for a b c d e f g h v
    by (rule map_of_is_SomeI) (simp_all add: that)
  then show ?thesis using assms(2) by (simp add: user_json_def json_map_def)
qed

definition row0 :: user_row where
  "row0 = \<lparr>ur_id = 0, ur_username = ''bob'', ur_role = ''user'', ur_created = 0\<rparr>"

theorem admin_list_asks_by_name_witness:
  "\<exists>kvs. user_json (registerOnline ''0'' 0 empty_gw) row0 = JObj kvs \<and> map_of kvs ''is_online'' = Some (JBool False)"
proof (rule admin_list_asks_by_name)
  have "show_int 0 = ''0''" by (simp add: show_int_def show_nat.simps digit_char_def char_of_def bit_Suc_0_iff)
  then show "getOnlineClient (show_int (ur_id row0)) (registerOnline ''0'' 0 empty_gw) \<noteq> None"
    by (simp add: row0_def getOnlineClient_def registerOnline_def)
qed (simp add: row0_def getOnlineClient_def registerOnline_def empty_gw_def)

end
