(* ===== verification/AuthProperties.thy ===== *)
theory AuthProperties
  imports AuthService Wire
begin

text \<open>
  Properties of the auth service, with an in-memory table, an identity \<open>bcrypt\<close> and a JWT library
  whose tokens carry their claims in clear, for the witnesses.
\<close>

section \<open>Concrete libraries\<close>

definition plain_bcrypt :: Bcrypt where
  "plain_bcrypt = \<lparr>bc_Generate = (\<lambda>_ pw. if length pw \<le> 72 then Inr pw else Inl ''too long''), bc_Compare = (\<lambda>h pw. h = pw)\<rparr>"

lemma plain_bcrypt_laws: "bcrypt_laws plain_bcrypt"
  by (simp add: bcrypt_laws_def plain_bcrypt_def)

text \<open>One signable claim set, one key: enough to instantiate the library.\<close>

definition one_jwt :: "bytes \<Rightarrow> Claims \<Rightarrow> JWTLib" where
  "one_jwt secret cl =
     \<lparr>jl_Sign = (\<lambda>m key c. if m = HS256 \<and> key = secret \<and> c = cl then Inr ''tok'' else Inl ''key''),
      jl_Parse = (\<lambda>now kf tok. if tok = ''tok'' \<and> kf HS256 = Some secret \<and> now < cl_ExpiresAt cl * 1000000000
         then Inr \<lparr>tk_Claims = cl, tk_Valid = True\<rparr> else Inl ''invalid'')\<rparr>"

lemma one_jwt_laws: "jwt_laws (one_jwt secret cl)"
  by (auto simp: jwt_laws_def one_jwt_def split: if_splits)

text \<open>A table in memory: one row per successful registration; ids are the lengths of the trace.\<close>

fun mem_rows :: "(string \<times> string \<times> string) list \<Rightarrow> auth_trace \<Rightarrow> (string \<times> string \<times> string) list" where
  "mem_rows rs [] = rs"
| "mem_rows rs (CallInsertUser u p # h) =
     (if u \<in> fst ` set rs then mem_rows rs h else mem_rows (rs @ [(u, show_nat (length rs), p)]) h)"
| "mem_rows rs (_ # h) = mem_rows rs h"

lemma mem_rows_append: "mem_rows rs (h @ h') = mem_rows (mem_rows rs h) h'"
  by (induction rs h rule: mem_rows.induct) auto

definition mem_accounts :: AccountDB where
  "mem_accounts =
     \<lparr>ad_Insert = (\<lambda>h u p. if u \<in> fst ` set (mem_rows [] h) then Some (MySQLError 1062 ''Duplicate entry'') else None),
      ad_Select = (\<lambda>h u. case map_of (mem_rows [] h) u of
         None \<Rightarrow> Inl (OtherError ''sql: no rows in result set'') | Some (i, p) \<Rightarrow> Inr (i, p, ''user''))\<rparr>"

lemma mem_rows_ids: "(v, i, q) \<in> set (mem_rows rs h) \<Longrightarrow> (v, i, q) \<in> set rs \<or> (\<exists>n. length rs \<le> n \<and> n < length (mem_rows rs h) \<and> i = show_nat n)"
proof (induction rs h rule: mem_rows.induct)
  case (2 rs u p h)
  have "length rs' \<le> length (mem_rows rs' h')" for rs' h' by (induction rs' h' rule: mem_rows.induct) (auto split: if_splits)
  from this [of "rs @ [(u, show_nat (length rs), p)]" h] show ?case
    using 2 by (auto split: if_splits simp: Suc_le_eq intro: less_imp_le)
qed auto

lemma mem_rows_fresh: "(v, show_nat (length (mem_rows [] h)), q) \<notin> set (mem_rows [] h)"
  using mem_rows_ids [of v "show_nat (length (mem_rows [] h))" q "[]" h] by (auto simp: show_nat_inj)

lemma mem_accounts_laws: "accounts_laws (=) mem_accounts (\<lambda>h. set (mem_rows [] h))"
  unfolding accounts_laws_def
proof (intro conjI allI impI)
  show "equivp ((=) :: collation)" by (rule identity_equivp)
next
  fix h u p v i q
  assume "ad_Insert mem_accounts h u p = None"
  then have new: "u \<notin> fst ` set (mem_rows [] h)" by (simp add: mem_accounts_def split: if_splits)
  then show "u = v \<Longrightarrow> (v, i, q) \<notin> set (mem_rows [] h)" by force
  show "\<exists>i. (\<forall>v q. (v, i, q) \<notin> set (mem_rows [] h))
      \<and> set (mem_rows [] (h @ [CallInsertUser u p])) = insert (u, i, p) (set (mem_rows [] h))"
    using new mem_rows_fresh by (intro exI [of _ "show_nat (length (mem_rows [] h))"]) (auto simp: mem_rows_append)
next
  fix h u p
  assume "ad_Insert mem_accounts h u p \<noteq> None"
  then show "set (mem_rows [] (h @ [CallInsertUser u p])) = set (mem_rows [] h)"
    by (simp add: mem_accounts_def mem_rows_append split: if_splits)
next
  fix h c
  assume "\<forall>u p. c \<noteq> CallInsertUser u p"
  then show "set (mem_rows [] (h @ [c])) = set (mem_rows [] h)"
    by (cases c) (auto simp: mem_rows_append)
next
  fix h u i p r
  assume "ad_Select mem_accounts h u = Inr (i, p, r)"
  then show "\<exists>v. u = v \<and> (v, i, p) \<in> set (mem_rows [] h)"
    by (auto simp: mem_accounts_def dest: map_of_SomeD split: option.splits)
qed

definition mem_claims :: Claims where
  "mem_claims = login_claims ''0'' ''user'' 0 0"

definition mem_service :: AuthService where
  "mem_service = \<lparr>as_DB = mem_accounts, as_Bcrypt = plain_bcrypt, as_JWT = one_jwt ''key'' mem_claims, as_JWTSecret = ''key''\<rparr>"

lemma mem_service_laws:
  "bcrypt_laws (as_Bcrypt mem_service)" "accounts_laws (=) (as_DB mem_service) (\<lambda>h. set (mem_rows [] h))"
  "jwt_laws (as_JWT mem_service)"
  by (simp_all add: mem_service_def plain_bcrypt_laws mem_accounts_laws one_jwt_laws)

section \<open>Registration and login\<close>

text \<open>
  Who has registered can log in. After a successful registration, at any later time, the same
  name and password log in when the row can be read and the token can be signed, and the token
  validates as the id of the row until the whole second in which it is 24 hours old.
\<close>

theorem register_then_login:
  assumes "bcrypt_laws (as_Bcrypt svc)" "accounts_laws same (as_DB svc) rows" "jwt_laws (as_JWT svc)"
    and "Register svc salt u pw h = (Inr rr, h1)" "rr_Success rr"
    and "ad_Select (as_DB svc) (h1 @ later) u = Inr (uid, hash, role)"
    and "jl_Sign (as_JWT svc) HS256 (as_JWTSecret svc) (login_claims uid role now1 now2) = Inr tok"
    and "now < NumericDate (now1 + 24 * 3600 * 1000000000) * 1000000000"
  shows "fst (Login svc now1 now2 u pw (h1 @ later)) = Inr \<lparr>lr_Success = True, lr_Token = tok, lr_Message = ''Login successful''\<rparr>
     \<and> Validate svc now tok = Inr \<lparr>tr_Valid = True, tr_UserId = uid\<rparr>"
proof
  obtain hash0 where reg: "2 \<le> length u" "6 \<le> length pw" "length pw \<le> 72" "hashPassword svc salt pw = Inr hash0"
      "ad_Insert (as_DB svc) h u hash0 = None" "h1 = h @ [CallInsertUser u hash0]"
    using Register_success [of svc salt u pw h rr] assms(4,5) by auto
  obtain i where "sole_row same u i hash0 (rows h1)"
    using sole_row_insert [OF assms(2) reg(5)] reg(6) by auto
  then have "hash = hash0"
    using sole_row_select [OF assms(2) sole_row_later [OF assms(2)] _ assms(6)] equivp_reflp [OF accounts_lawsD(6) [OF assms(2)]]
    by blast
  moreover have "bc_Compare (as_Bcrypt svc) hash0 pw"
    using assms(1) reg(3,4) unfolding bcrypt_laws_def hashPassword_def by (metis sum.inject(2))
  ultimately have "checkPassword svc hash pw" by (simp add: checkPassword_def)
  then show "fst (Login svc now1 now2 u pw (h1 @ later)) = Inr \<lparr>lr_Success = True, lr_Token = tok, lr_Message = ''Login successful''\<rparr>"
    using reg(1,2) assms(6,7) by (auto simp: Login_def Let_def)
  have "jl_Parse (as_JWT svc) now (hmac_key (as_JWTSecret svc)) tok = Inr \<lparr>tk_Claims = login_claims uid role now1 now2, tk_Valid = True\<rparr>"
    using assms(3,7,8) unfolding jwt_laws_def by (simp add: hmac_key_def HS256_def login_claims_def tokenTTL_def)
  then show "Validate svc now tok = Inr \<lparr>tr_Valid = True, tr_UserId = uid\<rparr>"
    by (simp add: Validate_def login_claims_def)
qed

theorem register_then_login_witness:
  "fst (Login mem_service 0 0 ''bob'' ''secret'' ([CallInsertUser ''bob'' ''secret''] @ []))
     = Inr \<lparr>lr_Success = True, lr_Token = ''tok'', lr_Message = ''Login successful''\<rparr>
   \<and> Validate mem_service 0 ''tok'' = Inr \<lparr>tr_Valid = True, tr_UserId = ''0''\<rparr>"
proof (rule register_then_login [OF mem_service_laws, where salt = "0" and h = "[]" and role = "''user''"
      and rr = "\<lparr>rr_Success = True, rr_Message = ''Registration successful''\<rparr>" and hash = "''secret''"])
  have zero: "show_nat 0 = ''0''" by (simp add: show_nat.simps digit_char_def char_of_def bit_Suc_0_iff)
  show "ad_Select (as_DB mem_service) ([CallInsertUser ''bob'' ''secret''] @ []) ''bob'' = Inr (''0'', ''secret'', ''user'')"
    by (simp add: mem_service_def mem_accounts_def zero)
qed (simp_all add: mem_service_def Register_def hashPassword_def plain_bcrypt_def
    mem_accounts_def register_reply_def Let_def one_jwt_def mem_claims_def NumericDate_def)



text \<open>
  A registration writes to the database only for a name of 2 to 32 bytes and a password of 6 to
  72 bytes, and what it writes is a hash that matches the password; it reports success exactly when
  that insert succeeded.
\<close>

theorem register_writes_checked_rows:
  assumes "bcrypt_laws (as_Bcrypt svc)" "Register svc salt u pw h = (res, h')"
  shows "(h' = h \<and> (\<forall>r. res \<noteq> Inr \<lparr>rr_Success = True, rr_Message = r\<rparr>))
     \<or> (\<exists>hash. h' = h @ [CallInsertUser u hash] \<and> 2 \<le> length u \<and> length u \<le> 32 \<and> 6 \<le> length pw \<and> length pw \<le> 72
          \<and> bc_Compare (as_Bcrypt svc) hash pw
          \<and> (ad_Insert (as_DB svc) h u hash = None) = (\<exists>r. res = Inr \<lparr>rr_Success = True, rr_Message = r\<rparr>))"
proof (cases "length u < 2 \<or> 32 < length u \<or> length pw < 6 \<or> 72 < length pw")
  case True
  then show ?thesis using assms(2) by (auto simp: Register_def register_reply_def split: if_splits)
next
  case False
  then obtain hash where hash: "hashPassword svc salt pw = Inr hash" "bc_Compare (as_Bcrypt svc) hash pw"
    using assms(1) unfolding bcrypt_laws_def hashPassword_def by (meson not_less)
  then show ?thesis
    using False assms(2)
    by (auto simp: Register_def register_reply_def Let_def split: option.splits sql_error.splits if_splits)
qed

theorem register_writes_checked_rows_witness:
  "\<exists>hash. [CallInsertUser ''bob'' ''secret''] = [] @ [CallInsertUser ''bob'' hash] \<and> bc_Compare plain_bcrypt hash ''secret''"
proof -
  have "Register mem_service 0 ''bob'' ''secret'' [] = (register_reply True ''Registration successful'', [CallInsertUser ''bob'' ''secret''])"
    by (simp add: mem_service_def Register_def hashPassword_def plain_bcrypt_def mem_accounts_def register_reply_def Let_def)
  from register_writes_checked_rows [OF mem_service_laws(1) this] show ?thesis
    by (simp add: mem_service_def)
qed

definition han :: string where
  "han = [CHR 0xE4, CHR 0xB8, CHR 0xAD]"

text \<open>
  The limits on the user name count bytes, not the characters the message and the README speak
  of: a name of eleven three-byte characters is refused as too long, and one of a single such
  character passes the check.
\<close>

theorem name_limit_counts_bytes:
  "valid_utf8 (concat (replicate 11 han))
   \<and> fst (Register svc salt (concat (replicate 11 han)) pw h) = register_reply False ''username must be 2-32 characters''
   \<and> fst (Register mem_service salt han ''secret'' []) = register_reply True ''Registration successful''"
proof (intro conjI)
  have step: "valid_utf8 (han @ s) = valid_utf8 s" for s
    by (simp add: han_def valid_utf8.simps utf8_len2_def utf8_len3_def is_cont_def byte_in_def code_def)
  have "valid_utf8 (concat (replicate n han))" for n by (induction n) (simp_all add: step)
  then show "valid_utf8 (concat (replicate 11 han))" .
  have "length (concat (replicate n han)) = 3 * n" for n by (induction n) (simp_all add: han_def)
  then show "fst (Register svc salt (concat (replicate 11 han)) pw h) = register_reply False ''username must be 2-32 characters''"
    by (simp add: Register_def)
  show "fst (Register mem_service salt han ''secret'' []) = register_reply True ''Registration successful''"
    by (simp add: Register_def mem_service_def hashPassword_def plain_bcrypt_def mem_accounts_def Let_def) (simp add: han_def)
qed

end
