(* ===== verification/AdminProperties.thy ===== *)
theory AdminProperties
  imports RestProperties ChatProperties AuthProperties
begin

text \<open>
  Properties of the ban, of uploads, of the health check and of the login endpoint.
\<close>

section \<open>The ban\<close>

text \<open>
  The \<open>users\<close> table under the ban: after an update of a row to \<open>banned\<close> and until an unban of that
  id, the role read for the id, when it can be read, is \<open>banned\<close>.
\<close>

definition ban_laws :: "UserDB \<Rightarrow> bool" where
  "ban_laws db \<longleftrightarrow>
     (\<forall>h uid n later role. db_Ban db h uid = Inr n \<longrightarrow> n \<noteq> 0 \<longrightarrow> CallUnban uid \<notin> set later
        \<longrightarrow> db_Role db (h @ [CallBan uid] @ later) uid = Inr role \<longrightarrow> role = ''banned'')"


definition ban_db :: UserDB where
  "ban_db = \<lparr>db_Role = (\<lambda>h uid. if CallBan uid \<in> set h \<and> CallUnban uid \<notin> set h then Inr ''banned'' else Inl ''no row''),
     db_Users = (\<lambda>_. Inr []), db_Ban = (\<lambda>_ _. Inr 1), db_Unban = (\<lambda>_ _. Inr 0)\<rparr>"

lemma ban_db_laws: "ban_laws ban_db"
  by (auto simp: ban_laws_def ban_db_def split: if_splits)

text \<open>The body of a ban request, and its evaluation.\<close>

definition ban_body :: bytes where
  "ban_body = marshal (JObj [(''user_id'', JStr ''7'')])"

lemma ban_body_user: "user_id_of ban_body = Some ''7''"
proof -
  have "valid_utf8 ''user_id''" "valid_utf8 ''7''" by (rule valid_utf8_ascii, simp add: code_def)+
  then have wf: "wf_json (JObj [(''user_id'', JStr ''7'')])" by simp
  have "parse_json ban_body = Some (JObj [(''user_id'', JStr ''7'')])"
    unfolding ban_body_def by (rule parse_json_marshal [OF wf]) (simp add: max_depth_def)
  then have "decode_first ban_body = Some (JObj [(''user_id'', JStr ''7'')])"
    by (auto simp: parse_json_def decode_first_def split: option.splits if_splits)
  then show ?thesis
    by (simp add: user_id_of_def decode_body1_def decode_struct1_def decode_key_def decode_string_def)
qed

definition ban_srv :: GatewayServer where
  "ban_srv = auth_srv\<lparr>gs_DB := Some ban_db\<rparr>"

definition ban_request :: http_request where
  "ban_request = (request ''POST'' ''/api/admin/users/ban'')\<lparr>rq_Body := ban_body\<rparr>"

definition after_ban :: exchange where
  "after_ban = state_of (AdminBanUser ban_srv web0 ban_request fresh)"

lemma after_ban: "AdminBanUser ban_srv web0 ban_request fresh = Returns after_ban"
  by (simp add: after_ban_def AdminBanUser_def ban_request_def request_def MethodPost_def ban_body_user ban_srv_def ban_db_def Let_def)


section \<open>Uploads\<close>

lemma show_nat_no: "\<not> is_digit c \<Longrightarrow> c \<notin> set (show_nat n)"
  using show_nat_digits by blast

lemma slash_not_digit: "\<not> is_digit (CHR ''/'')"
  by (simp add: is_digit_def)

lemma show_int_no_slash: "CHR ''/'' \<notin> set (show_int i)"
  using show_nat_no [OF slash_not_digit] by (simp add: show_int_def)

lemma letter_at_letters:
  assumes "letter_at t = Some c"
  shows "c \<in> set letters"
proof -
  let ?n = "int (length letters)"
  have pos: "0 < ?n" by (simp add: letters_def)
  obtain i where i: "\<not> i < 0" "i \<le> t mod ?n \<or> i \<le> - ((- t) mod ?n)" "c = letters ! nat i"
    using assms by (auto simp: letter_at_def Let_def split: if_splits)
  have "t mod ?n < ?n" "0 \<le> (- t) mod ?n" using pos by simp_all
  then have "nat i < length letters" using i(1,2) pos by linarith
  then show ?thesis using i(3) by simp
qed

lemma randomString_letters: "randomString clk i n = Some s \<Longrightarrow> length s = n \<and> set s \<subseteq> set letters"
proof (induction n arbitrary: i s)
  case 0
  then show ?case by simp
next
  case (Suc n)
  then show ?case using letter_at_letters by (fastforce split: option.splits)
qed

lemma allowed_no_slash: "ext \<in> set allowed_exts \<Longrightarrow> CHR ''/'' \<notin> set ext"
  by (auto simp: allowed_exts_def)

text \<open>An answer that refuses the request.\<close>

definition refusal :: "exchange \<Rightarrow> exchange \<Rightarrow> bool" where
  "refusal x y \<longleftrightarrow> (\<exists>s msg. s \<noteq> 200 \<and> y = error_reply s msg x)"

lemma refusalI [simp]: "s \<noteq> 200 \<Longrightarrow> refusal x (error_reply s msg x)"
  by (auto simp: refusal_def)

lemma refusalD:
  assumes "refusal x y" "w_Sent (x_w x) = None"
  shows "x_gw y = x_gw x" "x_files y = x_files x" "w_status (x_w y) \<noteq> Some 200"
  using assms error_reply_status [OF assms(2)] by (auto simp: refusal_def)

text \<open>
  C34: an upload writes at most one file, whatever the name the client gives: under \<open>uploads/\<close>, with
  a name without a slash that ends in one of the allowed extensions, and with the uploaded bytes or,
  when the copy fails, a beginning of them. No other file changes, the shared state does not change,
  and an answer of 200 means that the file is there in full.
\<close>

theorem upload_is_confined:
  assumes "Upload e r x = Returns y" "w_Sent (x_w x) = None"
  shows "x_gw y = x_gw x \<and>
     (x_files y = x_files x \<and> w_status (x_w y) \<noteq> Some 200
      \<or> (\<exists>parts f name stem ext n. rq_Multipart r maxUploadSize = Some parts \<and> parts ''file'' = Some f
          \<and> x_files y = (x_files x)(''uploads/'' @ name \<mapsto> take n (up_Content f))
          \<and> name = stem @ ext \<and> ext \<in> set allowed_exts \<and> CHR ''/'' \<notin> set name
          \<and> (w_status (x_w y) \<noteq> Some 200 \<or> take n (up_Content f) = up_Content f)))"
proof -
  have err: "w_status (x_w (error_reply s msg z)) = Some s" if "w_Sent (x_w z) = None" for s msg z
    using that by (rule error_reply_status)
  show ?thesis
  proof (cases "\<exists>parts f rnd. rq_Method r = MethodPost \<and> rq_Multipart r maxUploadSize = Some parts \<and> parts ''file'' = Some f
      \<and> ToLower (Ext (up_Filename f)) \<in> set allowed_exts \<and> we_mkdir e = None \<and> randomString (we_clk e) 2 8 = Some rnd \<and> we_create e = None")
    case False
    then have "refusal x y"
      using assms(1) by (auto simp: Upload_def Let_def split: option.splits if_splits)
    then show ?thesis using refusalD assms(2) by auto
  next
    case True
    then obtain parts f rnd where c: "rq_Method r = MethodPost" "rq_Multipart r maxUploadSize = Some parts" "parts ''file'' = Some f"
      "ToLower (Ext (up_Filename f)) \<in> set allowed_exts" "we_mkdir e = None" "randomString (we_clk e) 2 8 = Some rnd" "we_create e = None"
      by blast
    let ?ext = "ToLower (Ext (up_Filename f))" and ?stem = "show_int (we_clk e 1) @ ''_'' @ rnd"
    have "CHR ''/'' \<notin> set letters" by (simp add: letters_def)
    then have slash: "CHR ''/'' \<notin> set (?stem @ ?ext)"
      using show_int_no_slash allowed_no_slash [OF c(4)] randomString_letters [OF c(6)] by auto
    have files: "x_files (put_file p b z) = (x_files z)(p \<mapsto> b)" "x_gw (put_file p b z) = x_gw z" "x_w (put_file p b z) = x_w z" for p b z
      by (simp_all add: put_file_def)
    obtain n where y: "x_gw y = x_gw x" "x_files y = (x_files x)(''uploads/'' @ (?stem @ ?ext) \<mapsto> take n (up_Content f))"
      "w_status (x_w y) \<noteq> Some 200 \<or> take n (up_Content f) = up_Content f"
    proof (cases "we_copied e")
      case None
      then show ?thesis
        using assms(1) c that [of "length (up_Content f)"] by (auto simp: Upload_def Let_def files dst_path_def)
    next
      case (Some n)
      then show ?thesis
        using assms c that [of n] err [of "put_file q b x" for q b]
        by (auto simp: Upload_def Let_def files dst_path_def)
    qed
    then show ?thesis using c slash by blast
  qed
qed

definition upload_request :: http_request where
  "upload_request = (request ''POST'' ''/api/upload'')\<lparr>rq_Multipart := (\<lambda>_. Some [''file'' \<mapsto>
     \<lparr>up_Filename = ''../x.png'', up_Size = 1, up_Content = ''y''\<rparr>])\<rparr>"

definition uploaded :: exchange where
  "uploaded = state_of (Upload web0 upload_request fresh)"

lemma uploaded: "Upload web0 upload_request fresh = Returns uploaded"
proof -
  have "randomString (we_clk web0) i n \<noteq> None" for i n
    by (induction n arbitrary: i) (auto simp: web0_def letter_at_def Let_def split: option.split)
  then obtain rnd where "randomString (we_clk web0) 2 8 = Some rnd" by blast
  then show ?thesis
    by (auto simp: uploaded_def Upload_def upload_request_def request_def MethodPost_def web0_def Let_def split: if_split)
qed

theorem upload_is_confined_witness:
  "x_gw uploaded = x_gw fresh \<and>
     (x_files uploaded = x_files fresh \<and> w_status (x_w uploaded) \<noteq> Some 200
      \<or> (\<exists>parts f name stem ext n. rq_Multipart upload_request maxUploadSize = Some parts \<and> parts ''file'' = Some f
          \<and> x_files uploaded = (x_files fresh)(''uploads/'' @ name \<mapsto> take n (up_Content f))
          \<and> name = stem @ ext \<and> ext \<in> set allowed_exts \<and> CHR ''/'' \<notin> set name
          \<and> (w_status (x_w uploaded) \<noteq> Some 200 \<or> take n (up_Content f) = up_Content f)))"
  by (rule upload_is_confined [OF uploaded]) (simp add: fresh_def new_writer_def)

section \<open>Health and login\<close>

text \<open>
  The health check answers 503 exactly when a configured MongoDB or Redis does not answer its
  ping, and 200 otherwise; a dependency that is switched off, and the auth service, never make it fail.
\<close>

theorem health_fails_exactly:
  assumes "w_Sent (x_w x) = None"
  shows "\<exists>y. Health srv e r x = Returns y \<and> w_status (x_w y) = Some
     (if (\<exists>ms err. gs_Mongo srv = Some ms \<and> mc_Ping ms (gw_trace (x_gw x)) = Some err)
       \<or> (\<exists>rd err. gs_Redis srv = Some rd
            \<and> rd_Ping rd (gw_trace (x_gw x) @ (if gs_Mongo srv = None then [] else [CallMongoPing])) = Some err)
      then 503 else 200)"
proof -
  have probe: "probe q = ''disconnected'' \<longleftrightarrow> (\<exists>err. q = Some (Some err))" for q
    by (auto simp: probe_def split: option.split)
  show ?thesis
    using assms
    by (cases "gs_Mongo srv"; cases "gs_Redis srv")
      (simp_all add: Health_def Let_def probe jsonResponse_fresh log_x_def log_call_def)
qed

definition store_down :: GatewayServer where
  "store_down = dev_srv\<lparr>gs_Mongo := Some
     \<lparr>mc_InsertOne = (\<lambda>_ _. None), mc_Find = (\<lambda>_ _ _. Inl []), mc_UpdateMany = (\<lambda>_ _. None), mc_Ping = (\<lambda>_. Some ''down'')\<rparr>\<rparr>"

theorem health_fails_exactly_witness:
  "\<exists>y. Health store_down web0 (request ''GET'' ''/health'') fresh = Returns y \<and> w_status (x_w y) = Some
     (if (\<exists>ms err. gs_Mongo store_down = Some ms \<and> mc_Ping ms (gw_trace (x_gw fresh)) = Some err)
       \<or> (\<exists>rd err. gs_Redis store_down = Some rd
            \<and> rd_Ping rd (gw_trace (x_gw fresh) @ (if gs_Mongo store_down = None then [] else [CallMongoPing])) = Some err)
      then 503 else 200)"
  by (rule health_fails_exactly) (simp add: fresh_def new_writer_def)

text \<open>
  A login request calls the auth service at most once, and only for a \<open>POST\<close> whose body has a
  user name and a password that are not empty. Without a call the answer is 405, 400 or 503; with one
  it is 500 when the call failed and else 200 with the service's verdict, message and token.
\<close>

theorem login_request_outcomes:
  assumes "rest_Login h e r x = Returns y" "w_Sent (x_w x) = None"
  shows "(gw_trace (x_gw y) = gw_trace (x_gw x) \<and> w_status (x_w y) \<in> {Some 405, Some 400, Some 503})
     \<or> (\<exists>u p ac. rq_Method r = MethodPost \<and> decode_body2 ''username'' ''password'' (rq_Body r) = Some (u, p) \<and> u \<noteq> [] \<and> p \<noteq> []
          \<and> rh_AuthClient h = Some ac \<and> gw_trace (x_gw y) = gw_trace (x_gw x) @ [CallLogin u p]
          \<and> (case ac_Login ac (gw_trace (x_gw x)) u p of
                Inl err \<Rightarrow> w_status (x_w y) = Some 500
              | Inr resp \<Rightarrow> w_status (x_w y) = Some 200
                  \<and> w_Body (x_w y) = w_Body (x_w x) @ marshal (json_map [(''ok'', JBool (lr_Success resp)),
                      (''msg'', JStr (lr_Message resp)), (''token'', JStr (lr_Token resp))]) @ [CHR 0x0A]))"
proof (cases "rq_Method r = MethodPost")
  case False
  then show ?thesis using assms error_reply_status [OF assms(2)] by (auto simp: rest_Login_def)
next
  case post: True
  show ?thesis
  proof (cases "credentials (rq_Body r)")
    case None
    then show ?thesis using post assms error_reply_status [OF assms(2)] by (auto simp: rest_Login_def)
  next
    case (Some up)
    obtain u p where up: "credentials (rq_Body r) = Some (u, p)" using Some by (cases up) simp
    then have creds: "decode_body2 ''username'' ''password'' (rq_Body r) = Some (u, p)" "u \<noteq> []" "p \<noteq> []"
      by (auto simp: credentials_def split: option.splits if_splits)
    show ?thesis
    proof (cases "rh_AuthClient h")
      case None
      then show ?thesis using post up assms error_reply_status [OF assms(2)] by (auto simp: rest_Login_def)
    next
      case (Some ac)
      have fresh: "w_Sent (x_w (log_x c x)) = None" "w_Body (x_w (log_x c x)) = w_Body (x_w x)"
        "gw_trace (x_gw (log_x c x)) = gw_trace (x_gw x) @ [c]" for c
        using assms(2) by (simp_all add: log_x_def log_call_def)
      show ?thesis
        using post up creds Some assms(1) fresh error_reply_status [OF fresh(1)] jsonResponse_fresh [OF fresh(1)]
        by (cases "ac_Login ac (gw_trace (x_gw x)) u p") (auto simp: rest_Login_def Let_def)
    qed
  qed
qed

end
