(* ===== verification/DeploymentProperties.thy ===== *)
theory DeploymentProperties
  imports AuthRpc AdminProperties
begin

text \<open>
  Properties that span the processes: from a login over REST to an authenticated WebSocket, and what
  the start-up code makes of a missing service, variable or secret.
\<close>

section \<open>From login to chat\<close>

text \<open>
  A token from \<open>Login\<close> opens the chat as the user it was issued to. When the auth service has
  returned a token, a WebSocket \<open>auth\<close> message with that token, sent before the token expires, over a
  working transport, as one of the first three attempts of a connection and for a user who is not
  known to be banned, authenticates the connection under the id of the account.
\<close>

theorem login_token_opens_chat:
  assumes "jwt_laws (as_JWT svc)" "Login svc now1 now2 u pw ah = (Inr resp, ah')" "lr_Success resp"
    and "gs_AuthClient srv = Some (NewAuthServiceClient net svc salt db)" "tr_Fails net (gw_trace s) = None"
    and "tr_Now net (gw_trace s) < NumericDate (now1 + tokenTTL) * 1000000000"
    and "unmarshal_WSMsg data = Some m" "m_Type m = ''auth''" "m_Token m = lr_Token resp" "authAttempts l < 3"
    and "ad_Select (as_DB svc) ah u = Inr (uid, hash, role)"
    and "\<not> is_banned srv uid (log_call (CallValidate (lr_Token resp)) s)"
  shows "identity (fst (state_of (handle_frame srv c e data (s, l)))) (snd (state_of (handle_frame srv c e data (s, l)))) = Some uid"
proof -
  let ?ac = "NewAuthServiceClient net svc salt db"
  have "jl_Sign (as_JWT svc) HS256 (as_JWTSecret svc) (login_claims uid role now1 now2) = Inr (lr_Token resp)"
    using Login_success [OF assms(2,3)] assms(11) by auto
  then have "jl_Parse (as_JWT svc) (tr_Now net (gw_trace s)) (hmac_key (as_JWTSecret svc)) (lr_Token resp)
      = Inr \<lparr>tk_Claims = login_claims uid role now1 now2, tk_Valid = True\<rparr>"
    using assms(1,6) unfolding jwt_laws_def by (simp add: hmac_key_def HS256_def login_claims_def)
  then have "Validate svc (tr_Now net (gw_trace s)) (lr_Token resp) = Inr \<lparr>tr_Valid = True, tr_UserId = uid\<rparr>"
    by (simp add: Validate_def login_claims_def)
  then have "ac_Validate ?ac (gw_trace s) (m_Token m) = Inr (Some \<lparr>tr_Valid = True, tr_UserId = uid\<rparr>)"
    using assms(5,9) by (simp add: validate_rpc)
  then have "admitted srv ?ac (m_Token m) s l = Some uid"
    using assms(9,10,12) by (simp add: admitted_def)
  then show ?thesis
    using handle_auth_admitted [OF assms(4), where m = m and s = s and l = l and c = c and e = e] assms(7,8) by (simp add: handle_frame_def dispatch_def)
qed

definition good_net :: transport where
  "good_net = \<lparr>tr_Fails = (\<lambda>_. None), tr_Now = (\<lambda>_. 0)\<rparr>"

lemma good_net_simps [simp]: "tr_Fails good_net h = None" "tr_Now good_net h = 0"
  unfolding good_net_def by simp_all

definition rpc_srv :: GatewayServer where
  "rpc_srv = dev_srv\<lparr>gs_AuthClient := Some (NewAuthServiceClient good_net mem_service (\<lambda>_. 0) (\<lambda>_. []))\<rparr>"

definition bob_rows :: auth_trace where
  "bob_rows = [CallInsertUser ''bob'' ''secret'']"

lemma bob_login:
  "Login mem_service 0 0 ''bob'' ''secret'' bob_rows =
     (Inr \<lparr>lr_Success = True, lr_Token = ''tok'', lr_Message = ''Login successful''\<rparr>,
      snd (Login mem_service 0 0 ''bob'' ''secret'' bob_rows))"
  and bob_select: "ad_Select (as_DB mem_service) bob_rows ''bob'' = Inr (''0'', ''secret'', ''user'')"
proof -
  have zero: "show_nat 0 = ''0''" by (simp add: show_nat.simps digit_char_def char_of_def bit_Suc_0_iff)
  show sel: "ad_Select (as_DB mem_service) bob_rows ''bob'' = Inr (''0'', ''secret'', ''user'')"
    by (simp add: mem_service_def mem_accounts_def bob_rows_def zero)
  show "Login mem_service 0 0 ''bob'' ''secret'' bob_rows =
     (Inr \<lparr>lr_Success = True, lr_Token = ''tok'', lr_Message = ''Login successful''\<rparr>,
      snd (Login mem_service 0 0 ''bob'' ''secret'' bob_rows))"
    using sel by (simp add: Login_def Let_def) (simp add: mem_service_def checkPassword_def plain_bcrypt_def one_jwt_def mem_claims_def)
qed

lemma ascii_tok [simp]: "valid_utf8 ''tok''"
  by (rule valid_utf8_ascii) (simp add: code_def)

theorem login_token_opens_chat_witness:
  "identity (fst (state_of (handle_frame rpc_srv 0 env0 (frame (auth_msg ''tok'')) (empty_gw, init_local))))
     (snd (state_of (handle_frame rpc_srv 0 env0 (frame (auth_msg ''tok'')) (empty_gw, init_local)))) = Some ''0''"
  by (rule login_token_opens_chat [where net = good_net, OF mem_service_laws(3) bob_login _ _ _ _ unmarshal_auth _ _ _ bob_select])
    (simp_all add: rpc_srv_def dev_srv_def auth_msg_def init_local_def is_banned_def NumericDate_def tokenTTL_def)

section \<open>Start-up\<close>

lemma gateway_main_auth:
  "gs_AuthClient (gp_Server (gateway_main w path)) =
     connect_auth w (o_Viper w (loadConfig path (o_ReadFile w)) (o_Getenv w) ''authsvc.addr'')"
  by (simp add: gateway_main_def NewGatewayServer_def Let_def)

text \<open>
  A gateway that cannot reach the auth service at start-up trusts every client. It then runs in
  the development mode: an \<open>auth\<close> message with any non-empty token authenticates the connection under
  the token itself as user ID, without any further check, the ban included.
\<close>

theorem unreachable_auth_service_opens_gateway:
  assumes "\<And>addr. isl (o_Dial w addr)" "unmarshal_WSMsg data = Some m" "m_Type m = ''auth''" "m_Token m \<noteq> []"
  shows "identity (fst (state_of (handle_frame (gp_Server (gateway_main w path)) c e data (s, l))))
     (snd (state_of (handle_frame (gp_Server (gateway_main w path)) c e data (s, l)))) = Some (m_Token m)"
proof -
  let ?srv = "gp_Server (gateway_main w path)"
  have "gs_AuthClient ?srv = None"
    using assms(1) [of "o_Viper w (loadConfig path (o_ReadFile w)) (o_Getenv w) ''authsvc.addr''"]
    by (cases "o_Dial w (o_Viper w (loadConfig path (o_ReadFile w)) (o_Getenv w) ''authsvc.addr'')")
      (simp_all add: gateway_main_auth connect_auth_def ok_opt_def)
  then have "handle_frame ?srv c e data (s, l) = finish_auth ?srv c e (m_Token m) day_ns (s, l)"
    using assms(2-4) by (simp add: handle_frame_def dispatch_def handle_auth_def)
  then show ?thesis by (simp add: finish_auth_identity)
qed

text \<open>A look-up that follows the documentation of \<open>viper\<close>.\<close>

definition plain_viper :: viper where
  "plain_viper s env key =
     (if vs_AutomaticEnv s \<and> env (env_name s key) \<noteq> [] then env (env_name s key)
      else case (case vs_File s of None \<Rightarrow> None | Some f \<Rightarrow> f key) of
          Some v \<Rightarrow> v
        | None \<Rightarrow> (case map_of (vs_Defaults s) key of Some v \<Rightarrow> v | None \<Rightarrow> []))"

lemma plain_viper_laws: "viper_laws plain_viper"
  by (simp add: viper_laws_def plain_viper_def)

definition bare_world :: outside where
  "bare_world = \<lparr>o_Getenv = (\<lambda>_. []), o_Viper = plain_viper, o_ReadFile = (\<lambda>_. None), o_Dial = (\<lambda>_. Inl ''refused''),
     o_SqlOpen = (\<lambda>_. Inl []), o_SqlPing = (\<lambda>_. None), o_MongoConnect = (\<lambda>_. Inl []),
     o_RedisClient = (\<lambda>_. \<lparr>rd_Ping = (\<lambda>_. Some []), rd_RatePipe = (\<lambda>_ _ _ _ _. Inl [])\<rparr>)\<rparr>"

theorem unreachable_auth_service_opens_gateway_witness:
  "identity (fst (state_of (handle_frame (gp_Server (gateway_main bare_world [])) 0 env0 (frame (auth_msg ''a'')) (empty_gw, init_local))))
     (snd (state_of (handle_frame (gp_Server (gateway_main bare_world [])) 0 env0 (frame (auth_msg ''a'')) (empty_gw, init_local))))
   = Some (m_Token (auth_msg ''a''))"
  by (rule unreachable_auth_service_opens_gateway [OF _ unmarshal_auth]) (simp_all add: bare_world_def auth_msg_def)

lemma upper_authsvc: "upper ''GOCHATX_authsvc.addr'' = ''GOCHATX_AUTHSVC.ADDR''"
  by (simp add: upper_def upper_byte_def code_def char_of_upper char_of_def bit_Suc_0_iff)

text \<open>
  The variable documented for the address of the auth service has no effect. \<open>viper\<close> joins the
  prefix and the key without replacing the dot, so the gateway asks for \<open>GOCHATX_AUTHSVC.ADDR\<close>:
  whatever \<open>GOCHATX_AUTHSVC_ADDR\<close> is set to, with the other variables as they are, the gateway dials
  the same address.
\<close>

theorem documented_variable_has_no_effect:
  assumes "viper_laws (o_Viper w)"
  shows "gs_AuthClient (gp_Server (gateway_main (w\<lparr>o_Getenv := (o_Getenv w)(''GOCHATX_AUTHSVC_ADDR'' := v)\<rparr>) path))
       = gs_AuthClient (gp_Server (gateway_main w path))"
proof -
  let ?cfg = "loadConfig path (o_ReadFile w)"
  have "env_name ?cfg ''authsvc.addr'' = ''GOCHATX_AUTHSVC.ADDR''"
    using upper_authsvc by (simp add: env_name_def loadConfig_def)
  then have "o_Viper w ?cfg ((o_Getenv w)(''GOCHATX_AUTHSVC_ADDR'' := v)) ''authsvc.addr'' = o_Viper w ?cfg (o_Getenv w) ''authsvc.addr''"
    using assms unfolding viper_laws_def by simp
  then show ?thesis unfolding gateway_main_auth by (simp add: connect_auth_def)
qed

theorem documented_variable_has_no_effect_witness:
  "gs_AuthClient (gp_Server (gateway_main (bare_world\<lparr>o_Getenv := (o_Getenv bare_world)(''GOCHATX_AUTHSVC_ADDR'' := ''authsvc:50051'')\<rparr>) []))
     = gs_AuthClient (gp_Server (gateway_main bare_world []))"
  by (rule documented_variable_has_no_effect) (simp add: bare_world_def plain_viper_laws)


definition forged_claims :: Claims where
  "forged_claims = login_claims ''1'' ''admin'' 0 0"

definition forged_request :: http_request where
  "forged_request = (request ''GET'' ''/api/admin/stats'')\<lparr>rq_Header := (\<lambda>_. bearer @ ''tok'')\<rparr>"


text \<open>
  The auth service never runs without its database and secret: it comes up exactly when both
  variables are set, the database opens, answers and takes the migration, Redis answers and the port
  is free; it then signs with the secret of the environment.
\<close>

theorem authsvc_starts_only_complete:
  "(\<exists>addr svc. authsvc_main w = Up (addr, svc) \<and> as_JWTSecret svc = ao_Getenv w ''JWT_SECRET'') \<longleftrightarrow>
     ao_Getenv w ''DB_DSN'' \<noteq> [] \<and> ao_Getenv w ''JWT_SECRET'' \<noteq> []
   \<and> \<not> isl (ao_SqlOpen w (ao_Getenv w ''DB_DSN'')) \<and> ao_SqlPing w (ao_Getenv w ''DB_DSN'') = None
   \<and> ao_CreateTable w (ao_Getenv w ''DB_DSN'') = None
   \<and> ao_RedisPing w (getEnvOrDefault (ao_Getenv w) ''REDIS_ADDR'' ''127.0.0.1:6379'') = None
   \<and> ao_Listen w (getEnvOrDefault (ao_Getenv w) ''LISTEN_ADDR'' '':50051'') = None"
  unfolding authsvc_main_def Let_def
  by (cases "ao_SqlOpen w (ao_Getenv w ''DB_DSN'')") (simp_all add: initDB_def initRedis_def)

end
