(* ===== verification/RestFrame.thy ===== *)
theory RestFrame
  imports RestProperties
begin

text \<open>
  What no HTTP request can do to the connections: a relation between states that every call of a REST
  handler to a service respects holds between the states before and after any request, and with the
  closing of sockets also for the ban endpoint. The handlers and the middlewares are gone through once
  (\<open>rest_relation\<close>); the instances are the tables, the channels with the pending saves, the calls made
  and the sockets.
\<close>

section \<open>The interface\<close>

text \<open>The calls of the REST handlers: none of them is one of a connection's handler.\<close>

fun rest_call :: "call \<Rightarrow> bool" where
  "rest_call (CallRegister u p) = True"
| "rest_call (CallLogin u p) = True"
| "rest_call (CallRatePipe k ws now w) = True"
| "rest_call CallRedisPing = True"
| "rest_call CallMongoPing = True"
| "rest_call CallSelectUsers = True"
| "rest_call (CallBan u) = True"
| "rest_call (CallUnban u) = True"
| "rest_call _ = False"

definition keeps :: "(gw_state \<Rightarrow> gw_state \<Rightarrow> bool) \<Rightarrow> handler \<Rightarrow> bool" where
  "keeps R h \<longleftrightarrow> (\<forall>e r x. R (x_gw x) (x_gw (state_of (h e r x))))"

lemma keepsI: "(\<And>e r x. R (x_gw x) (x_gw (state_of (h e r x)))) \<Longrightarrow> keeps R h"
  by (simp add: keeps_def)

lemma keepsD: "keeps R h \<Longrightarrow> R (x_gw x) (x_gw (state_of (h e r x)))"
  by (simp add: keeps_def)

locale rest_relation =
  fixes R :: "gw_state \<Rightarrow> gw_state \<Rightarrow> bool"
  assumes refl: "R s s"
    and trans: "R s t \<Longrightarrow> R t u \<Longrightarrow> R s u"
    and call: "rest_call k \<Longrightarrow> R s (s\<lparr>gw_trace := gw_trace s @ [k]\<rparr>)"
begin

lemma logged: "rest_call k \<Longrightarrow> R (x_gw x) (x_gw (log_x k x))"
  by (simp add: log_x_def log_call_def call)

lemmas stays = refl logged

lemma registers: "keeps R (rest_Register h)"
  by (rule keepsI) (auto simp: rest_Register_def Let_def stays split: option.split sum.split)

lemma logs_in: "keeps R (rest_Login h)"
  by (rule keepsI) (auto simp: rest_Login_def Let_def stays split: option.split sum.split)

lemma lists_online: "keeps R OnlineUsers"
  by (rule keepsI) (simp add: OnlineUsers_def refl)

lemma reports_health: "keeps R (Health srv)"
  by (rule keepsI) (auto simp: Health_def Let_def intro: stays trans [OF logged logged])

lemma counts: "keeps R AdminStats"
  by (rule keepsI) (simp add: AdminStats_def Let_def refl)

lemma lists_users: "keeps R (AdminUsers srv)"
  by (rule keepsI) (auto simp: AdminUsers_def Let_def stays split: option.split sum.split)

lemma unbans: "keeps R (AdminUnbanUser srv)"
  by (rule keepsI) (auto simp: AdminUnbanUser_def Let_def stays split: option.split sum.split)

lemma uploads: "keeps R Upload"
  by (rule keepsI) (auto simp: Upload_def Let_def refl put_file_def split: option.split)

lemma limits: "keeps R next \<Longrightarrow> keeps R (Limit rl key m w next)"
proof (rule keepsI)
  fix e r x
  assume kept: "keeps R next"
  have "R (x_gw x) (x_gw (with_trace (snd (limit_decision rd k m w t (gw_trace (x_gw x)))) x))" for rd k t
    by (simp add: limit_decision_def with_trace_def Let_def call split: sum.split)
  from trans [OF this keepsD [OF kept]] this keepsD [OF kept]
  show "R (x_gw x) (x_gw (state_of (Limit rl key m w next e r x)))"
    by (simp add: Limit_def Let_def case_prod_unfold split: option.split)
qed

lemma admits_admin: "keeps R next \<Longrightarrow> keeps R (AdminMiddleware j secret next)"
  by (rule keepsI) (auto simp: AdminMiddleware_def Let_def refl keepsD split: sum.split)

lemma admits_user: "keeps R next \<Longrightarrow> keeps R (AuthMiddleware j secret next)"
  by (rule keepsI) (auto simp: AuthMiddleware_def Let_def refl keepsD split: sum.split)

lemma refused:
  assumes "\<not> is_admin (token_claims j secret e r)"
  shows "R (x_gw x) (x_gw (state_of (AdminMiddleware j secret next e r x)))"
  using AdminMiddleware_refuses [OF assms, of "next" x] refl by auto

lemmas endpoints = registers logs_in lists_online reports_health counts lists_users unbans uploads
  limits admits_admin admits_user

text \<open>Every route but the ban, and the ban when it is refused.\<close>

lemma routed:
  assumes "\<And>y. rq_Path r = ''/ws'' \<Longrightarrow> R (x_gw y) (x_gw (state_of (ws e r y)))" "keeps R files"
    and "rq_Path r = ''/api/admin/users/ban'' \<Longrightarrow> \<not> is_admin (token_claims j (gp_Secret p) e r) \<or> keeps R (AdminBanUser (gp_Server p))"
  shows "R (x_gw x) (x_gw (state_of (mux j ws files p e r x)))"
proof (cases "rq_Path r = ''/api/admin/users/ban''")
  case True
  then have "mux j ws files p e r x = AdminMiddleware j (gp_Secret p) (AdminBanUser (gp_Server p)) e r x"
    by (simp add: mux_def Let_def)
  then show ?thesis using assms(3) [OF True] refused keepsD [OF admits_admin] by metis
next
  case False
  then show ?thesis
    unfolding mux_def Let_def by (simp add: assms(1) keepsD [OF assms(2)] keepsD endpoints)
qed

lemma served:
  assumes "\<And>y. rq_Path r = ''/ws'' \<Longrightarrow> rq_Method r \<noteq> MethodOptions \<Longrightarrow> R (x_gw y) (x_gw (state_of (ws e r y)))" "keeps R files"
    and "rq_Path r = ''/api/admin/users/ban'' \<Longrightarrow> \<not> is_admin (token_claims j (gp_Secret p) e r) \<or> keeps R (AdminBanUser (gp_Server p))"
  shows "R (x_gw x) (x_gw (state_of (serve j ws files p e r x)))"
proof -
  obtain w where "serve j ws files p e r x =
     (if rq_Method r = MethodOptions then Returns (x\<lparr>x_w := WriteHeader 204 w\<rparr>) else mux j ws files p e r (x\<lparr>x_w := w\<rparr>))"
    unfolding serve_def using cors_frame by blast
  moreover have "R (x_gw x) (x_gw (state_of (mux j ws files p e r (x\<lparr>x_w := w\<rparr>))))" if "rq_Method r \<noteq> MethodOptions"
    using routed [where r = r and ws = ws and e = e and files = files and p = p and j = j and x = "x\<lparr>x_w := w\<rparr>"] assms that by simp
  ultimately show ?thesis by (simp add: refl)
qed

end

text \<open>With the disconnects of the ban endpoint.\<close>

locale rest_ban_relation = rest_relation +
  assumes disconnects: "R s (disconnectUser uid s)"
begin

lemma bans: "keeps R (AdminBanUser srv)"
proof (rule keepsI)
  fix e r x
  have "R (x_gw x) (disconnectUser uid (x_gw (log_x (CallBan uid) x)))" for uid
    by (rule trans [OF logged disconnects]) simp
  then show "R (x_gw x) (x_gw (state_of (AdminBanUser srv e r x)))"
    by (auto simp: AdminBanUser_def Let_def stays split: option.split sum.split)
qed

lemma any_request: "keeps R ws \<Longrightarrow> keeps R files \<Longrightarrow> keeps R (serve j ws files p)"
  by (rule keepsI) (rule served, auto intro: bans keepsD)

end

section \<open>The instances\<close>

text \<open>The tables with their clients, rooms and closed channels.\<close>

interpretation rest_tables: rest_ban_relation same_tables
proof unfold_locales
  show "same_tables s u" if "same_tables s t" "same_tables t u" for s t u using that by (rule same_tables_trans)
  show "same_tables s (s\<lparr>gw_trace := gw_trace s @ [k]\<rparr>)" for s k by (simp add: same_tables_def)
qed (simp_all add: same_tables_disconnect)

text \<open>The channels with their contents, the pending saves, and the calls made.\<close>

definition only_calls :: "gw_state \<Rightarrow> gw_state \<Rightarrow> bool" where
  "only_calls s t \<longleftrightarrow> chanH t = chanH s \<and> saves t = saves s \<and> clientH t = clientH s
     \<and> (\<exists>ks. gw_trace t = gw_trace s @ ks \<and> list_all rest_call ks)"

lemma only_calls_trans: "only_calls s t \<Longrightarrow> only_calls t u \<Longrightarrow> only_calls s u"
  by (auto simp: only_calls_def)

interpretation rest_calls: rest_ban_relation only_calls
proof unfold_locales
  show "only_calls s (disconnectUser uid s)" for s uid
    by (auto simp: only_calls_def disconnectUser_def close_conn_def split: option.split)
  show "only_calls s u" if "only_calls s t" "only_calls t u" for s t u using that by (rule only_calls_trans)
qed (simp_all add: only_calls_def)

text \<open>The sockets.\<close>

definition same_sockets :: "gw_state \<Rightarrow> gw_state \<Rightarrow> bool" where
  "same_sockets s t \<longleftrightarrow> wsClosed t = wsClosed s"

interpretation rest_sockets: rest_relation same_sockets
  by unfold_locales (simp_all add: same_sockets_def)

section \<open>No request panics\<close>

definition calm :: "handler \<Rightarrow> bool" where
  "calm h \<longleftrightarrow> (\<forall>e r x. (\<forall>n. 0 \<le> we_clk e n) \<longrightarrow> returns (h e r x))"

lemma calmI: "(\<And>e r x. \<forall>n. 0 \<le> we_clk e n \<Longrightarrow> returns (h e r x)) \<Longrightarrow> calm h"
  by (simp add: calm_def)

lemma calmD: "calm h \<Longrightarrow> \<forall>n. 0 \<le> we_clk e n \<Longrightarrow> returns (h e r x)"
  by (simp add: calm_def)

lemma randomString_returns: "\<forall>n. 0 \<le> clk n \<Longrightarrow> randomString clk i n \<noteq> None"
proof (induction n arbitrary: i)
  case (Suc n)
  have "0 \<le> clk i" using Suc.prems by blast
  then have "letter_at (clk i) \<noteq> None" by (simp add: letter_at_def Let_def letters_def)
  then show ?case using Suc.IH [OF Suc.prems, of "Suc i"] by (auto split: option.split)
qed simp

lemma calm_endpoints:
  "calm (rest_Register h)" "calm (rest_Login h)" "calm OnlineUsers" "calm (Health srv)" "calm AdminStats"
  "calm (AdminUsers srv)" "calm (AdminBanUser srv)" "calm (AdminUnbanUser srv)"
  by (rule calmI; auto simp: rest_Register_def rest_Login_def OnlineUsers_def Health_def AdminStats_def AdminUsers_def
      AdminBanUser_def AdminUnbanUser_def Let_def split: option.split sum.split)+

lemma calm_Upload: "calm Upload"
proof (rule calmI)
  fix e :: web_env and r x
  assume "\<forall>n. 0 \<le> we_clk e n"
  then obtain rnd where "randomString (we_clk e) 2 8 = Some rnd" using randomString_returns by blast
  then show "returns (Upload e r x)" by (simp add: Upload_def Let_def split: option.split)
qed

lemma calm_middlewares:
  assumes "calm h"
  shows "calm (Limit rl key m w h)" "calm (AdminMiddleware j secret h)" "calm (AuthMiddleware j secret h)"
    "calm (CORSMiddleware o' h)"
  using calmD [OF assms]
  by (auto intro!: calmI simp: Limit_def AdminMiddleware_def AuthMiddleware_def CORSMiddleware_def Let_def
      split: option.split sum.split prod.split)

lemma calm_serve: "calm ws \<Longrightarrow> calm files \<Longrightarrow> calm (serve j ws files p)"
  unfolding serve_def
  by (rule calm_middlewares, rule calmI)
    (simp add: mux_def Let_def calmD calm_endpoints calm_Upload calm_middlewares)

end
