(* ===== verification/Serving.thy ===== *)
theory Serving
  imports Conservation DeploymentProperties RestFrame
begin

text \<open>
  The rest of the two \<open>main\<close> functions: the server loop, the signals, the shutdown and the deferred
  closes; and the way of an HTTP request into \<open>HandleWS\<close>.
\<close>

section \<open>The upgrade of a request\<close>

text \<open>\<open>http.Error\<close>: the headers, the status and the text with a newline.\<close>

definition http_error :: "string \<Rightarrow> int \<Rightarrow> writer \<Rightarrow> writer" where
  "http_error msg status w =
     WriteBody (msg @ [CHR 0x0A])
       (WriteHeader status (SetHeader ''X-Content-Type-Options'' ''nosniff''
         (SetHeader ''Content-Type'' ''text/plain; charset=utf-8'' w)))"

text \<open>
  \<open>Upgrade\<close> of \<open>gorilla/websocket\<close> is a parameter: given the origin check and a request it refuses with
  a status and a text, or succeeds. When it refuses, it has replied to the client itself.
\<close>

type_synonym upgrader = "(http_request \<Rightarrow> bool) \<Rightarrow> http_request \<Rightarrow> (int \<times> string) option"

definition CheckOrigin :: "http_request \<Rightarrow> bool" where
  "CheckOrigin r = True"

text \<open>\<open>HandleWS\<close> up to the creation of the channel, on the connection \<open>c\<close>.\<close>

definition open_conn :: "nat \<Rightarrow> gw_state \<Rightarrow> gw_state" where
  "open_conn c g = g\<lparr>chanH := (chanH g)(c := make_chan), wsClosed := (wsClosed g)(c := False)\<rparr>"

definition upgrade_ws :: "upgrader \<Rightarrow> nat \<Rightarrow> handler" where
  "upgrade_ws up c e r x =
     (case up CheckOrigin r of
        Some (status, msg) \<Rightarrow>
          Returns (x\<lparr>x_w := http_error ''upgrade failed'' 400 (http_error msg status (x_w x))\<rparr>)
      | None \<Rightarrow> Returns (x\<lparr>x_gw := open_conn c (x_gw x)\<rparr>))"

lemma open_conn_accept: "gw (do_accept c s) = open_conn c (gw s)"
  by (simp add: do_accept_def open_conn_def)

text \<open>A refused upgrade is answered twice: the status is that of \<open>Upgrade\<close>, the body has both texts.\<close>

lemma refused_upgrade_answered_twice:
  assumes "up CheckOrigin r = Some (status, msg)" "w_Sent (x_w x) = None"
  shows "\<exists>w. upgrade_ws up c e r x = Returns (x\<lparr>x_w := w\<rparr>) \<and> w_status w = Some status
     \<and> w_Body w = w_Body (x_w x) @ msg @ [CHR 0x0A] @ ''upgrade failed'' @ [CHR 0x0A]"
  using assms
  by (intro exI [of _ "http_error ''upgrade failed'' 400 (http_error msg status (x_w x))"])
    (simp add: upgrade_ws_def http_error_def WriteBody_def Let_def w_status_def)

section \<open>The handler of the server\<close>

text \<open>The code outside the repository: the token library, the upgrade and the two file servers.\<close>

record web_outside =
  wo_JWT :: JWTLib
  wo_Upgrade :: upgrader
  wo_Files :: "web_env \<Rightarrow> http_request \<Rightarrow> (string \<Rightarrow> bytes option) \<Rightarrow> writer \<Rightarrow> writer"

definition file_handler :: "web_outside \<Rightarrow> handler" where
  "file_handler o' e r x = Returns (x\<lparr>x_w := wo_Files o' e r (x_files x) (x_w x)\<rparr>)"

definition entry :: "web_outside \<Rightarrow> gateway_process \<Rightarrow> nat \<Rightarrow> handler" where
  "entry o' p c = serve (wo_JWT o') (upgrade_ws (wo_Upgrade o') c) (file_handler o') p"

definition upgrades :: "web_outside \<Rightarrow> http_request \<Rightarrow> bool" where
  "upgrades o' r \<longleftrightarrow> rq_Path r = ''/ws'' \<and> rq_Method r \<noteq> MethodOptions \<and> wo_Upgrade o' CheckOrigin r = None"

lemma file_handler_keeps: "(\<And>s. R s s) \<Longrightarrow> keeps R (file_handler o')"
  by (rule keepsI) (simp add: file_handler_def)

lemma refused_upgrade_keeps:
  assumes "\<And>s. R s s" "\<not> upgrades o' r" "rq_Path r = ''/ws''" "rq_Method r \<noteq> MethodOptions"
  shows "R (x_gw y) (x_gw (state_of (upgrade_ws (wo_Upgrade o') c e r y)))"
  using assms by (auto simp: upgrades_def upgrade_ws_def split: option.split)

lemma entry_returns: "\<forall>n. 0 \<le> we_clk e n \<Longrightarrow> returns (entry o' p c e r x)"
  unfolding entry_def
  by (rule calmD [OF calm_serve]) (auto intro!: calmI simp: upgrade_ws_def file_handler_def split: option.split)

lemma entry_tables: "\<not> upgrades o' r \<Longrightarrow> same_tables (x_gw x) (x_gw (state_of (entry o' p c e r x)))"
  unfolding entry_def
  by (rule rest_tables.served) (simp_all add: refused_upgrade_keeps file_handler_keeps rest_tables.bans)

text \<open>An upgrade opens the connection and does nothing else to the shared state.\<close>

lemma entry_upgrades:
  assumes "upgrades o' r"
  shows "\<exists>y. entry o' p c e r x = Returns y \<and> x_gw y = open_conn c (x_gw x) \<and> x_files y = x_files x"
proof -
  obtain w where "entry o' p c e r x = mux (wo_JWT o') (upgrade_ws (wo_Upgrade o') c) (file_handler o') p e r (x\<lparr>x_w := w\<rparr>)"
    using cors_frame [of "gp_Cors p" _ e r x] assms by (auto simp: entry_def serve_def upgrades_def)
  then show ?thesis using assms by (simp add: mux_def Let_def upgrades_def upgrade_ws_def)
qed

text \<open>
  C27: what a request can do to the chat. Whatever endpoint it is sent to and whatever the services answer, a
  request that is no upgrade leaves the online table, the rooms, the client objects, the channels with
  their frames and the pending saves as they are; it only makes calls that no connection makes. It
  closes a socket only at the ban endpoint and with a valid token of the role \<open>admin\<close>, and it does not
  panic on a clock that does not go below zero.
\<close>

theorem requests_leave_chat_alone:
  assumes "\<not> upgrades o' r"
  shows "same_tables (x_gw x) (x_gw (state_of (entry o' p c e r x)))
     \<and> only_calls (x_gw x) (x_gw (state_of (entry o' p c e r x)))
     \<and> (wsClosed (x_gw (state_of (entry o' p c e r x))) = wsClosed (x_gw x)
        \<or> rq_Path r = ''/api/admin/users/ban'' \<and> is_admin (token_claims (wo_JWT o') (gp_Secret p) e r))
     \<and> ((\<forall>n. 0 \<le> we_clk e n) \<longrightarrow> returns (entry o' p c e r x))"
proof (intro conjI)
  show "same_tables (x_gw x) (x_gw (state_of (entry o' p c e r x)))" by (rule entry_tables [OF assms])
  show "only_calls (x_gw x) (x_gw (state_of (entry o' p c e r x)))"
    unfolding entry_def
    by (rule rest_calls.served)
      (simp_all add: refused_upgrade_keeps assms file_handler_keeps rest_calls.bans rest_calls.refl)
  show "wsClosed (x_gw (state_of (entry o' p c e r x))) = wsClosed (x_gw x)
      \<or> rq_Path r = ''/api/admin/users/ban'' \<and> is_admin (token_claims (wo_JWT o') (gp_Secret p) e r)"
  proof (rule disjCI)
    assume guard: "\<not> (rq_Path r = ''/api/admin/users/ban'' \<and> is_admin (token_claims (wo_JWT o') (gp_Secret p) e r))"
    have "same_sockets (x_gw x) (x_gw (state_of (entry o' p c e r x)))"
      unfolding entry_def
      by (rule rest_sockets.served)
        (use guard in \<open>auto simp: refused_upgrade_keeps assms file_handler_keeps rest_sockets.refl\<close>)
    then show "wsClosed (x_gw (state_of (entry o' p c e r x))) = wsClosed (x_gw x)" by (simp add: same_sockets_def)
  qed
qed (simp add: entry_returns)

definition no_outside :: web_outside where
  "no_outside = \<lparr>wo_JWT = no_jwt, wo_Upgrade = (\<lambda>_ _. None), wo_Files = (\<lambda>_ _ _ w. w)\<rparr>"

theorem requests_leave_chat_alone_witness:
  "wsClosed (x_gw (state_of (entry no_outside plain_process 0 web0 (request ''POST'' ''/api/admin/users/ban'') fresh))) = wsClosed (x_gw fresh)
   \<and> returns (entry no_outside plain_process 0 web0 (request ''POST'' ''/api/admin/users/ban'') fresh)"
proof -
  have "\<not> upgrades no_outside (request ''POST'' ''/api/admin/users/ban'')" by (simp add: upgrades_def request_def)
  moreover have "\<not> is_admin (token_claims (wo_JWT no_outside) (gp_Secret plain_process) web0 (request ''POST'' ''/api/admin/users/ban''))"
    by (simp add: is_admin_def token_claims_def request_def)
  ultimately show ?thesis
    using requests_leave_chat_alone [of no_outside "request ''POST'' ''/api/admin/users/ban''" fresh plain_process 0 web0]
    by (simp add: web0_def)
qed

section \<open>The gateway between start and exit\<close>

text \<open>What the deferred calls of \<open>main\<close> release.\<close>

datatype release = CloseAuthConn | CloseDB | CloseMongo | CloseRedis

definition when_some :: "'a option \<Rightarrow> release \<Rightarrow> release list" where
  "when_some v r = (if v = None then [] else [r])"

text \<open>The deferred calls in the order of the \<open>defer\<close> statements.\<close>

definition gateway_defers :: "gateway_process \<Rightarrow> release list" where
  "gateway_defers p =
     when_some (gs_AuthClient (gp_Server p)) CloseAuthConn @ when_some (gs_DB (gp_Server p)) CloseDB
     @ when_some (gs_Mongo (gp_Server p)) CloseMongo @ when_some (gs_Redis (gp_Server p)) CloseRedis"

text \<open>
  \<open>ListenAndServe\<close> always returns an error: \<open>ErrServerClosed\<close> at once when \<open>Shutdown\<close> has been called,
  or the reason why the server cannot go on. The end of \<open>main\<close> is the exit status with what is
  released: deferred calls run last in, first out when \<open>main\<close> returns, and not at all on \<open>os.Exit\<close>.
\<close>

datatype listen_error = ErrServerClosed | ListenError go_error

definition gateway_end :: "gateway_process \<Rightarrow> listen_error \<Rightarrow> int \<times> release list" where
  "gateway_end p err =
     (case err of ErrServerClosed \<Rightarrow> (0, rev (gateway_defers p)) | ListenError e \<Rightarrow> (1, []))"

text \<open>
  The process: its goroutines, the uploaded files, the requests being handled, the replies (with
  whether the handler returned or panicked), whether \<open>Shutdown\<close> has been called, and the result of \<open>main\<close>
  when the process is over. A request is handled in one step. \<open>Shutdown\<close> waits for the requests, for 10
  seconds at most and not for WebSocket connections, but nothing waits for \<open>Shutdown\<close>: it runs in a
  goroutine of its own, so that its return, which is only logged, is not a step here.
\<close>

record process =
  pr_sys :: sys
  pr_files :: "string \<Rightarrow> bytes option"
  pr_requests :: "nat \<Rightarrow> http_request option"
  pr_replies :: "nat \<Rightarrow> (bool \<times> writer) option"
  pr_stopping :: bool
  pr_result :: "(int \<times> release list) option"

definition boot :: process where
  "boot = \<lparr>pr_sys = start, pr_files = Map.empty, pr_requests = Map.empty, pr_replies = Map.empty,
     pr_stopping = False, pr_result = None\<rparr>"

definition received :: "process \<Rightarrow> exchange" where
  "received s = \<lparr>x_w = new_writer, x_gw = gw (pr_sys s), x_files = pr_files s\<rparr>"

definition do_reply :: "nat \<Rightarrow> exchange go \<Rightarrow> process \<Rightarrow> process" where
  "do_reply k res s =
     s\<lparr>pr_sys := (pr_sys s)\<lparr>gw := x_gw (state_of res)\<rparr>, pr_files := x_files (state_of res),
       pr_requests := (pr_requests s)(k := None), pr_replies := (pr_replies s)(k \<mapsto> (returns res, x_w (state_of res)))\<rparr>"

definition do_upgrade :: "nat \<Rightarrow> nat \<Rightarrow> process \<Rightarrow> process" where
  "do_upgrade k c s = s\<lparr>pr_sys := do_accept c (pr_sys s), pr_requests := (pr_requests s)(k := None)\<rparr>"

inductive pstep :: "web_outside \<Rightarrow> gateway_process \<Rightarrow> process \<Rightarrow> process \<Rightarrow> bool"
  for o' :: web_outside and p :: gateway_process where
  goroutine: "pr_result s = None \<Longrightarrow> gstep (gp_Server p) (pr_sys s) t \<Longrightarrow>
    (\<forall>c. ph (pr_sys s) c = Fresh \<longrightarrow> ph t c = Fresh) \<Longrightarrow> pstep o' p s (s\<lparr>pr_sys := t\<rparr>)"
| request: "pr_result s = None \<Longrightarrow> \<not> pr_stopping s \<Longrightarrow> pr_requests s k = None \<Longrightarrow> pr_replies s k = None \<Longrightarrow>
    pstep o' p s (s\<lparr>pr_requests := (pr_requests s)(k \<mapsto> r)\<rparr>)"
| upgraded: "pr_result s = None \<Longrightarrow> pr_requests s k = Some r \<Longrightarrow> upgrades o' r \<Longrightarrow> ph (pr_sys s) c = Fresh \<Longrightarrow>
    pstep o' p s (do_upgrade k c s)"
| served: "pr_result s = None \<Longrightarrow> pr_requests s k = Some r \<Longrightarrow> \<not> upgrades o' r \<Longrightarrow>
    pstep o' p s (do_reply k (entry o' p 0 e r (received s)) s)"
| signalled: "pr_result s = None \<Longrightarrow> pstep o' p s (s\<lparr>pr_stopping := True\<rparr>)"
| closed: "pr_result s = None \<Longrightarrow> pr_stopping s \<Longrightarrow>
    pstep o' p s (s\<lparr>pr_result := Some (gateway_end p ErrServerClosed)\<rparr>)"
| listen_failed: "pr_result s = None \<Longrightarrow> \<not> pr_stopping s \<Longrightarrow>
    pstep o' p s (s\<lparr>pr_result := Some (gateway_end p (ListenError err))\<rparr>)"

inductive_cases pstep_cases: "pstep o' p s t"

text \<open>The step of an accepted upgrade is what the entry of the server does to the shared state.\<close>

lemma upgrade_is_entry:
  assumes "upgrades o' r"
  shows "\<exists>y. entry o' p c e r (received s) = Returns y \<and> x_gw y = gw (pr_sys (do_upgrade k c s)) \<and> x_files y = pr_files s"
  using entry_upgrades [OF assms, of p c e "received s"] by (simp add: received_def do_upgrade_def open_conn_accept)

section \<open>The whole process is safe\<close>

definition pid_step :: "web_outside \<Rightarrow> gateway_process \<Rightarrow> process \<Rightarrow> process \<Rightarrow> bool" where
  "pid_step o' p s t \<longleftrightarrow> pstep o' p s t \<and> keeps_ids (pr_sys s) (pr_sys t)"

lemma process_step:
  assumes "pid_step o' p s t" "sys_inv (pr_sys s)"
  shows "sys_inv (pr_sys t)"
proof -
  have "pstep o' p s t" using assms(1) by (simp add: pid_step_def)
  then show ?thesis
  proof cases
    case (goroutine u)
    then have "id_step (gp_Server p) (pr_sys s) (pr_sys t)" using assms(1) by (simp add: pid_step_def id_step_def)
    then show ?thesis by (rule gateway.inv_step [OF assms(2)])
  next
    case (upgraded k r c)
    then show ?thesis using sys_inv_accept [OF assms(2)] by (simp add: do_upgrade_def)
  next
    case (served k r e)
    have "same_tables (gw (pr_sys s)) (x_gw (state_of (entry o' p 0 e r (received s))))"
      using entry_tables [OF served(4), of "received s" p 0 e] by (simp add: received_def)
    then show ?thesis using served(1) by (intro sys_inv_same [OF assms(2)]) (simp_all add: do_reply_def)
  qed (use assms(2) in simp_all)
qed

interpretation processes: invariant_system boot "pid_step o' p" "\<lambda>s. sys_inv (pr_sys s)"
  for o' :: web_outside and p :: gateway_process
  by unfold_locales (simp add: boot_def sys_inv_start, rule process_step)


text \<open>A request for the upgrade arrives and is accepted as connection 0, which logs in.\<close>

definition asked0 :: process where
  "asked0 = boot\<lparr>pr_requests := (pr_requests boot)(0 \<mapsto> request ''GET'' ''/ws'')\<rparr>"

definition opened0 :: process where
  "opened0 = do_upgrade 0 0 asked0"

lemma opened0_simps: "pr_sys opened0 = accepted0" "pr_result opened0 = None" "pr_sys asked0 = start"
  by (simp_all add: opened0_def asked0_def do_upgrade_def boot_def accepted0_def)

lemma opened0_run: "pstep no_outside p boot asked0" "pstep no_outside p asked0 opened0"
proof -
  show "pstep no_outside p boot asked0" unfolding asked0_def by (rule pstep.request) (simp_all add: boot_def)
  show "pstep no_outside p asked0 opened0"
    unfolding opened0_def
    by (rule pstep.upgraded [where r = "request ''GET'' ''/ws''"])
      (simp_all add: asked0_def boot_def upgrades_def request_def no_outside_def MethodOptions_def start_def)
qed

lemma opened0_pid_run: "rtranclp (pid_step no_outside plain_process) boot opened0"
  and logged0_pid_step: "pid_step no_outside plain_process opened0 (opened0\<lparr>pr_sys := logged0\<rparr>)"
proof -
  have ids: "keeps_ids start start" "keeps_ids start accepted0" "keeps_ids accepted0 logged0"
    using accepted0_step [of dev_srv] logged0_step by (simp_all add: id_step_def keeps_ids_def start_def)
  have "pstep no_outside plain_process opened0 (opened0\<lparr>pr_sys := logged0\<rparr>)"
    using logged0_step
    by (intro pstep.goroutine) (simp_all add: opened0_simps plain_process_def id_step_def, simp add: run_defs)
  then show "pid_step no_outside plain_process opened0 (opened0\<lparr>pr_sys := logged0\<rparr>)"
    using ids(3) by (simp add: pid_step_def opened0_simps)
  have "pid_step no_outside plain_process boot asked0" "pid_step no_outside plain_process asked0 opened0"
    using opened0_run [of plain_process] ids(1,2) by (simp_all add: pid_step_def opened0_simps) (simp add: boot_def)
  then show "rtranclp (pid_step no_outside plain_process) boot opened0"
    by (meson rtranclp.rtrancl_into_rtrancl rtranclp.rtrancl_refl)
qed

lemma login_run: "rtranclp (pid_step no_outside plain_process) boot (opened0\<lparr>pr_sys := logged0\<rparr>)"
  using opened0_pid_run logged0_pid_step by (rule rtranclp.rtrancl_into_rtrancl)


section \<open>The exit\<close>

lemma over_is_over: "pr_result s \<noteq> None \<Longrightarrow> \<not> pstep o' p s t"
  by (auto elim: pstep_cases)

definition result_ok :: "gateway_process \<Rightarrow> process \<Rightarrow> bool" where
  "result_ok p s \<longleftrightarrow> pr_result s \<in>
     {None, Some (if pr_stopping s then (0, rev (gateway_defers p)) else (1, []))}"

lemma result_step: "result_ok p s \<Longrightarrow> pstep o' p s t \<Longrightarrow> result_ok p t"
  by (erule pstep_cases) (auto simp: result_ok_def gateway_end_def do_reply_def do_upgrade_def)

interpretation exits: invariant_system boot "pstep o' p" "result_ok p"
  for o' :: web_outside and p :: gateway_process
  by unfold_locales (simp add: result_ok_def boot_def, rule result_step)

text \<open>The process exits with 0 exactly after a signal, and only then releases what it has opened.\<close>

lemma exit_status:
  assumes "rtranclp (pstep o' p) boot s" "pr_result s = Some res"
  shows "res = (if pr_stopping s then (0, rev (gateway_defers p)) else (1, []))"
  using exits.inv_reachable [OF assms(1)] assms(2) by (simp add: result_ok_def)

text \<open>
  C17: a shutdown cuts work off. Whatever the gateway is doing when it receives a signal, it can
  exit with status 0, having released its connections in reverse order, with the state exactly as it
  was: a message whose \<open>SaveMessage\<close> is still pending, although its author has been answered, is never
  stored, requests stay unanswered, and no connection is cleaned up. Only \<open>ErrServerClosed\<close> leads to
  status 0, and every other end releases nothing.
\<close>

theorem shutdown_cuts_work:
  assumes "rtranclp (pstep o' p) boot s" "pr_result s = None" "cm \<in># mset (saves (gw (pr_sys s)))"
  shows "(\<exists>t. rtranclp (pstep o' p) s t \<and> pr_result t = Some (0, rev (gateway_defers p))
       \<and> pr_sys t = pr_sys s \<and> pr_requests t = pr_requests s
       \<and> cm \<in># mset (saves (gw (pr_sys t))) \<and> (\<forall>u. rtranclp (pstep o' p) t u \<longrightarrow> u = t))
    \<and> (\<forall>u res. rtranclp (pstep o' p) s u \<and> pr_result u = Some res \<longrightarrow>
        res = (if pr_stopping u then (0, rev (gateway_defers p)) else (1, [])))"
proof
  let ?s1 = "s\<lparr>pr_stopping := True\<rparr>"
  let ?t = "?s1\<lparr>pr_result := Some (gateway_end p ErrServerClosed)\<rparr>"
  have "pstep o' p s ?s1" "pstep o' p ?s1 ?t" using assms(2) by (intro pstep.signalled pstep.closed; simp)+
  then have run: "rtranclp (pstep o' p) s ?t" by simp
  have "u = ?t" if "rtranclp (pstep o' p) ?t u" for u
    using that over_is_over [of ?t] by (cases rule: converse_rtranclpE) auto
  then show "\<exists>t. rtranclp (pstep o' p) s t \<and> pr_result t = Some (0, rev (gateway_defers p))
       \<and> pr_sys t = pr_sys s \<and> pr_requests t = pr_requests s
       \<and> cm \<in># mset (saves (gw (pr_sys t))) \<and> (\<forall>u. rtranclp (pstep o' p) t u \<longrightarrow> u = t)"
    using run assms(3) by (intro exI [of _ ?t]) (simp add: gateway_end_def)
  show "\<forall>u res. rtranclp (pstep o' p) s u \<and> pr_result u = Some res \<longrightarrow>
        res = (if pr_stopping u then (0, rev (gateway_defers p)) else (1, []))"
    using exit_status [OF rtranclp_trans [OF assms(1)]] by blast
qed

text \<open>A gateway with a message store and nothing else, in which the note of user \<open>a\<close> is pending.\<close>

definition store_only :: gateway_process where
  "store_only = \<lparr>gp_Server = query_down, gp_Rest = NewRESTHandler None None, gp_Limiter = NewRateLimiter None,
     gp_Secret = ''k'', gp_Cors = ''*'', gp_Listen = '':8080''\<rparr>"

theorem shutdown_cuts_work_witness:
  "\<exists>s t. rtranclp (pstep no_outside store_only) boot s \<and> rtranclp (pstep no_outside store_only) s t \<and> pr_result t = Some (0, [CloseMongo])
    \<and> saves (gw (pr_sys t)) = [private_message ''a'' (private_msg ''b'' ''c'') env0 False]
    \<and> (\<forall>u. rtranclp (pstep no_outside store_only) t u \<longrightarrow> u = t)"
proof -
  let ?w = "opened0\<lparr>pr_sys := do_message 0 writer_in accepted0\<rparr>"
  let ?s = "?w\<lparr>pr_sys := do_message 0 note_sent (do_message 0 writer_in accepted0)\<rparr>"
  have srv: "gp_Server store_only = query_down" by (simp add: store_only_def)
  have "pstep no_outside store_only opened0 ?w"
    by (rule pstep.goroutine) (use writer_in_gstep in \<open>simp_all add: opened0_simps srv\<close>, simp add: do_message_def)
  moreover have "pstep no_outside store_only ?w ?s"
    using note_run(2) by (intro pstep.goroutine) (simp_all add: opened0_simps srv, simp add: do_message_def)
  ultimately have run: "rtranclp (pstep no_outside store_only) boot ?s"
    using opened0_run by (meson rtranclp.rtrancl_into_rtrancl rtranclp.rtrancl_refl)
  have pending: "saves (gw (pr_sys ?s)) = [private_message ''a'' (private_msg ''b'' ''c'') env0 False]"
    by (simp add: do_message_def note_sent_def)
  have defers: "gateway_defers store_only = [CloseMongo]"
    by (simp add: gateway_defers_def when_some_def store_only_def query_down_def dev_srv_def)
  have "pr_result ?s = None" by (simp add: opened0_simps)
  from shutdown_cuts_work [OF run this, of "private_message ''a'' (private_msg ''b'' ''c'') env0 False"] obtain t where
    "rtranclp (pstep no_outside store_only) ?s t" "pr_result t = Some (0, [CloseMongo])" "pr_sys t = pr_sys ?s"
    "\<forall>u. rtranclp (pstep no_outside store_only) t u \<longrightarrow> u = t"
    unfolding defers pending by auto
  then show ?thesis using run pending by (intro exI [of _ ?s] exI [of _ t]) simp
qed

section \<open>The end of the auth service\<close>

text \<open>
  \<open>Serve\<close> of the gRPC server returns an error unless the server is stopped; \<open>served\<close> is what it returns.
  The signal handler stops it with \<open>GracefulStop\<close>.
\<close>

definition authsvc_end :: "authsvc_outside \<Rightarrow> go_error option \<Rightarrow> int \<times> release list" where
  "authsvc_end w served =
     (case authsvc_main w of
        Exit msg \<Rightarrow> (1, [])
      | Up up \<Rightarrow> (case served of Some e \<Rightarrow> (1, []) | None \<Rightarrow> (0, rev [CloseDB, CloseRedis])))"

lemma authsvc_end_releases:
  "authsvc_end w served = (0, [CloseRedis, CloseDB]) \<longleftrightarrow> (\<exists>up. authsvc_main w = Up up) \<and> served = None"
  "authsvc_end w served \<noteq> (0, [CloseRedis, CloseDB]) \<Longrightarrow> authsvc_end w served = (1, [])"
  by (auto simp: authsvc_end_def split: startup.splits option.splits)

end
