(* ===== verification/Presence.thy ===== *)
theory Presence
  imports ChatSpec Lifecycle
begin

text \<open>
  The presence keys in Redis: \<open>user:<id>:online\<close> is set when a user has been registered as online and
  deleted when the user has been taken out of the table. The keys that are set, as far as the calls of
  the gateway go, are compared with the table. Their expiry is not counted.
\<close>

section \<open>The keys that are set\<close>

fun key_step :: "call \<Rightarrow> string set \<Rightarrow> string set" where
  "key_step (CallRedisSet key v ttl) K = insert key K"
| "key_step (CallRedisDel key) K = K - {key}"
| "key_step k K = K"

definition present :: "trace \<Rightarrow> string set" where
  "present h = {u. online_key u \<in> fold key_step h {}}"

lemma online_key_inject [simp]: "online_key u = online_key v \<longleftrightarrow> u = v"
  by (simp add: online_key_def)

lemma present_set [simp]: "present (h @ [CallRedisSet (online_key u) v ttl]) = insert u (present h)"
  by (auto simp: present_def)

lemma present_del [simp]: "present (h @ [CallRedisDel (online_key u)]) = present h - {u}"
  by (auto simp: present_def)

lemma key_step_plain: "plain_call k \<Longrightarrow> online_key u \<in> key_step k K \<longleftrightarrow> online_key u \<in> K"
  by (cases k) (auto simp: plain_call_def)

lemma present_plain: "plain_call k \<Longrightarrow> present (h @ [k]) = present h"
  by (simp add: present_def key_step_plain)

lemma present_validate [simp]: "present (h @ [CallValidate tok]) = present h"
  by (simp add: present_def)

lemma present_insert [simp]: "present (h @ [CallMongoInsert cm]) = present h"
  by (simp add: present_def)

definition aside :: "gw_state \<Rightarrow> gw_state \<Rightarrow> bool" where
  "aside s t \<longleftrightarrow> present (gw_trace t) = present (gw_trace s)"

lemma aside_send: "aside s (state_of (send_nb c b s))"
  by (cases rule: send_nb_cases [of s c b]) (simp_all add: aside_def)

interpretation aside: handler_relation aside
  by unfold_locales (simp_all add: aside_send, simp_all add: aside_def present_plain)

lemma aside_leave_rooms: "aside g (fold (leave_room r) rids g)"
proof (induction rids arbitrary: g)
  case Nil
  then show ?case by (simp add: aside_def)
next
  case (Cons rid rids)
  show ?case unfolding fold_simps by (rule aside.trans [OF aside.room_left Cons])
qed

section \<open>The mirror\<close>

definition mirror :: "gw_state \<Rightarrow> bool" where
  "mirror s \<longleftrightarrow> present (gw_trace s) = dom (onlineUsers s)"

lemma mirror_aside: "mirror s \<Longrightarrow> aside s t \<Longrightarrow> onlineUsers t = onlineUsers s \<Longrightarrow> mirror t"
  by (simp add: mirror_def aside_def)

lemma mirror_trace: "mirror s \<Longrightarrow> gw_trace t = gw_trace s \<Longrightarrow> onlineUsers t = onlineUsers s \<Longrightarrow> mirror t"
  by (simp add: mirror_def)

lemma online_same: "same_tables s t \<Longrightarrow> onlineUsers t = onlineUsers s"
  by (simp add: same_tables_def)

lemma mirror_refuse: "mirror s \<Longrightarrow> mirror (state_of (refuse c hangup msg s))"
  by (rule mirror_aside [OF _ aside.refused online_same [OF same_tables_refuse]])

lemma mirror_ban_check: "mirror s \<Longrightarrow> mirror (log_ban_check srv uid s)"
  by (rule mirror_aside [OF _ aside.ban_checked]) (auto simp: log_ban_check_def log_call_def split: option.split)

lemma mirror_validate: "mirror s \<Longrightarrow> mirror (log_call (CallValidate tok) s)"
  by (simp add: mirror_def log_call_def)

lemma mirror_finish:
  assumes "mirror s" "gs_Redis srv \<noteq> None" "\<not> ch_closed (chanH s c)"
  shows "mirror (fst (state_of (finish_auth srv c e uid ttl (s, l))))"
proof -
  obtain r t where new: "new_client uid c s = (r, t)" by fastforce
  let ?s2 = "registerOnline uid r t"
  have s2: "gw_trace ?s2 = gw_trace s" "onlineUsers ?s2 = (onlineUsers s)(uid \<mapsto> r)"
      "onlineUsers ?s2 uid = Some r" "c_Send (clientH ?s2 r) = c" "chanH ?s2 = chanH s"
    using new by (auto simp: new_client_def registerOnline_def)
  have "returns (pushUndelivered srv uid ?s2)" by (rule push_returns) (use s2(3-5) assms(3) in simp)
  then obtain s3 where push: "pushUndelivered srv uid ?s2 = Returns s3" by (auto simp: returns_iff)
  have s3: "present (gw_trace s3) = present (gw_trace s)"
    using aside.pushed [of ?s2 srv uid] push s2(1) by (simp add: aside_def)
  let ?s4 = "redis_set_online srv uid ttl (UnixMilli (e_clk e 0)) s3"
  have s4: "present (gw_trace ?s4) = insert uid (present (gw_trace s))"
    using assms(2) s3 present_plain [OF plain_calls(1)] by (auto simp: redis_set_online_def log_call_def simp flip: append_assoc)
  have send: "aside ?s4 (state_of (sendJSON c (Some (authed_payload uid)) ?s4))" by (rule aside.send_payload) simp
  obtain u where "state_of (finish_auth srv c e uid ttl (s, l)) = (u, l\<lparr>me := Some r\<rparr>)" "same_tables ?s2 u"
    using finish_auth_state [OF new, of srv e ttl l] by blast
  moreover have "fst (state_of (finish_auth srv c e uid ttl (s, l))) = state_of (sendJSON c (Some (authed_payload uid)) ?s4)"
    using new push by (simp add: finish_auth_def Let_def)
  ultimately have "u = state_of (sendJSON c (Some (authed_payload uid)) ?s4)" "onlineUsers u = (onlineUsers s)(uid \<mapsto> r)"
      "fst (state_of (finish_auth srv c e uid ttl (s, l))) = u"
    using online_same [of ?s2 u] s2(2) by simp_all
  then show ?thesis using send s4 assms(1) by (simp add: mirror_def aside_def)
qed

lemma mirror_auth:
  assumes "mirror s" "gs_Redis srv \<noteq> None" "\<not> ch_closed (chanH s c)"
  shows "mirror (fst (state_of (handle_auth srv c e m (s, l))))"
proof -
  have v: "mirror (log_call (CallValidate tok) s)" "\<not> ch_closed (chanH (log_call (CallValidate tok) s) c)" for tok
    using assms by (simp_all add: mirror_validate) (simp add: log_call_def)
  have b: "mirror (log_ban_check srv uid (log_call (CallValidate tok) s))"
      "\<not> ch_closed (chanH (log_ban_check srv uid (log_call (CallValidate tok) s)) c)" for tok uid
    using assms(3) by (simp_all add: mirror_ban_check v) (simp add: log_ban_check_def log_call_def split: option.split)
  show ?thesis
    unfolding handle_auth_def Let_def
    by (auto simp: assms(1) v b mirror_finish [OF assms] mirror_finish [OF b(1) assms(2) b(2)]
        intro: mirror_refuse split: option.split sum.split)
qed

lemma mirror_message:
  assumes "mirror s" "gs_Redis srv \<noteq> None" "\<not> ch_closed (chanH s c)"
  shows "mirror (fst (state_of (handle_frame srv c e data (s, l))))"
proof (cases "unmarshal_WSMsg data")
  case None
  then show ?thesis
    using mirror_aside [OF assms(1) aside.error online_same [OF same_tables_send_error]] by (simp add: handle_frame_def)
next
  case (Some m)
  show ?thesis
  proof (cases "m_Type m = ''auth''")
    case True
    then show ?thesis using Some mirror_auth [OF assms] by (simp add: handle_frame_def dispatch_def)
  next
    case False
    have "aside s (fst (state_of (handle_frame srv c e data (s, l))))"
      by (rule aside.not_auth) (use Some False in simp)
    then show ?thesis by (rule mirror_aside [OF assms(1) _ not_auth_frame(1) [OF Some False]])
  qed
qed

lemma mirror_cleanup:
  assumes "mirror s" "gs_Redis srv \<noteq> None"
  shows "mirror (cleanup srv e l s)"
proof (cases "me l")
  case None
  then show ?thesis using assms(1) by (simp add: cleanup_def)
next
  case (Some r)
  let ?u = "c_UserID (clientH s r)"
  let ?s1 = "fold (leave_room r) (my_rooms ?u (e_ord e) s) s"
  have "present (gw_trace ?s1) = present (gw_trace s)" using aside_leave_rooms by (simp add: aside_def)
  then show ?thesis
    using Some assms present_plain [OF plain_calls(1)] leave_rooms_frame(1) [of r "my_rooms ?u (e_ord e) s" s]
    by (auto simp: cleanup_def Let_def mirror_def log_call_def unregisterOnline_def simp flip: append_assoc
        split: if_splits)
qed

definition mirrored :: "sys \<Rightarrow> bool" where
  "mirrored s \<longleftrightarrow> alive_open s \<and> mirror (gw s)"

lemma mirror_step:
  assumes srv: "gs_Redis srv \<noteq> None" and "gstep srv s t" "mirrored s"
  shows "mirrored t"
proof -
  have m: "mirror (gw s)" and alive: "alive_open s" using assms(3) by (simp_all add: mirrored_def)
  have open_c: "\<not> ch_closed (chanH (gw s) c)" if "ph s c = Reading" for c
    using alive that by (simp add: alive_open_def flags_def)
  from assms(2) have "mirror (gw t)"
  proof cases
    case (accept c)
    then show ?thesis by (intro mirror_trace [OF m]) (simp_all add: do_accept_def)
  next
    case (message c e data gl)
    then show ?thesis
      using mirror_message [OF m srv open_c [OF message(2)], of e data "loc s c"] by (simp add: do_message_def)
  next
    case (message_panic c e data g l)
    then have "mirror g" using mirror_message [OF m srv open_c [OF message_panic(2)], of e data "loc s c"] by simp
    then show ?thesis
      using message_panic(1) by (auto intro!: mirror_trace [of g] simp: do_end_def deferred_def close_conn_def close_chan_def)
  next
    case (read_error c e)
    then show ?thesis using mirror_cleanup [OF m srv] by (simp add: do_cleanup_def)
  next
    case (finish c)
    then show ?thesis by (intro mirror_trace [OF m]) (simp_all add: do_end_def deferred_def close_conn_def close_chan_def)
  next
    case (conn_write c b g)
    then show ?thesis by (intro mirror_trace [OF m]) (auto simp: recv_chan_def split: list.splits if_splits)
  next
    case (conn_write_error c b g)
    then show ?thesis by (intro mirror_trace [OF m]) (auto simp: recv_chan_def split: list.splits if_splits)
  next
    case (writer_end c)
    then show ?thesis using m by simp
  next
    case (save ms cm now)
    then show ?thesis using m by (simp add: mirror_def run_save_def SaveMessage_def Let_def)
  next
    case (disconnect uid)
    then show ?thesis
      by (intro mirror_trace [OF m]) (simp_all add: disconnectUser_def close_conn_def split: option.split)
  qed
  then show ?thesis using lifecycle_step [OF assms(2) alive] by (simp add: mirrored_def)
qed

lemma mirror_start: "mirrored start"
  using lifecycle.inv_start by (simp add: mirrored_def) (simp add: mirror_def present_def start_def empty_gw_def)

interpretation presence: invariant_system start "gstep srv" "\<lambda>s. gs_Redis srv \<noteq> None \<longrightarrow> mirrored s" for srv :: GatewayServer
  by unfold_locales (use mirror_start mirror_step in blast)+

text \<open>
  The presence keys in Redis mirror the online table. In every state a gateway with Redis can
  reach, also when connections change their user IDs, users are connected twice and handlers panic, the
  key of a user is set, as far as the gateway's own calls go, if and only if the user has an entry in the
  online table.
\<close>

theorem presence_mirrors_online:
  assumes "rtranclp (gstep srv) start s" "gs_Redis srv \<noteq> None"
  shows "present (gw_trace (gw s)) = dom (onlineUsers (gw s))"
  using presence.inv_reachable [OF assms(1)] assms(2) by (simp add: mirrored_def mirror_def)

text \<open>User \<open>a\<close> logs in at a gateway with nothing but Redis.\<close>

definition redis_srv :: GatewayServer where
  "redis_srv = dev_srv\<lparr>gs_Redis := Some \<lparr>rd_Ping = (\<lambda>_. None), rd_RatePipe = (\<lambda>_ _ _ _ _. Inr 0)\<rparr>\<rparr>"

definition seen0 :: "gw_state \<times> ws_local" where
  "seen0 = ((dev_login ''a'' 0 (gw accepted0))
     \<lparr>gw_trace := [CallRedisSet (online_key ''a'') ''1'' day_ns, CallRedisSet (last_seen_key ''a'') (show_int 0) 0]\<rparr>,
     init_local\<lparr>me := Some 0\<rparr>)"

lemma seen0_step:
  "handle_frame redis_srv 0 env0 (frame (auth_msg ''a'')) (gw accepted0, loc accepted0 0) = Returns seen0"
  unfolding handle_frame_def unmarshal_auth [OF ascii_words(3)]
  by (simp add: dispatch_def handle_auth_def redis_srv_def dev_srv_def Let_def finish_auth_def new_client_def
      pushUndelivered_def redis_set_online_def sendJSON_def send_nb_def registerOnline_def log_call_def
      auth_msg_def seen0_def run_defs env0_def UnixMilli_def)

lemma seen0_reachable: "rtranclp (gstep redis_srv) start (do_message 0 seen0 accepted0)"
proof -
  have "gstep redis_srv start accepted0" using accepted0_step by (simp add: id_step_def)
  moreover have "gstep redis_srv accepted0 (do_message 0 seen0 accepted0)"
  proof (rule gstep.message [OF _ _ _ seen0_step])
    show "order_ok env0 (frame (auth_msg ''a'')) (gw accepted0)"
      using unmarshal_auth [OF ascii_words(3)] by (simp add: order_ok_def) (simp add: auth_msg_def)
  qed (simp_all add: run_defs env0_def)
  ultimately show ?thesis by simp
qed

theorem presence_mirrors_online_witness: "present (gw_trace (fst seen0)) = {''a''}"
proof -
  have "dom (onlineUsers (fst seen0)) = {''a''}" by (simp add: seen0_def run_defs)
  moreover have "gs_Redis redis_srv \<noteq> None" by (simp add: redis_srv_def)
  ultimately show ?thesis using presence_mirrors_online [OF seen0_reachable] by (simp add: do_message_def)
qed

end
