(* ===== verification/AuthBudget.thy ===== *)
theory AuthBudget
  imports ChatProperties Lifecycle
begin

text \<open>
  How often the gateway can be made to call the auth service: the attempts of a connection are counted
  in its handler, and the calls of the process never exceed what its connections have used up.
\<close>

interpretation quiet_ending: ending_relation quiet
  by unfold_locales (auto intro: quiet_same simp: close_chan_def)

lemma quiet_run_save: "quiet s (run_save ms now cm s)"
  by (auto simp: quiet_def run_save_def SaveMessage_def Let_def validations_def)

text \<open>What a connection has used up; one that has ended counts as having used all its attempts.\<close>

definition used :: "phase \<Rightarrow> ws_local \<Rightarrow> nat" where
  "used p l = (if p = Ended then 3 else nat (min 3 (authAttempts l)))"

definition connections :: "sys \<Rightarrow> nat set" where
  "connections s = {c. ph s c \<noteq> Fresh}"

definition within_budget :: "sys \<Rightarrow> bool" where
  "within_budget s \<longleftrightarrow> finite (connections s) \<and> (\<forall>c. 0 \<le> authAttempts (loc s c))
     \<and> validations (gw_trace (gw s)) \<le> (\<Sum>c \<in> connections s. used (ph s c) (loc s c))"

lemma used_le: "used p l \<le> 3"
  by (simp add: used_def nat_le_iff)

text \<open>One connection moves on: its share grows by at least the calls that were made.\<close>

lemma budget_moves:
  assumes ok: "within_budget s" and c: "ph s c \<noteq> Fresh" "p \<noteq> Fresh"
    and t: "ph t = (ph s)(c := p)" "loc t = (loc s)(c := l)" "0 \<le> authAttempts l"
    and calls: "validations (gw_trace (gw t)) + used (ph s c) (loc s c) \<le> validations (gw_trace (gw s)) + used p l"
  shows "within_budget t"
proof -
  let ?S = "connections s"
  have S: "connections t = ?S" "c \<in> ?S" "finite ?S" using c t(1) ok by (auto simp: connections_def within_budget_def)
  have "(\<Sum>d \<in> ?S. used (ph t d) (loc t d)) = used p l + (\<Sum>d \<in> ?S - {c}. used (ph s d) (loc s d))"
    using S(2,3) t(1,2) by (simp add: sum.remove)
  moreover have "(\<Sum>d \<in> ?S. used (ph s d) (loc s d)) = used (ph s c) (loc s c) + (\<Sum>d \<in> ?S - {c}. used (ph s d) (loc s d))"
    using S(2,3) by (simp add: sum.remove)
  ultimately show ?thesis using ok calls S t(2,3) by (simp add: within_budget_def)
qed

lemma budget_quiet:
  assumes "within_budget s" "quiet (gw s) (gw t)" "ph t = ph s" "loc t = loc s"
  shows "within_budget t"
  using assms by (simp add: within_budget_def connections_def quiet_validations)

lemma budget_step:
  assumes "gstep srv s t" "within_budget s"
  shows "within_budget t"
proof -
  have nonneg: "0 \<le> authAttempts (loc s c)" for c using assms(2) by (simp add: within_budget_def)
  from assms(1) show ?thesis
  proof cases
    case (accept c)
    then have "connections t = insert c (connections s)" "c \<notin> connections s"
      by (auto simp: do_accept_def connections_def)
    moreover have "used (ph t d) (loc t d) = used (ph s d) (loc s d)" if "d \<noteq> c" for d
      using that accept(1) by (simp add: do_accept_def)
    then have "(\<Sum>d \<in> connections s. used (ph t d) (loc t d)) = (\<Sum>d \<in> connections s. used (ph s d) (loc s d))"
      using \<open>c \<notin> connections s\<close> by (intro sum.cong HOL.refl) metis
    ultimately show ?thesis
      using assms(2) accept(1) by (auto simp: within_budget_def do_accept_def init_local_def)
  next
    case (message c e data gl)
    obtain g l where gl: "gl = (g, l)" by fastforce
    have "state_of (handle_frame srv c e data (gw s, loc s c)) = (g, l)" using message(5) gl by simp
    note frame_attempts [OF this]
    then show ?thesis
      using message(1,2) gl nonneg [of c]
      by (intro budget_moves [OF assms(2), where c = c and p = Reading and l = l])
        (auto simp: do_message_def used_def min_def)
  next
    case (message_panic c e data g l)
    have "state_of (handle_frame srv c e data (gw s, loc s c)) = (g, l)" using message_panic(5) by simp
    note frame = frame_attempts [OF this]
    have "validations (gw_trace (deferred c g)) = validations (gw_trace g)"
      by (rule quiet_validations [OF quiet_ending.deferred_calls])
    then show ?thesis
      using message_panic(1,2) frame nonneg [of c]
      by (intro budget_moves [OF assms(2), where c = c and p = Ended and l = "loc s c"])
        (auto simp: do_end_def used_def min_def)
  next
    case (read_error c e)
    have "validations (gw_trace (cleanup srv e (loc s c) (gw s))) = validations (gw_trace (gw s))"
      by (rule quiet_validations [OF quiet_ending.cleaned_up])
    then show ?thesis
      using read_error nonneg
      by (intro budget_moves [OF assms(2), where c = c and p = Draining and l = "loc s c"])
        (auto simp: do_cleanup_def used_def)
  next
    case (finish c)
    have "validations (gw_trace (deferred c (gw s))) = validations (gw_trace (gw s))"
      by (rule quiet_validations [OF quiet_ending.deferred_calls])
    then show ?thesis
      using finish nonneg
      by (intro budget_moves [OF assms(2), where c = c and p = Ended and l = "loc s c"])
        (auto simp: do_end_def used_def)
  next
    case (conn_write c b g)
    then show ?thesis
      by (intro budget_quiet [OF assms(2)] quiet_same) (auto simp: recv_chan_def split: list.splits if_splits)
  next
    case (conn_write_error c b g)
    then show ?thesis
      by (intro budget_quiet [OF assms(2)] quiet_same) (auto simp: recv_chan_def split: list.splits if_splits)
  next
    case (writer_end c)
    then show ?thesis by (intro budget_quiet [OF assms(2)] quiet_same) auto
  next
    case (save ms cm now)
    then show ?thesis using quiet_run_save by (intro budget_quiet [OF assms(2)]) auto
  next
    case (disconnect uid)
    then show ?thesis using quiet_ending.disconnected by (intro budget_quiet [OF assms(2)]) auto
  qed
qed

interpretation budget: invariant_system start "gstep srv" within_budget for srv :: GatewayServer
  by unfold_locales
    (simp add: within_budget_def connections_def start_def empty_gw_def init_local_def validations_def, blast dest: budget_step)

lemma budget_total: "within_budget s \<Longrightarrow> validations (gw_trace (gw s)) \<le> 3 * card (connections s)"
proof -
  assume ok: "within_budget s"
  have "(\<Sum>c \<in> connections s. used (ph s c) (loc s c)) \<le> (\<Sum>c \<in> connections s. 3)"
    by (rule sum_mono) (rule used_le)
  then show ?thesis using ok by (simp add: within_budget_def)
qed

text \<open>
  The clients cannot flood the auth service. In every run of the gateway, with any number of
  connections and also after panics, the number of calls of \<open>Validate\<close> is at most three times the number
  of connections that have ever been accepted: no connection gets a fourth, however many \<open>auth\<close>
  messages it sends and however it fares with them.
\<close>

theorem auth_calls_bounded:
  assumes "rtranclp (gstep srv) start s"
  shows "finite (connections s) \<and> validations (gw_trace (gw s)) \<le> 3 * card (connections s)"
proof -
  have ok: "within_budget s" by (rule budget.inv_reachable [OF assms])
  then show ?thesis using budget_total [OF ok] by (simp add: within_budget_def)
qed

text \<open>An auth service that refuses every token, and the state after the first attempt of connection 0.\<close>

definition strict_srv :: GatewayServer where
  "strict_srv = dev_srv\<lparr>gs_AuthClient := Some \<lparr>ac_Validate = (\<lambda>_ _. Inl ''refused''), ac_Register = (\<lambda>_ _ _. Inl []),
     ac_Login = (\<lambda>_ _ _. Inl [])\<rparr>\<rparr>"

definition refused0 :: sys where
  "refused0 = do_message 0 (state_of (handle_frame strict_srv 0 env0 (frame (auth_msg ''a'')) (gw accepted0, loc accepted0 0))) accepted0"

lemma refused0_trace: "gw_trace (gw refused0) = [CallValidate ''a'']"
  unfolding refused0_def handle_frame_def unmarshal_auth [OF ascii_words(3)]
  by (simp add: dispatch_def handle_auth_def strict_srv_def dev_srv_def Let_def maxAuthAttempts_def refuse_def
      send_error_def sendJSON_def send_nb_def log_call_def auth_msg_def run_defs)

lemma refused0_step: "gstep strict_srv accepted0 refused0"
  unfolding refused0_def
proof (rule gstep.message [where e = env0 and data = "frame (auth_msg ''a'')"])
  show "order_ok env0 (frame (auth_msg ''a'')) (gw accepted0)"
    using unmarshal_auth [OF ascii_words(3)] by (simp add: order_ok_def) (simp add: auth_msg_def)
  have "rtranclp (id_step strict_srv) start accepted0" using accepted0_step by (rule r_into_rtranclp)
  then have "sys_inv accepted0" by (rule gateway.inv_reachable)
  moreover have "ph accepted0 0 = Reading" by (simp add: run_defs)
  ultimately have "returns (handle_frame strict_srv 0 env0 (frame (auth_msg ''a'')) (gw accepted0, loc accepted0 0))"
    using handle_frame_returns sys_invD(1,2) by blast
  then show "handle_frame strict_srv 0 env0 (frame (auth_msg ''a'')) (gw accepted0, loc accepted0 0) =
      Returns (state_of (handle_frame strict_srv 0 env0 (frame (auth_msg ''a'')) (gw accepted0, loc accepted0 0)))"
    by (auto simp: returns_iff)
qed (simp_all add: run_defs env0_def)

lemma refused0_reachable: "rtranclp (gstep strict_srv) start refused0"
proof -
  have "gstep strict_srv start accepted0" using accepted0_step by (simp add: id_step_def)
  then show ?thesis using refused0_step by simp
qed

theorem auth_calls_bounded_witness:
  "gw_trace (gw refused0) = [CallValidate ''a''] \<and> 1 \<le> 3 * card (connections refused0)"
  using auth_calls_bounded [OF refused0_reachable] refused0_trace by (simp add: validations_def)

end
