(* ===== verification/WholeProcess.thy ===== *)
theory WholeProcess
  imports Serving Presence AuthBudget
begin

text \<open>
  What holds of the connections alone holds of the whole gateway process. An invariant of the goroutines
  that does not look at the sockets and is not broken by the calls of the REST handlers is an invariant
  of the process with its requests, upgrades and shutdown (\<open>process_invariant\<close>); the instances are the
  life cycle of the channels, the presence keys and the calls of the auth service.
\<close>

section \<open>The interface\<close>

lemma entry_calls: "\<not> upgrades o' r \<Longrightarrow> only_calls (x_gw x) (x_gw (state_of (entry o' p c e r x)))"
  unfolding entry_def
  by (rule rest_calls.served) (simp_all add: refused_upgrade_keeps file_handler_keeps rest_calls.bans rest_calls.refl)

locale process_invariant =
  fixes p :: gateway_process
    and I :: "sys \<Rightarrow> bool"
  assumes starts: "I start"
    and moves: "gstep (gp_Server p) s t \<Longrightarrow> I s \<Longrightarrow> I t"
    and requested: "I s \<Longrightarrow> same_tables (gw s) g \<Longrightarrow> only_calls (gw s) g \<Longrightarrow> I (s\<lparr>gw := g\<rparr>)"
begin

lemma process_moves:
  assumes "pstep o' p s t" "I (pr_sys s)"
  shows "I (pr_sys t)"
  using assms(1)
proof cases
  case (goroutine u)
  then show ?thesis using moves assms(2) by simp
next
  case (upgraded k r c)
  then show ?thesis using moves [OF gstep.accept assms(2)] by (simp add: do_upgrade_def)
next
  case (served k r e)
  then show ?thesis
    using requested [OF assms(2)] entry_tables [of o' r "received s" p 0 e] entry_calls [of o' r "received s" p 0 e]
    by (simp add: do_reply_def received_def)
qed (use assms(2) in simp_all)

end

sublocale process_invariant \<subseteq> process: invariant_system boot "pstep o' p" "\<lambda>s. I (pr_sys s)" for o' :: web_outside
  by unfold_locales (simp add: boot_def starts, rule process_moves)

section \<open>Channels\<close>

interpretation closing: process_invariant p alive_open for p :: gateway_process
  by unfold_locales
    (rule lifecycle.inv_start, blast dest: lifecycle_step, simp add: alive_open_def flags_same)

lemma process_phases:
  assumes "pstep o' p s t" "alive_open (pr_sys s)"
  shows "ph (pr_sys s) c \<le> ph (pr_sys t) c"
  using assms(1)
proof cases
  case (goroutine u)
  then show ?thesis using lifecycle_step assms(2) by simp
next
  case (upgraded k r d)
  then show ?thesis by (simp add: do_upgrade_def do_accept_def)
qed (simp_all add: do_reply_def)

lemma process_phases_advance:
  assumes "rtranclp (pstep o' p) s t" "alive_open (pr_sys s)"
  shows "ph (pr_sys s) c \<le> ph (pr_sys t) c"
  using assms
proof (induction rule: rtranclp_induct)
  case (step t u)
  have "alive_open (pr_sys t)" by (rule closing.process.inv_from [OF step.hyps(1) step.prems])
  then show ?case using step process_phases [OF step.hyps(2)] order_trans by blast
qed simp

text \<open>
  C13: a connection goes through its phases in one direction and its channel is closed exactly once. In
  every run of the whole process, whatever is sent and requested, also after a panic and during the
  shutdown, no connection goes back to an earlier phase, a channel is closed if and only if its connection
  has ended, and the deferred \<open>close(sendCh)\<close> of a connection that has not ended cannot panic.
\<close>

theorem process_closes_channels_once:
  assumes "rtranclp (pstep o' p) boot s" "rtranclp (pstep o' p) s t"
  shows "ph (pr_sys s) c \<le> ph (pr_sys t) c
     \<and> (ch_closed (chanH (gw (pr_sys t)) c) \<longleftrightarrow> ph (pr_sys t) c = Ended)
     \<and> (returns (close_chan c (gw (pr_sys t))) \<longleftrightarrow> ph (pr_sys t) c \<noteq> Ended)"
proof -
  have "alive_open (pr_sys s)" by (rule closing.process.inv_reachable [OF assms(1)])
  then have "ph (pr_sys s) c \<le> ph (pr_sys t) c" "alive_open (pr_sys t)"
    using process_phases_advance [OF assms(2)] closing.process.inv_from [OF assms(2)] by blast+
  then show ?thesis by (auto simp: alive_open_def flags_def close_chan_def)
qed

definition left0 :: process where
  "left0 = opened0\<lparr>pr_sys := do_cleanup dev_srv 0 env0 logged0\<rparr>"

lemma pid_runs: "rtranclp (pid_step o' p) s t \<Longrightarrow> rtranclp (pstep o' p) s t"
  by (erule rtranclp_mono [THEN predicate2D, rotated]) (auto simp: pid_step_def)

lemma logged0_run: "rtranclp (pstep no_outside plain_process) boot (opened0\<lparr>pr_sys := logged0\<rparr>)"
  using login_run by (rule pid_runs)

lemma left0_step: "pstep no_outside plain_process (opened0\<lparr>pr_sys := logged0\<rparr>) left0"
proof -
  have "gstep dev_srv logged0 (do_cleanup dev_srv 0 env0 logged0)"
    by (rule gstep.read_error) (simp_all add: run_defs env0_def)
  then have "pstep no_outside plain_process (opened0\<lparr>pr_sys := logged0\<rparr>)
      ((opened0\<lparr>pr_sys := logged0\<rparr>)\<lparr>pr_sys := do_cleanup dev_srv 0 env0 logged0\<rparr>)"
    by (intro pstep.goroutine) (simp_all add: opened0_simps plain_process_def, simp add: run_defs)
  then show ?thesis by (simp add: left0_def)
qed

lemma left0_run: "rtranclp (pstep no_outside plain_process) (opened0\<lparr>pr_sys := logged0\<rparr>) left0"
  by (rule r_into_rtranclp) (rule left0_step)

theorem process_closes_channels_once_witness:
  "ph logged0 0 \<le> ph (pr_sys left0) 0 \<and> ph logged0 0 < Draining \<and> returns (close_chan 0 (gw (pr_sys left0)))"
  using process_closes_channels_once [OF logged0_run left0_run, of 0]
  by (simp add: less_phase_def left0_def) (simp add: run_defs)

section \<open>Frames\<close>

interpretation typing: process_invariant p wire_typed for p :: gateway_process
  by unfold_locales
    (rule wire.inv_start, erule (1) wire.inv_step [rotated], simp add: wire_typed_def frames_typed_def only_calls_def)

text \<open>
  C14: everything a client ever receives is a message of the protocol. In every state the whole process
  can reach, whatever the clients sent and requested and the services and the store answered, each frame
  written to a socket or queued for one is the text of a JSON object whose \<open>type\<close> is one of the nine
  documented types; ill-formed bytes in names and texts never spoil it.
\<close>

theorem process_frames_are_typed:
  assumes "rtranclp (pstep o' p) boot s" "b \<in> set (written (pr_sys s) c) \<or> b \<in> set (ch_buf (chanH (gw (pr_sys s)) c))"
  shows "\<exists>fs t. parse_json b = Some (JObj fs) \<and> map_of fs ''type'' = Some (JStr t)
     \<and> t \<in> {''authed'', ''joined'', ''left'', ''message'', ''private'', ''history'', ''ack'', ''pong'', ''error''}"
proof -
  have "typed_frame b"
    using typing.process.inv_reachable [OF assms(1)] assms(2) by (auto simp: wire_typed_def frames_typed_def)
  then show ?thesis unfolding typed_frame_def frame_types_def by simp
qed

theorem process_frames_are_typed_witness:
  "\<exists>fs t. parse_json (marshal (authed_payload ''a'')) = Some (JObj fs) \<and> map_of fs ''type'' = Some (JStr t)
     \<and> t \<in> {''authed'', ''joined'', ''left'', ''message'', ''private'', ''history'', ''ack'', ''pong'', ''error''}"
proof (rule process_frames_are_typed [OF logged0_run])
  show "marshal (authed_payload ''a'') \<in> set (written (pr_sys (opened0\<lparr>pr_sys := logged0\<rparr>)) 0)
     \<or> marshal (authed_payload ''a'') \<in> set (ch_buf (chanH (gw (pr_sys (opened0\<lparr>pr_sys := logged0\<rparr>))) 0))"
    by (simp add: run_defs)
qed

interpretation bounding: process_invariant p chans_bounded for p :: gateway_process
  by unfold_locales
    (rule channels.inv_start, erule (1) chans_bounded_step, simp add: chans_bounded_def only_calls_def)

lemma process_stream_step:
  assumes "pstep o' p s t" "ph (pr_sys s) c \<noteq> Fresh"
  shows "stream_kept c (pr_sys s) (pr_sys t)"
  using assms(1)
proof cases
  case (goroutine u)
  then show ?thesis using stream_kept_step assms(2) by simp
next
  case (upgraded k r d)
  then show ?thesis using stream_kept_step [OF gstep.accept assms(2)] by (simp add: do_upgrade_def)
next
  case (served k r e)
  then show ?thesis
    using entry_calls [OF served(4), of "received s" p 0 e] assms(2)
    by (auto simp: stream_kept_def stream_def only_calls_def received_def do_reply_def)
qed (use assms(2) in \<open>simp_all add: stream_kept_def\<close>)

lemma process_stream:
  "rtranclp (pstep o' p) s t \<Longrightarrow> ph (pr_sys s) c \<noteq> Fresh \<Longrightarrow> stream_kept c (pr_sys s) (pr_sys t)"
proof (induction rule: rtranclp_induct)
  case base
  then show ?case by (simp add: stream_kept_def)
next
  case (step t u)
  then have "stream_kept c (pr_sys s) (pr_sys t)" by simp
  then show ?case
    using process_stream_step [OF step.hyps(2), of c] stream_kept_trans by (auto simp: stream_kept_def)
qed

text \<open>
  C12: a connection's frames reach its socket in the order in which they were queued, none twice and
  none left out, as long as its write goroutine runs: in every run of the whole process, what had been
  written and queued at one moment stays the beginning of what is written and queued at any later one. A
  queue never holds more than 256 frames.
\<close>

theorem process_writes_in_order:
  assumes "rtranclp (pstep o' p) boot s" "rtranclp (pstep o' p) s t" "ph (pr_sys s) c \<noteq> Fresh" "writerUp (pr_sys t) c"
  shows "\<exists>bs. written (pr_sys t) c @ ch_buf (chanH (gw (pr_sys t)) c)
         = (written (pr_sys s) c @ ch_buf (chanH (gw (pr_sys s)) c)) @ bs
       \<and> length (ch_buf (chanH (gw (pr_sys t)) c)) \<le> 256"
proof -
  have "chans_bounded (pr_sys t)"
    by (rule bounding.process.inv_reachable [OF rtranclp_trans [OF assms(1,2)]])
  then show ?thesis
    using process_stream [OF assms(2,3)] assms(4)
    by (auto simp: stream_kept_def stream_def chans_bounded_def sendCap_def)
qed

lemma opened0_logged0_run:
  "rtranclp (pstep no_outside plain_process) boot opened0"
  "rtranclp (pstep no_outside plain_process) opened0 (opened0\<lparr>pr_sys := logged0\<rparr>)"
  using opened0_pid_run logged0_pid_step pid_runs by (blast intro: r_into_rtranclp)+

theorem process_writes_in_order_witness:
  "\<exists>bs. written logged0 0 @ ch_buf (chanH (gw logged0) 0) =
       (written accepted0 0 @ ch_buf (chanH (gw accepted0) 0)) @ bs
     \<and> length (ch_buf (chanH (gw logged0) 0)) \<le> 256"
  using process_writes_in_order [OF opened0_logged0_run, of 0] by (simp add: opened0_simps) (simp add: run_defs)

section \<open>The calls of the auth service\<close>

lemma rest_validations: "only_calls s t \<Longrightarrow> validations (gw_trace t) = validations (gw_trace s)"
  by (auto simp: only_calls_def validations_def list_all_iff filter_empty_conv) (metis rest_call.simps(9))

interpretation budgets: process_invariant p within_budget for p :: gateway_process
  by unfold_locales
    (rule budget.inv_start, erule (1) budget.inv_step [rotated], simp add: within_budget_def connections_def rest_validations)

text \<open>
  C31: the clients cannot flood the auth service with tokens. In every run of the whole process, with any
  number of connections and any requests beside them, the number of calls of \<open>Validate\<close> is at most three
  times the number of connections that have ever been upgraded: no connection gets a fourth, however many
  \<open>auth\<close> messages it sends and however it fares with them, and no request makes one.
\<close>

theorem process_validates_at_most_thrice:
  assumes "rtranclp (pstep o' p) boot s"
  shows "finite (connections (pr_sys s)) \<and> validations (gw_trace (gw (pr_sys s))) \<le> 3 * card (connections (pr_sys s))"
proof -
  have ok: "within_budget (pr_sys s)" by (rule budgets.process.inv_reachable [OF assms])
  then show ?thesis using budget_total [OF ok] by (simp add: within_budget_def)
qed

definition strict_process :: gateway_process where
  "strict_process = plain_process\<lparr>gp_Server := strict_srv\<rparr>"

lemma refused0_run: "rtranclp (pstep no_outside strict_process) boot (opened0\<lparr>pr_sys := refused0\<rparr>)"
proof -
  have "pstep no_outside strict_process opened0 (opened0\<lparr>pr_sys := refused0\<rparr>)"
    using refused0_step by (intro pstep.goroutine) (simp_all add: opened0_simps strict_process_def, simp add: refused0_def run_defs do_message_def)
  then show ?thesis using opened0_run [of strict_process] by (meson rtranclp.rtrancl_into_rtrancl rtranclp.rtrancl_refl)
qed

theorem process_validates_at_most_thrice_witness:
  "gw_trace (gw refused0) = [CallValidate ''a''] \<and> 1 \<le> 3 * card (connections refused0)"
  using process_validates_at_most_thrice [OF refused0_run] refused0_trace by (simp add: validations_def)

section \<open>Presence\<close>

lemma rest_present: "list_all rest_call ks \<Longrightarrow> present (h @ ks) = present h"
proof (induction ks arbitrary: h)
  case (Cons k ks)
  have "present (h @ [k]) = present h" using Cons.prems by (cases k) (simp_all add: present_def)
  then show ?case using Cons.IH [of "h @ [k]"] Cons.prems by simp
qed simp

lemma mirror_requested: "mirrored s \<Longrightarrow> same_tables (gw s) g \<Longrightarrow> only_calls (gw s) g \<Longrightarrow> mirrored (s\<lparr>gw := g\<rparr>)"
  by (auto simp: mirrored_def mirror_def alive_open_def flags_same only_calls_def rest_present online_same)

interpretation mirrors: process_invariant p "\<lambda>s. gs_Redis (gp_Server p) \<noteq> None \<longrightarrow> mirrored s" for p :: gateway_process
  by unfold_locales (use mirror_start mirror_step mirror_requested in blast)+

lemma process_mirror:
  assumes "rtranclp (pstep o' p) boot s" "gs_Redis (gp_Server p) \<noteq> None"
  shows "present (gw_trace (gw (pr_sys s))) = dom (onlineUsers (gw (pr_sys s)))"
  using mirrors.process.inv_reachable [OF assms(1)] assms(2) by (simp add: mirrored_def mirror_def)

section \<open>Messages\<close>

interpretation names: process_invariant p pending_named for p :: gateway_process
  by unfold_locales (rule naming.inv_start, erule (1) pending_named_step, simp add: pending_named_def only_calls_def)

lemma rest_inserted: "list_all rest_call ks \<Longrightarrow> inserted ks = []"
proof (induction ks)
  case (Cons k ks)
  then show ?case by (cases k) simp_all
qed simp

lemma conserves_books: "ledger g = ledger (gw s) \<Longrightarrow> inserted (gw_trace g) = inserted (gw_trace (gw s)) \<Longrightarrow> conserves s g"
  by (simp add: conserves_def)

lemma only_calls_conserves: "only_calls (gw s) g \<Longrightarrow> conserves s g"
  by (rule conserves_books) (auto simp: only_calls_def ledger_def rest_inserted inserted_append)

text \<open>
  C20: no message is stored twice, altered on its way to the store, or stored in another user's name.
  In every run of the whole process the pending and the inserted messages together are changed by one
  kind of step only: a connection that has authenticated sends a \<open>send\<close> or \<open>private\<close> message, and exactly
  one message is added, with the user ID of that connection as its sender. A save moves one message
  from the pending to the inserted ones, nothing is ever taken back, and no request touches the books.
\<close>

theorem process_conserves_messages:
  assumes "rtranclp (pstep o' p) boot s" "pstep o' p s t"
  shows "(ledger (gw (pr_sys t)) = ledger (gw (pr_sys s))
      \<or> (\<exists>c e data m r cm. ph (pr_sys s) c = Reading \<and> me (loc (pr_sys s) c) = Some r \<and> unmarshal_WSMsg data = Some m
           \<and> authored (c_UserID (clientH (gw (pr_sys s)) r)) m e cm \<and> cm_From cm = c_UserID (clientH (gw (pr_sys s)) r)
           \<and> ledger (gw (pr_sys t)) = add_mset cm (ledger (gw (pr_sys s)))))
     \<and> (\<exists>new. inserted (gw_trace (gw (pr_sys t))) = inserted (gw_trace (gw (pr_sys s))) @ new
          \<and> set new \<subseteq> set (saves (gw (pr_sys s))))"
proof -
  have named: "pending_named (pr_sys s)" by (rule names.process.inv_reachable [OF assms(1)])
  from assms(2) have "conserves (pr_sys s) (gw (pr_sys t))"
  proof cases
    case (goroutine u)
    then show ?thesis using step_conserves [OF _ named] by simp
  next
    case (upgraded k r c)
    then show ?thesis using step_conserves [OF gstep.accept named] by (simp add: do_upgrade_def)
  next
    case (served k r e)
    then show ?thesis
      using entry_calls [OF served(4), of "received s" p 0 e] only_calls_conserves by (simp add: received_def do_reply_def)
  qed (auto intro: conserves_books)
  then show ?thesis unfolding conserves_def .
qed

definition query_process :: gateway_process where
  "query_process = plain_process\<lparr>gp_Server := query_down\<rparr>"

abbreviation writer_at :: process where
  "writer_at \<equiv> opened0\<lparr>pr_sys := do_message 0 writer_in accepted0\<rparr>"

lemma note_process_run:
  "rtranclp (pstep no_outside query_process) boot writer_at"
  "pstep no_outside query_process writer_at (writer_at\<lparr>pr_sys := do_message 0 note_sent (do_message 0 writer_in accepted0)\<rparr>)"
proof -
  have "pstep no_outside query_process opened0 writer_at"
    using writer_in_gstep by (intro pstep.goroutine) (simp_all add: opened0_simps query_process_def, simp add: do_message_def run_defs)
  then show "rtranclp (pstep no_outside query_process) boot writer_at"
    using opened0_run [of query_process] by (meson rtranclp.rtrancl_into_rtrancl rtranclp.rtrancl_refl)
  show "pstep no_outside query_process writer_at (writer_at\<lparr>pr_sys := do_message 0 note_sent (do_message 0 writer_in accepted0)\<rparr>)"
    using note_run(2) by (intro pstep.goroutine) (simp_all add: opened0_simps query_process_def, simp add: do_message_def run_defs)
qed

theorem process_conserves_messages_witness:
  "ledger (fst writer_in) = {#} \<and> ledger (fst note_sent) = {#private_message ''a'' (private_msg ''b'' ''c'') env0 False#}
   \<and> (\<exists>c e data m r cm. ph accepted0 c = Reading \<and> unmarshal_WSMsg data = Some m
        \<and> authored (c_UserID (clientH (fst writer_in) r)) m e cm \<and> cm_From cm = c_UserID (clientH (fst writer_in) r)
        \<and> ledger (fst note_sent) = add_mset cm (ledger (fst writer_in)))"
proof -
  have "ledger (fst writer_in) = {#}"
    "ledger (fst note_sent) = {#private_message ''a'' (private_msg ''b'' ''c'') env0 False#}"
    by (simp_all add: ledger_def note_sent_def writer_in_def run_defs)
  then show ?thesis
    using process_conserves_messages [OF note_process_run] by (fastforce simp: do_message_def split: if_splits)
qed

section \<open>The chat\<close>

text \<open>A step of the process is an event of the chat: one of the goroutines, or none.\<close>

lemma reply_keeps_chat:
  assumes "\<not> upgrades o' r"
  shows "chat_of (pr_sys (do_reply k (entry o' p 0 e r (received s)) s)) = chat_of (pr_sys s)"
proof -
  let ?t = "pr_sys (do_reply k (entry o' p 0 e r (received s)) s)"
  have same: "same_tables (gw (pr_sys s)) (gw ?t)" "ph ?t = ph (pr_sys s)" "loc ?t = loc (pr_sys s)"
    using entry_tables [OF assms, of "received s" p 0 e] by (simp_all add: received_def do_reply_def)
  show ?thesis by (rule chat_same [OF same(1) owner_same [OF same]])
qed

lemma process_chat_step:
  assumes inv: "sys_inv (pr_sys s)" and step: "pid_step o' p s t"
  shows "\<exists>ev. enabled ev (chat_of (pr_sys s)) \<and> chat_of (pr_sys t) = perform ev (chat_of (pr_sys s))"
proof -
  have quiet: ?thesis if "chat_of (pr_sys t) = chat_of (pr_sys s)" using that by (intro exI [of _ Quiet]) simp
  have "pstep o' p s t" and ids: "keeps_ids (pr_sys s) (pr_sys t)" using step by (simp_all add: pid_step_def)
  then show ?thesis
  proof cases
    case (goroutine u)
    then have "id_step (gp_Server p) (pr_sys s) (pr_sys t)" using ids by (simp add: id_step_def)
    then show ?thesis by (rule chat_step [OF inv])
  next
    case (upgraded k r c)
    then have "id_step (gp_Server p) (pr_sys s) (pr_sys t)"
      using ids gstep.accept [OF upgraded(5)] by (simp add: id_step_def do_upgrade_def)
    then show ?thesis by (rule chat_step [OF inv])
  next
    case (served k r e)
    show ?thesis by (rule quiet) (simp add: served(1) reply_keeps_chat [OF served(4)])
  qed (rule quiet, simp)+
qed

interpretation process_chat: simulation boot "pid_step o' p" "\<lambda>s. sys_inv (pr_sys s)" "\<lambda>s. chat_of (pr_sys s)"
  for o' :: web_outside and p :: gateway_process
  by unfold_locales (simp add: boot_def chat_start, rule process_chat_step)



end
