(* ===== verification/Heartbeat.thy ===== *)
theory Heartbeat
  imports Lifecycle
begin

text \<open>
  The clocks of \<open>HandleWS\<close>: the read deadline, which only the pong handler moves, the ping goroutine
  with its ticker, and the wait for the write goroutine at the end. A timed state is a state of the
  gateway with a clock; a timed step is a step of the gateway, a step of the ping goroutine, a pong, or
  time that passes. Time does not pass a moment at which some goroutine has to act: \<open>ReadMessage\<close>
  returns when its deadline is over, a tick is taken when it is due, and the final \<open>select\<close> returns
  after 12 seconds or as soon as the write goroutine is gone. A message, a write and a call of a service
  take no time, so the bounds below are those of the waiting times alone.
\<close>

section \<open>Timed states and steps\<close>

definition seconds :: "int \<Rightarrow> time_ns" where
  "seconds n = n * 1000000000"

text \<open>The durations in \<open>HandleWS\<close>: the read deadline, the period of the ticker and the final wait.\<close>

definition readWait :: time_ns where "readWait = seconds 60"
definition pingPeriod :: time_ns where "pingPeriod = seconds 30"
definition drainWait :: time_ns where "drainWait = seconds 12"

text \<open>
  Per connection: the deadline, whether the ping goroutine runs and its next tick, the start of the
  final wait, and, for what follows, when the connection was accepted, the pings written, the pongs
  read, and whether a write of the write goroutine has failed.
\<close>

record timed =
  core :: sys
  clock :: time_ns
  deadline :: "nat \<Rightarrow> time_ns"
  ticking :: "nat \<Rightarrow> bool"
  nextTick :: "nat \<Rightarrow> time_ns"
  waiting :: "nat \<Rightarrow> time_ns"
  opened :: "nat \<Rightarrow> time_ns"
  pings :: "nat \<Rightarrow> time_ns list"
  pongs :: "nat \<Rightarrow> time_ns list"
  failed :: "nat \<Rightarrow> bool"

definition tstart :: "time_ns \<Rightarrow> timed" where
  "tstart t0 = \<lparr>core = start, clock = t0, deadline = (\<lambda>_. t0), ticking = (\<lambda>_. False), nextTick = (\<lambda>_. t0),
     waiting = (\<lambda>_. t0), opened = (\<lambda>_. t0), pings = (\<lambda>_. []), pongs = (\<lambda>_. []), failed = (\<lambda>_. False)\<rparr>"

definition do_connect :: "nat \<Rightarrow> timed \<Rightarrow> timed" where
  "do_connect c s =
     s\<lparr>core := do_accept c (core s), deadline := (deadline s)(c := clock s + readWait),
       ticking := (ticking s)(c := True), nextTick := (nextTick s)(c := clock s + pingPeriod),
       opened := (opened s)(c := clock s), pings := (pings s)(c := []), pongs := (pongs s)(c := []),
       failed := (failed s)(c := False)\<rparr>"

text \<open>The pong handler.\<close>

definition do_pong :: "nat \<Rightarrow> timed \<Rightarrow> timed" where
  "do_pong c s =
     s\<lparr>deadline := (deadline s)(c := clock s + readWait), pongs := (pongs s)(c := pongs s c @ [clock s])\<rparr>"

definition do_ping :: "nat \<Rightarrow> timed \<Rightarrow> timed" where
  "do_ping c s =
     s\<lparr>pings := (pings s)(c := pings s c @ [clock s]), nextTick := (nextTick s)(c := nextTick s c + pingPeriod)\<rparr>"

text \<open>The read loop is left: \<open>close(pingDone)\<close>, the cleanup, and the wait begins.\<close>

definition do_hangup :: "GatewayServer \<Rightarrow> nat \<Rightarrow> ws_env \<Rightarrow> timed \<Rightarrow> timed" where
  "do_hangup srv c e s =
     s\<lparr>core := do_cleanup srv c e (core s), ticking := (ticking s)(c := False),
       waiting := (waiting s)(c := clock s)\<rparr>"

text \<open>Nobody has to act before \<open>t\<close>.\<close>

definition may_wait :: "time_ns \<Rightarrow> timed \<Rightarrow> bool" where
  "may_wait t s \<longleftrightarrow>
     (\<forall>c. (ph (core s) c = Reading \<longrightarrow> t \<le> deadline s c) \<and> (ticking s c \<longrightarrow> t \<le> nextTick s c)
        \<and> (ph (core s) c = Draining \<longrightarrow> writerUp (core s) c \<and> t \<le> waiting s c + drainWait))"

inductive tstep :: "GatewayServer \<Rightarrow> timed \<Rightarrow> timed \<Rightarrow> bool" for srv :: GatewayServer where
  connect: "ph (core s) c = Fresh \<Longrightarrow> tstep srv s (do_connect c s)"
| receive: "ph (core s) c = Reading \<Longrightarrow> clock s \<le> deadline s c \<Longrightarrow> e_rnd e < 10000 \<Longrightarrow>
    order_ok e data (gw (core s)) \<Longrightarrow> handle_frame srv c e data (gw (core s), loc (core s) c) = Returns gl \<Longrightarrow>
    tstep srv s (s\<lparr>core := do_message c gl (core s)\<rparr>)"
| handler_panic: "ph (core s) c = Reading \<Longrightarrow> clock s \<le> deadline s c \<Longrightarrow> e_rnd e < 10000 \<Longrightarrow>
    order_ok e data (gw (core s)) \<Longrightarrow> handle_frame srv c e data (gw (core s), loc (core s) c) = Panics (g, l) \<Longrightarrow>
    tstep srv s (s\<lparr>core := do_end c g (core s)\<rparr>)"
| pong: "ph (core s) c = Reading \<Longrightarrow> clock s \<le> deadline s c \<Longrightarrow> tstep srv s (do_pong c s)"
| hangup: "ph (core s) c = Reading \<Longrightarrow> range_order (rooms (gw (core s))) (e_ord e) \<Longrightarrow>
    tstep srv s (do_hangup srv c e s)"
| drained: "ph (core s) c = Draining \<Longrightarrow> \<not> writerUp (core s) c \<or> waiting s c + drainWait \<le> clock s \<Longrightarrow>
    tstep srv s (s\<lparr>core := do_end c (gw (core s)) (core s)\<rparr>)"
| ping: "ticking s c \<Longrightarrow> nextTick s c \<le> clock s \<Longrightarrow> \<not> wsClosed (gw (core s)) c \<Longrightarrow> tstep srv s (do_ping c s)"
| ping_error: "ticking s c \<Longrightarrow> nextTick s c \<le> clock s \<Longrightarrow>
    tstep srv s (s\<lparr>ticking := (ticking s)(c := False)\<rparr>)"
| conn_write: "writerUp (core s) c \<Longrightarrow> recv_chan c (gw (core s)) = Some (b, g) \<Longrightarrow>
    tstep srv s (s\<lparr>core := (core s)\<lparr>gw := g, written := (written (core s))(c := written (core s) c @ [b])\<rparr>\<rparr>)"
| conn_write_error: "writerUp (core s) c \<Longrightarrow> recv_chan c (gw (core s)) = Some (b, g) \<Longrightarrow>
    tstep srv s (s\<lparr>core := (core s)\<lparr>gw := g, writerUp := (writerUp (core s))(c := False)\<rparr>, failed := (failed s)(c := True)\<rparr>)"
| writer_end: "writerUp (core s) c \<Longrightarrow> recv_chan c (gw (core s)) = None \<Longrightarrow> ch_closed (chanH (gw (core s)) c) \<Longrightarrow>
    tstep srv s (s\<lparr>core := (core s)\<lparr>writerUp := (writerUp (core s))(c := False)\<rparr>\<rparr>)"
| save: "gs_Mongo srv = Some ms \<Longrightarrow> cm \<in> set (saves (gw (core s))) \<Longrightarrow>
    tstep srv s (s\<lparr>core := (core s)\<lparr>gw := run_save ms t cm (gw (core s))\<rparr>\<rparr>)"
| disconnect: "tstep srv s (s\<lparr>core := (core s)\<lparr>gw := disconnectUser uid (gw (core s))\<rparr>\<rparr>)"
| elapse: "clock s < t \<Longrightarrow> may_wait t s \<Longrightarrow> tstep srv s (s\<lparr>clock := t\<rparr>)"

definition timed_id_step :: "GatewayServer \<Rightarrow> timed \<Rightarrow> timed \<Rightarrow> bool" where
  "timed_id_step srv s t \<longleftrightarrow> tstep srv s t \<and> keeps_ids (core s) (core t)"

lemmas do_timed_defs = do_connect_def do_pong_def do_ping_def do_hangup_def

section \<open>A timed run is a run\<close>

lemma timed_step_core: "tstep srv s t \<Longrightarrow> core t = core s \<or> gstep srv (core s) (core t)"
  by (induction rule: tstep.induct) (auto simp: do_timed_defs intro: gstep.intros)

lemma timed_run_core: "rtranclp (tstep srv) s t \<Longrightarrow> rtranclp (gstep srv) (core s) (core t)"
proof (induction rule: rtranclp_induct)
  case base
  show ?case by simp
next
  case (step t u)
  then show ?case using timed_step_core [OF step.hyps(2)] rtranclp.rtrancl_into_rtrancl by metis
qed

lemma timed_id_run_core: "rtranclp (timed_id_step srv) s t \<Longrightarrow> rtranclp (id_step srv) (core s) (core t)"
proof (induction rule: rtranclp_induct)
  case base
  show ?case by simp
next
  case (step t u)
  then have "core u = core t \<or> id_step srv (core t) (core u)"
    using timed_step_core by (auto simp: timed_id_step_def id_step_def)
  then show ?case using step.IH rtranclp.rtrancl_into_rtrancl by metis
qed

lemma timed_id_run: "rtranclp (timed_id_step srv) s t \<Longrightarrow> rtranclp (tstep srv) s t"
  by (induction rule: rtranclp_induct) (auto simp: timed_id_step_def intro: rtranclp.rtrancl_into_rtrancl)

section \<open>The invariant of the clocks\<close>

text \<open>Of a connection in its read loop, of its ping goroutine, and of one that waits for its writer.\<close>

definition reading_ok :: "timed \<Rightarrow> nat \<Rightarrow> bool" where
  "reading_ok s c \<longleftrightarrow> clock s \<le> deadline s c
     \<and> deadline s c = last (opened s c # pongs s c) + readWait
     \<and> (\<forall>q \<in> set (opened s c # pongs s c). q \<le> clock s \<and> q + readWait \<le> deadline s c)"

definition tick_times :: "time_ns \<Rightarrow> nat \<Rightarrow> time_ns list" where
  "tick_times t n = map (\<lambda>k. t + (int k + 1) * pingPeriod) [0..<n]"

definition ticking_ok :: "timed \<Rightarrow> nat \<Rightarrow> bool" where
  "ticking_ok s c \<longleftrightarrow> clock s \<le> nextTick s c \<and> nextTick s c - pingPeriod \<le> clock s
     \<and> pings s c = tick_times (opened s c) (length (pings s c))
     \<and> nextTick s c = opened s c + (int (length (pings s c)) + 1) * pingPeriod"

definition waiting_ok :: "timed \<Rightarrow> nat \<Rightarrow> bool" where
  "waiting_ok s c \<longleftrightarrow> waiting s c \<le> clock s \<and> clock s \<le> waiting s c + drainWait"

definition conn_ok :: "timed \<Rightarrow> nat \<Rightarrow> bool" where
  "conn_ok s c \<longleftrightarrow> (ph (core s) c = Reading \<longrightarrow> reading_ok s c)
     \<and> (ticking s c \<longrightarrow> ticking_ok s c)
     \<and> (ph (core s) c = Draining \<longrightarrow> waiting_ok s c)
     \<and> ((ph (core s) c = Reading \<or> ph (core s) c = Draining) \<and> \<not> failed s c \<longrightarrow> writerUp (core s) c)"

definition clocks_ok :: "timed \<Rightarrow> bool" where
  "clocks_ok s \<longleftrightarrow> alive_open (core s) \<and> (\<forall>c. conn_ok s c)"

lemma conn_okD:
  assumes "conn_ok s c"
  shows "ph (core s) c = Reading \<Longrightarrow> reading_ok s c" "ticking s c \<Longrightarrow> ticking_ok s c"
    "ph (core s) c = Draining \<Longrightarrow> waiting_ok s c"
    "ph (core s) c = Reading \<or> ph (core s) c = Draining \<Longrightarrow> \<not> failed s c \<Longrightarrow> writerUp (core s) c"
  using assms by (auto simp: conn_ok_def)

definition timers :: "timed \<Rightarrow> nat \<Rightarrow> time_ns \<times> time_ns \<times> bool \<times> time_ns \<times> time_ns \<times> time_ns \<times> time_ns list \<times> time_ns list \<times> bool" where
  "timers s c = (clock s, deadline s c, ticking s c, nextTick s c, waiting s c, opened s c, pings s c, pongs s c, failed s c)"

lemmas ok_defs = reading_ok_def ticking_ok_def waiting_ok_def

lemma ok_timers:
  assumes "timers t c = timers s c"
  shows "reading_ok t c = reading_ok s c" "ticking_ok t c = ticking_ok s c" "waiting_ok t c = waiting_ok s c"
    "ticking t c = ticking s c" "failed t c = failed s c"
  using assms by (simp_all add: ok_defs timers_def)

lemma conn_ok_same:
  assumes "conn_ok s c" "timers t c = timers s c" "ph (core t) c = ph (core s) c" "writerUp (core t) c = writerUp (core s) c"
  shows "conn_ok t c"
  using assms(1,3,4) unfolding conn_ok_def ok_timers [OF assms(2)] by simp

lemma conn_ok_over:
  assumes "conn_ok s c" "timers t c = timers s c" "ph (core t) c = Ended"
  shows "conn_ok t c"
  using assms(1,3) unfolding conn_ok_def ok_timers [OF assms(2)] by simp

lemma tick_times_Suc: "tick_times t (Suc n) = tick_times t n @ [t + (int n + 1) * pingPeriod]"
  by (simp add: tick_times_def)

lemma durations: "0 < pingPeriod" "0 < drainWait" "readWait = 2 * pingPeriod"
  by (simp_all add: pingPeriod_def drainWait_def readWait_def seconds_def)

lemma conn_ok_connect: "conn_ok (do_connect c s) c"
  using durations by (simp add: conn_ok_def ok_defs do_connect_def do_accept_def tick_times_def)

lemma conn_ok_pong: "conn_ok s c \<Longrightarrow> clock s \<le> deadline s c \<Longrightarrow> conn_ok (do_pong c s) c"
  using durations by (auto simp: conn_ok_def ok_defs do_pong_def)

lemma conn_ok_ping:
  assumes "conn_ok s c" "ticking s c" "nextTick s c \<le> clock s"
  shows "conn_ok (do_ping c s) c"
proof -
  have "clock s = nextTick s c" "ticking_ok s c" using assms by (auto simp: conn_ok_def ticking_ok_def)
  then have "ticking_ok (do_ping c s) c"
    using durations(1) by (auto simp: ticking_ok_def do_ping_def tick_times_Suc algebra_simps)
  moreover have "reading_ok (do_ping c s) c = reading_ok s c" "waiting_ok (do_ping c s) c = waiting_ok s c"
    by (simp_all add: ok_defs do_ping_def)
  ultimately show ?thesis using assms(1) by (simp add: conn_ok_def) (simp add: do_ping_def)
qed

lemma conn_ok_hangup: "conn_ok s c \<Longrightarrow> ph (core s) c = Reading \<Longrightarrow> conn_ok (do_hangup srv c e s) c"
  using durations(2) by (auto simp: conn_ok_def ok_defs do_hangup_def do_cleanup_def)

lemma conn_ok_elapse:
  assumes "conn_ok s c" "clock s < t" "may_wait t s"
  shows "conn_ok (s\<lparr>clock := t\<rparr>) c"
  using assms by (fastforce simp: conn_ok_def ok_defs may_wait_def)

lemma conn_ok_ping_error: "conn_ok s c \<Longrightarrow> conn_ok (s\<lparr>ticking := (ticking s)(c := False)\<rparr>) c"
proof -
  let ?t = "s\<lparr>ticking := (ticking s)(c := False)\<rparr>"
  have "reading_ok ?t c = reading_ok s c" "waiting_ok ?t c = waiting_ok s c" by (simp_all add: ok_defs)
  then show "conn_ok s c \<Longrightarrow> conn_ok ?t c" by (simp add: conn_ok_def)
qed

lemma clocks_step:
  assumes "tstep srv s t" "clocks_ok s"
  shows "clocks_ok t"
proof -
  have ok: "conn_ok s d" for d using assms(2) by (simp add: clocks_ok_def)
  have alive: "alive_open (core s)" using assms(2) by (simp add: clocks_ok_def)
  have all: "conn_ok t d" if "conn_ok t c" "\<And>d. d \<noteq> c \<Longrightarrow> timers t d = timers s d"
      "\<And>d. d \<noteq> c \<Longrightarrow> ph (core t) d = ph (core s) d" "\<And>d. d \<noteq> c \<Longrightarrow> writerUp (core t) d = writerUp (core s) d" for c d
    using that(1) conn_ok_same [OF ok that(2-4), of d] by (cases "d = c") blast+
  have same: "conn_ok t d" if "timers t = timers s" "ph (core t) = ph (core s)" "writerUp (core t) = writerUp (core s)" for d
    by (rule conn_ok_same [OF ok]) (simp_all only: that)
  from assms(1) have "conn_ok t d" for d
  proof cases
    case (connect c)
    then show ?thesis by - (rule all [of c], auto simp: conn_ok_connect, auto simp: do_connect_def do_accept_def timers_def)
  next
    case (receive c e data gl)
    then show ?thesis by (intro same) (auto simp: timers_def do_message_def fun_eq_iff)
  next
    case (handler_panic c e data g l)
    have "conn_ok t c" using handler_panic(1) by (intro conn_ok_over [OF ok]) (simp_all add: timers_def do_end_def)
    then show ?thesis using handler_panic(1) by - (rule all [of c], auto simp: timers_def do_end_def)
  next
    case (pong c)
    then show ?thesis by - (rule all [of c], auto simp: conn_ok_pong ok, auto simp: do_pong_def timers_def)
  next
    case (hangup c e)
    then show ?thesis
      by - (rule all [of c], auto simp: conn_ok_hangup ok, auto simp: do_hangup_def do_cleanup_def timers_def)
  next
    case (drained c)
    have "conn_ok t c" using drained(1) by (intro conn_ok_over [OF ok]) (simp_all add: timers_def do_end_def)
    then show ?thesis using drained(1) by - (rule all [of c], auto simp: timers_def do_end_def)
  next
    case (ping c)
    then show ?thesis by - (rule all [of c], auto simp: conn_ok_ping ok, auto simp: do_ping_def timers_def)
  next
    case (ping_error c)
    then show ?thesis by - (rule all [of c], auto simp: conn_ok_ping_error ok, auto simp: timers_def)
  next
    case (conn_write c b g)
    then show ?thesis by (intro same) (auto simp: timers_def fun_eq_iff)
  next
    case (conn_write_error c b g)
    have "conn_ok t c" using ok [of c] conn_write_error(1) by (auto simp: conn_ok_def ok_defs)
    then show ?thesis using conn_write_error(1) by - (rule all [of c], auto simp: timers_def)
  next
    case (writer_end c)
    then have "ph (core s) c = Ended" using alive by (simp add: alive_open_def flags_def)
    then have "conn_ok t c" using writer_end(1) by (intro conn_ok_over [OF ok]) (simp_all add: timers_def)
    then show ?thesis using writer_end(1) by - (rule all [of c], auto simp: timers_def)
  next
    case (save ms cm now)
    then show ?thesis by (intro same) (auto simp: timers_def fun_eq_iff)
  next
    case (disconnect uid)
    then show ?thesis by (intro same) (auto simp: timers_def fun_eq_iff)
  next
    case (elapse t')
    then show ?thesis using conn_ok_elapse [OF ok] by simp
  qed
  moreover have "alive_open (core t)"
    using timed_step_core [OF assms(1)] alive lifecycle.inv_step by metis
  ultimately show ?thesis by (simp add: clocks_ok_def)
qed

interpretation clocked: invariant_system "tstart t0" "tstep srv" clocks_ok
  for t0 :: time_ns and srv :: GatewayServer
proof unfold_locales
  show "clocks_ok (tstart t0)"
    using lifecycle.inv_reachable [of srv start]
    by (simp add: clocks_ok_def conn_ok_def tstart_def) (simp add: start_def)
qed (rule clocks_step)

end
