(* ===== verification/HeartbeatProperties.thy ===== *)
theory HeartbeatProperties
  imports Heartbeat
begin

text \<open>
  What the deadlines and the pings of \<open>HandleWS\<close> achieve: how long a client that has gone away can be
  taken for online, which clients are never dropped, and what the wait for the write goroutine costs.
\<close>

lemma clocks_reachable:
  assumes "rtranclp (tstep srv) (tstart t0) s"
  shows "clocks_ok s" "conn_ok s c"
  using clocked.inv_reachable [OF assms] by (auto simp: clocks_ok_def)

section \<open>A run for the witnesses\<close>

text \<open>Connection 0 is accepted, logs in, is pinged after 30 seconds, and answers.\<close>

definition idle0 :: timed where
  "idle0 = (do_connect 0 (tstart 0))\<lparr>core := logged0, clock := seconds 30\<rparr>"

definition answered0 :: timed where
  "answered0 = do_pong 0 (do_ping 0 idle0)"

lemma connect0_step: "timed_id_step srv (tstart 0) (do_connect 0 (tstart 0))"
proof -
  have "tstep srv (tstart 0) (do_connect 0 (tstart 0))" by (rule tstep.connect) (simp add: tstart_def start_def)
  then show ?thesis
    using accepted0_step [of srv] by (simp add: timed_id_step_def id_step_def accepted0_def do_connect_def tstart_def)
qed

lemma login0_step:
  "timed_id_step dev_srv (do_connect 0 (tstart 0)) ((do_connect 0 (tstart 0))\<lparr>core := logged0\<rparr>)"
proof -
  let ?s = "do_connect 0 (tstart 0)"
  have core: "core ?s = accepted0" by (simp add: do_connect_def tstart_def accepted0_def)
  have "tstep dev_srv ?s (?s\<lparr>core := do_message 0
      (dev_login ''a'' 0 (gw (core ?s)), (loc (core ?s) 0)\<lparr>me := Some (nextClient (gw (core ?s)))\<rparr>) (core ?s)\<rparr>)"
  proof (rule tstep.receive [where e = env0 and data = "frame (auth_msg ''a'')"])
    show "handle_frame dev_srv 0 env0 (frame (auth_msg ''a'')) (gw (core ?s), loc (core ?s) 0) =
        Returns (dev_login ''a'' 0 (gw (core ?s)), (loc (core ?s) 0)\<lparr>me := Some (nextClient (gw (core ?s)))\<rparr>)"
      unfolding core by (rule dev_auth) (simp_all add: run_defs)
    show "order_ok env0 (frame (auth_msg ''a'')) (gw (core ?s))"
      using unmarshal_auth [of "''a''"] by (simp add: order_ok_def) (simp add: auth_msg_def)
    show "clock ?s \<le> deadline ?s 0"
      by (simp add: do_connect_def tstart_def readWait_def seconds_def)
  qed (simp_all add: core run_defs env0_def)
  then show ?thesis
    using logged0_step unfolding core logged0_def [symmetric] by (simp add: timed_id_step_def id_step_def core)
qed

lemma idle0_step: "timed_id_step dev_srv ((do_connect 0 (tstart 0))\<lparr>core := logged0\<rparr>) idle0"
proof -
  have "tstep dev_srv ((do_connect 0 (tstart 0))\<lparr>core := logged0\<rparr>) idle0"
    unfolding idle0_def
  proof -
    let ?s = "(do_connect 0 (tstart 0))\<lparr>core := logged0\<rparr>"
    have "tstep dev_srv ?s (?s\<lparr>clock := seconds 30\<rparr>)"
      by (rule tstep.elapse)
        (auto simp: may_wait_def do_connect_def tstart_def run_defs readWait_def pingPeriod_def seconds_def)
    then show "tstep dev_srv ?s ((do_connect 0 (tstart 0))\<lparr>core := logged0, clock := seconds 30\<rparr>)" by simp
  qed
  then show ?thesis by (simp add: timed_id_step_def keeps_ids_def keeps_identity_def idle0_def split: option.split)
qed

lemma answered0_run: "rtranclp (timed_id_step dev_srv) (do_connect 0 (tstart 0)) answered0"
proof -
  have "tstep dev_srv idle0 (do_ping 0 idle0)"
    by (rule tstep.ping) (simp_all add: idle0_def do_connect_def tstart_def pingPeriod_def run_defs)
  moreover have "tstep dev_srv (do_ping 0 idle0) (do_pong 0 (do_ping 0 idle0))"
    by (rule tstep.pong) (simp_all add: idle0_def do_ping_def do_connect_def tstart_def readWait_def seconds_def run_defs)
  ultimately have "timed_id_step dev_srv idle0 (do_ping 0 idle0)" "timed_id_step dev_srv (do_ping 0 idle0) answered0"
    by (simp_all add: timed_id_step_def keeps_ids_def keeps_identity_def answered0_def do_ping_def do_pong_def split: option.split)
  then show ?thesis
    using login0_step idle0_step by (meson rtranclp.rtrancl_into_rtrancl rtranclp.rtrancl_refl)
qed

lemma answered0_reachable: "rtranclp (timed_id_step dev_srv) (tstart 0) answered0"
  using connect0_step answered0_run by (rule converse_rtranclp_into_rtranclp)

section \<open>Who is online has been heard\<close>

text \<open>A connection in its read loop was accepted or has answered at most 60 seconds ago.\<close>

lemma reading_heard:
  assumes "conn_ok s c" "ph (core s) c = Reading"
  shows "deadline s c = last (opened s c # pongs s c) + seconds 60 \<and> clock s \<le> deadline s c
     \<and> (\<exists>q \<in> {opened s c} \<union> set (pongs s c). clock s - seconds 60 \<le> q \<and> q \<le> clock s)"
proof -
  have ok: "reading_ok s c" using assms by (simp add: conn_ok_def)
  let ?q = "last (opened s c # pongs s c)"
  have "?q \<in> set (opened s c # pongs s c)" by (rule last_in_set) simp
  then have q: "?q \<in> {opened s c} \<union> set (pongs s c)" "?q \<le> clock s" using ok unfolding reading_ok_def by auto
  have "deadline s c = ?q + seconds 60" "clock s \<le> deadline s c" using ok by (simp_all add: reading_ok_def readWait_def)
  then show ?thesis using q by (intro conjI bexI [of _ ?q]) (simp_all del: last.simps)
qed

text \<open>
  Whoever is online or a member of a room has been heard of in the last 60 seconds. In every timed
  run in which no connection changes its user ID, the connection under an entry of the online table or of
  a room was accepted at most 60 seconds ago or has answered a ping since; what else the client sends
  does not count, since only the pong handler moves the read deadline. So a client that vanishes
  without closing its connection is taken for online at most 60 seconds after its last sign of life.
\<close>

theorem online_means_heard:
  assumes "rtranclp (timed_id_step srv) (tstart t0) s"
    and "onlineUsers (gw (core s)) u = Some r \<or> abs_members (abs_rooms (gw (core s))) rid u = Some r"
    and "c = c_Send (clientH (gw (core s)) r)"
  shows "deadline s c = last (opened s c # pongs s c) + seconds 60 \<and> clock s \<le> deadline s c
     \<and> (\<exists>q \<in> {opened s c} \<union> set (pongs s c). clock s - seconds 60 \<le> q \<and> q \<le> clock s)"
proof -
  have "rtranclp (id_step srv) start (core s)"
    using timed_id_run_core [OF assms(1)] by (simp add: tstart_def)
  then have "ph (core s) c = Reading" using reachable_entries_live assms(2,3) by blast
  with clocks_reachable(2) [OF timed_id_run [OF assms(1)]] show ?thesis by (rule reading_heard)
qed

theorem online_means_heard_witness:
  "onlineUsers (gw (core answered0)) ''a'' = Some 0 \<and> clock answered0 = seconds 30
   \<and> deadline answered0 0 = seconds 90"
proof -
  have "onlineUsers (gw (core answered0)) ''a'' = Some 0" "c_Send (clientH (gw (core answered0)) 0) = 0"
    "clock answered0 = seconds 30" "last (opened answered0 0 # pongs answered0 0) = seconds 30"
    by (simp_all add: answered0_def idle0_def do_pong_def do_ping_def do_connect_def run_defs)
  then show ?thesis
    using online_means_heard [OF answered0_reachable, of "''a''" 0 "[]" 0] by (simp add: seconds_def del: last.simps)
qed

section \<open>Who answers stays\<close>

text \<open>Every ping that is at least \<open>d\<close> old has been answered.\<close>

definition answers_within :: "time_ns \<Rightarrow> timed \<Rightarrow> nat \<Rightarrow> bool" where
  "answers_within d s c \<longleftrightarrow> (\<forall>p \<in> set (pings s c). p + d \<le> clock s \<longrightarrow> (\<exists>q \<in> set (pongs s c). p \<le> q))"

lemma tick_in_log:
  assumes "ticking_ok s c" "0 < k" "k \<le> length (pings s c)"
  shows "opened s c + int k * pingPeriod \<in> set (pings s c)"
proof -
  have "pings s c = tick_times (opened s c) (length (pings s c))" using assms(1) by (simp add: ticking_ok_def)
  moreover have "opened s c + int k * pingPeriod \<in> set (tick_times (opened s c) (length (pings s c)))"
    unfolding tick_times_def using assms(2,3) by (auto simp: image_iff intro!: bexI [of _ "k - 1"])
  ultimately show ?thesis by simp
qed

lemma answering_stays:
  assumes "conn_ok s c" "ph (core s) c = Reading" "ticking s c" "answers_within d s c" "d < seconds 30"
  shows "clock s < deadline s c \<and> (\<exists>n. pings s c = map (\<lambda>k. opened s c + (int k + 1) * seconds 30) [0..<n])"
proof -
  note ok = assms(1)
  have read: "reading_ok s c" and tick: "ticking_ok s c" using ok assms(2,3) by (auto simp: conn_ok_def)
  let ?n = "length (pings s c)" and ?P = pingPeriod
  let ?L = "opened s c + int ?n * ?P"
  have P: "d < ?P" "0 < ?P" "readWait = 2 * ?P" using assms(5) durations by (simp_all add: pingPeriod_def)
  have now: "?L \<le> clock s" "clock s \<le> ?L + ?P" using tick by (simp_all add: ticking_ok_def algebra_simps)
  have old: "opened s c + 2 * ?P \<le> deadline s c" using read P(3) by (simp add: reading_ok_def)
  have answered: "opened s c + int k * ?P + 2 * ?P \<le> deadline s c"
    if k: "0 < k" "k \<le> ?n" "opened s c + int k * ?P + d \<le> clock s" for k
  proof -
    obtain q where "q \<in> set (pongs s c)" "opened s c + int k * ?P \<le> q"
      using assms(4) tick_in_log [OF tick k(1,2)] k(3) by (auto simp: answers_within_def)
    then show ?thesis using read P(3) by (auto simp: reading_ok_def)
  qed
  have "clock s < deadline s c"
  proof (cases ?n)
    case 0
    then show ?thesis using now old P(2) by simp
  next
    case (Suc k)
    then have L: "?L = opened s c + int k * ?P + ?P" by (simp add: algebra_simps)
    show ?thesis
    proof (cases "?L + d \<le> clock s")
      case True
      then show ?thesis using answered [of ?n] Suc now P by simp
    next
      case False
      have "?L + ?P \<le> deadline s c"
        using answered [of k] old now L P Suc by (cases "k = 0") auto
      then show ?thesis using False P by simp
    qed
  qed
  moreover have "pings s c = map (\<lambda>k. opened s c + (int k + 1) * seconds 30) [0..<?n]"
    using tick by (simp add: ticking_ok_def tick_times_def pingPeriod_def)
  ultimately show ?thesis by blast
qed

text \<open>
  A client that answers is never dropped. As long as the ping goroutine of a connection runs and the
  client's pong to every ping is read within less than 30 seconds, its read deadline lies in the
  future; the pings themselves go out exactly every 30 seconds after the connection was accepted.
\<close>

theorem answering_client_stays:
  assumes "rtranclp (tstep srv) (tstart t0) s" "ph (core s) c = Reading" "ticking s c"
    and "answers_within d s c" "d < seconds 30"
  shows "clock s < deadline s c \<and> (\<exists>n. pings s c = map (\<lambda>k. opened s c + (int k + 1) * seconds 30) [0..<n])"
  using clocks_reachable(2) [OF assms(1)] assms(2-5) by (rule answering_stays)

theorem answering_client_stays_witness:
  "pings answered0 0 = [seconds 30] \<and> clock answered0 < deadline answered0 0"
proof -
  have "pings answered0 0 = [seconds 30]" "pongs answered0 0 = [seconds 30]" "ticking answered0 0"
      "ph (core answered0) 0 = Reading"
    by (simp_all add: answered0_def idle0_def do_pong_def do_ping_def do_connect_def tstart_def run_defs)
  moreover from this have "answers_within (seconds 1) answered0 0" by (simp add: answers_within_def)
  ultimately show ?thesis
    using answering_client_stays [OF timed_id_run [OF answered0_reachable], of 0 "seconds 1"] by (simp add: seconds_def)
qed

section \<open>The wait for the write goroutine\<close>

lemma do_end_phase: "ph (do_end d g s) c = Ended \<Longrightarrow> ph s c \<noteq> Ended \<Longrightarrow> d = c"
  by (simp add: do_end_def split: if_splits)

lemma drain_waits:
  assumes "conn_ok s c" "tstep srv s t" "ph (core s) c = Draining" "ph (core t) c = Ended" "\<not> failed s c"
  shows "clock s = waiting s c + seconds 12 \<and> writerUp (core s) c"
proof -
  note ok = assms(1)
  have up: "writerUp (core s) c" and wait: "waiting_ok s c" using ok assms(3,5) by (auto simp: conn_ok_def)
  have "waiting s c + drainWait \<le> clock s"
    using assms(2)
  proof cases
    case (drained d)
    then have "d = c" using do_end_phase [of d _ "core s" c] assms(3,4) by simp
    then show ?thesis using drained(3) up by simp
  next
    case (handler_panic d e data g l)
    then have "d = c" using do_end_phase [of d g "core s" c] assms(3,4) by simp
    then show ?thesis using handler_panic(2) assms(3) by simp
  qed (use assms(3,4) in \<open>auto simp: do_timed_defs do_accept_def do_message_def do_cleanup_def split: if_splits\<close>)
  then show ?thesis using up wait by (simp add: waiting_ok_def drainWait_def)
qed

text \<open>
  The wait for the write goroutine is in vain. The write goroutine ends when a write fails or when
  \<open>sendCh\<close> is closed, but the channel is closed by a deferred call that only runs after the wait. So
  unless a write has failed, the end of a handler comes exactly 12 seconds after its read loop was
  left, however empty the channel is, and the write goroutine is still there.
\<close>

theorem drain_wait_is_futile:
  assumes "rtranclp (tstep srv) (tstart t0) s" "tstep srv s t"
    and "ph (core s) c = Draining" "ph (core t) c = Ended" "\<not> failed s c"
  shows "clock s = waiting s c + seconds 12 \<and> writerUp (core s) c"
  using clocks_reachable(2) [OF assms(1)] assms(2-5) by (rule drain_waits)

text \<open>Connection 0 is accepted and hangs up at once.\<close>

definition gone0 :: timed where
  "gone0 = do_hangup dev_srv 0 env0 (do_connect 0 (tstart 0))"

definition waited0 :: timed where
  "waited0 = gone0\<lparr>clock := seconds 12\<rparr>"

lemma waited0_run: "rtranclp (timed_id_step dev_srv) (do_connect 0 (tstart 0)) waited0"
proof -
  have "tstep dev_srv (do_connect 0 (tstart 0)) gone0"
    unfolding gone0_def by (rule tstep.hangup) (simp_all add: do_connect_def tstart_def run_defs env0_def)
  moreover have "tstep dev_srv gone0 waited0"
    unfolding waited0_def
    by (rule tstep.elapse)
      (auto simp: may_wait_def gone0_def do_timed_defs do_cleanup_def cleanup_def tstart_def run_defs drainWait_def seconds_def)
  ultimately have "timed_id_step dev_srv (do_connect 0 (tstart 0)) gone0" "timed_id_step dev_srv gone0 waited0"
    by (simp_all add: timed_id_step_def keeps_ids_def keeps_identity_def waited0_def gone0_def do_timed_defs
        do_cleanup_def cleanup_def tstart_def run_defs split: option.split)
  then show ?thesis by (meson rtranclp.rtrancl_into_rtrancl rtranclp.rtrancl_refl)
qed

lemma waited0_reachable: "rtranclp (tstep dev_srv) (tstart 0) waited0"
  using connect0_step waited0_run by (intro timed_id_run) (rule converse_rtranclp_into_rtranclp)

lemma waited0_simps:
  "ph (core waited0) 0 = Draining" "\<not> failed waited0 0" "waiting waited0 0 = 0" "clock waited0 = seconds 12"
  "ch_buf (chanH (gw (core waited0)) 0) = []"
  by (simp_all add: waited0_def gone0_def do_timed_defs do_cleanup_def cleanup_def tstart_def run_defs)

lemma waited0_step: "tstep dev_srv waited0 (waited0\<lparr>core := do_end 0 (gw (core waited0)) (core waited0)\<rparr>)"
  by (rule tstep.drained) (simp_all add: waited0_simps drainWait_def)

theorem drain_wait_is_futile_witness:
  "ch_buf (chanH (gw (core waited0)) 0) = [] \<and> clock waited0 = waiting waited0 0 + seconds 12 \<and> writerUp (core waited0) 0"
proof -
  let ?t = "waited0\<lparr>core := do_end 0 (gw (core waited0)) (core waited0)\<rparr>"
  have "ph (core ?t) 0 = Ended" by (simp add: do_end_def)
  then show ?thesis
    using drain_wait_is_futile [OF waited0_reachable waited0_step waited0_simps(1) _ waited0_simps(2)] waited0_simps(5) by blast
qed

end
