(* ===== verification/TimedProcess.thy ===== *)
theory TimedProcess
  imports WholeProcess HeartbeatProperties
begin

text \<open>
  The whole gateway process with its clocks: the goroutines of the connections with their deadlines,
  pings and waits, the requests and upgrades of the server, and the shutdown, in one step relation. Its
  runs are runs of the process, and the invariant of the clocks holds in them, so that what the
  heartbeat achieves for the connections alone it achieves in the process.
\<close>

section \<open>States and steps\<close>

record timed_process =
  tp_time :: timed
  tp_proc :: process

definition tboot :: "time_ns \<Rightarrow> timed_process" where
  "tboot t0 = \<lparr>tp_time = tstart t0, tp_proc = boot\<rparr>"

text \<open>The connections move, or the clock does: the process sees the connections only.\<close>

definition at_time :: "timed \<Rightarrow> timed_process \<Rightarrow> timed_process" where
  "at_time t s = s\<lparr>tp_time := t, tp_proc := (tp_proc s)\<lparr>pr_sys := core t\<rparr>\<rparr>"

text \<open>The process moves without its connections, apart from the tables and the trace they share with it.\<close>

definition at_proc :: "process \<Rightarrow> timed_process \<Rightarrow> timed_process" where
  "at_proc q s = s\<lparr>tp_time := (tp_time s)\<lparr>core := pr_sys q\<rparr>, tp_proc := q\<rparr>"

text \<open>The steps of \<open>main\<close> and of the server that start or end no connection.\<close>

inductive serves :: "web_outside \<Rightarrow> gateway_process \<Rightarrow> process \<Rightarrow> process \<Rightarrow> bool"
  for o' :: web_outside and p :: gateway_process where
  request: "\<not> pr_stopping s \<Longrightarrow> pr_requests s k = None \<Longrightarrow> pr_replies s k = None \<Longrightarrow>
    serves o' p s (s\<lparr>pr_requests := (pr_requests s)(k \<mapsto> r)\<rparr>)"
| served: "pr_requests s k = Some r \<Longrightarrow> \<not> upgrades o' r \<Longrightarrow>
    serves o' p s (do_reply k (entry o' p 0 e r (received s)) s)"
| signalled: "serves o' p s (s\<lparr>pr_stopping := True\<rparr>)"
| closed: "pr_stopping s \<Longrightarrow> serves o' p s (s\<lparr>pr_result := Some (gateway_end p ErrServerClosed)\<rparr>)"
| listen_failed: "\<not> pr_stopping s \<Longrightarrow>
    serves o' p s (s\<lparr>pr_result := Some (gateway_end p (ListenError err))\<rparr>)"

inductive tpstep :: "web_outside \<Rightarrow> gateway_process \<Rightarrow> timed_process \<Rightarrow> timed_process \<Rightarrow> bool"
  for o' :: web_outside and p :: gateway_process where
  connections: "pr_result (tp_proc s) = None \<Longrightarrow> tstep (gp_Server p) (tp_time s) t \<Longrightarrow>
    (\<forall>c. ph (core (tp_time s)) c = Fresh \<longrightarrow> ph (core t) c = Fresh) \<Longrightarrow> tpstep o' p s (at_time t s)"
| upgraded: "pr_result (tp_proc s) = None \<Longrightarrow> pr_requests (tp_proc s) k = Some r \<Longrightarrow> upgrades o' r \<Longrightarrow>
    ph (core (tp_time s)) c = Fresh \<Longrightarrow>
    tpstep o' p s (s\<lparr>tp_time := do_connect c (tp_time s), tp_proc := do_upgrade k c (tp_proc s)\<rparr>)"
| server: "pr_result (tp_proc s) = None \<Longrightarrow> serves o' p (tp_proc s) q \<Longrightarrow> tpstep o' p s (at_proc q s)"

definition tpid_step :: "web_outside \<Rightarrow> gateway_process \<Rightarrow> timed_process \<Rightarrow> timed_process \<Rightarrow> bool" where
  "tpid_step o' p s t \<longleftrightarrow> tpstep o' p s t \<and> keeps_ids (core (tp_time s)) (core (tp_time t))"

section \<open>Its runs are runs of the process\<close>

lemma serves_pstep: "serves o' p s t \<Longrightarrow> pr_result s = None \<Longrightarrow> pstep o' p s t"
  by (induction rule: serves.induct) (auto intro: pstep.intros)

lemma serves_connections:
  assumes "serves o' p s t"
  shows "same_tables (gw (pr_sys s)) (gw (pr_sys t)) \<and> only_calls (gw (pr_sys s)) (gw (pr_sys t))
     \<and> ph (pr_sys t) = ph (pr_sys s) \<and> writerUp (pr_sys t) = writerUp (pr_sys s)"
  using assms
proof cases
  case (served k r e)
  then show ?thesis
    using entry_tables [OF served(3), of "received s" p 0 e] entry_calls [OF served(3), of "received s" p 0 e]
    by (simp add: do_reply_def received_def)
qed (simp_all add: only_calls_def)

text \<open>Both components see the same connections.\<close>

definition tied :: "timed_process \<Rightarrow> bool" where
  "tied s \<longleftrightarrow> core (tp_time s) = pr_sys (tp_proc s)"

lemma tied_step: "tpstep o' p s t \<Longrightarrow> tied s \<Longrightarrow> tied t"
  by (erule tpstep.cases) (simp_all add: tied_def at_time_def at_proc_def do_upgrade_def do_connect_def)

lemma project_step:
  assumes "tpstep o' p s t" "tied s"
  shows "tp_proc t = tp_proc s \<or> pstep o' p (tp_proc s) (tp_proc t)"
  using assms(1)
proof cases
  case (connections u)
  have sys: "core (tp_time s) = pr_sys (tp_proc s)" using assms(2) by (simp add: tied_def)
  from timed_step_core [OF connections(3)] show ?thesis
  proof
    assume "core u = core (tp_time s)"
    then show ?thesis using connections(1) sys by (simp add: at_time_def)
  next
    assume "gstep (gp_Server p) (core (tp_time s)) (core u)"
    then show ?thesis using connections sys by (simp add: at_time_def pstep.goroutine)
  qed
next
  case (upgraded k r c)
  then show ?thesis using assms(2) by (simp add: tied_def pstep.upgraded)
next
  case (server q)
  then show ?thesis by (simp add: at_proc_def serves_pstep)
qed

lemma project_id_step:
  assumes "tpid_step o' p s t" "tied s"
  shows "tp_proc t = tp_proc s \<or> pid_step o' p (tp_proc s) (tp_proc t)"
  using assms project_step tied_step by (fastforce simp: tpid_step_def pid_step_def tied_def)

section \<open>The invariant\<close>

definition process_clocks :: "timed_process \<Rightarrow> bool" where
  "process_clocks s \<longleftrightarrow> tied s \<and> clocks_ok (tp_time s)"

lemma clocks_served:
  assumes "serves o' p (tp_proc s) q" "process_clocks s"
  shows "clocks_ok ((tp_time s)\<lparr>core := pr_sys q\<rparr>)"
proof -
  let ?t = "(tp_time s)\<lparr>core := pr_sys q\<rparr>"
  have sys: "pr_sys (tp_proc s) = core (tp_time s)" and ok: "alive_open (core (tp_time s))" "\<And>c. conn_ok (tp_time s) c"
    using assms(2) by (auto simp: process_clocks_def tied_def clocks_ok_def)
  note same = serves_connections [OF assms(1), unfolded sys]
  have kept: "ph (core ?t) = ph (core (tp_time s))" "writerUp (core ?t) = writerUp (core (tp_time s))"
    using same by simp_all
  have "alive_open (core ?t)" using ok(1) kept(1) flags_same [OF conjunct1 [OF same]] by (simp add: alive_open_def)
  moreover have "conn_ok ?t c" for c
    by (rule conn_ok_same [OF ok(2)]) (use same in \<open>simp_all add: timers_def\<close>)
  ultimately show ?thesis by (simp add: clocks_ok_def)
qed

lemma process_clocks_step: "process_clocks s \<Longrightarrow> tpstep o' p s t \<Longrightarrow> process_clocks t"
proof -
  assume ok: "process_clocks s" and step: "tpstep o' p s t"
  have tied: "tied t" using tied_step [OF step] ok by (simp add: process_clocks_def)
  from step have "clocks_ok (tp_time t)"
  proof cases
    case (connections u)
    then show ?thesis using clocks_step ok by (simp add: at_time_def process_clocks_def)
  next
    case (upgraded k r c)
    then show ?thesis using clocks_step [OF tstep.connect] ok by (simp add: process_clocks_def)
  next
    case (server q)
    then show ?thesis using clocks_served [OF _ ok] by (simp add: at_proc_def)
  qed
  with tied show ?thesis by (simp add: process_clocks_def)
qed

lemma process_clocks_boot: "process_clocks (tboot t0)"
  using clocked.inv_start [of t0] by (simp add: process_clocks_def tied_def tboot_def boot_def tstart_def)

interpretation process_clocked: invariant_system "tboot t0" "tpstep o' p" process_clocks
  for t0 :: time_ns and o' :: web_outside and p :: gateway_process
  by unfold_locales (rule process_clocks_boot, rule process_clocks_step)

text \<open>And where no connection changes its user ID, the invariant of the tables as well.\<close>

definition timed_inv :: "timed_process \<Rightarrow> bool" where
  "timed_inv s \<longleftrightarrow> process_clocks s \<and> sys_inv (core (tp_time s))"

lemma timed_inv_step:
  assumes "timed_inv s" "tpid_step o' p s t"
  shows "timed_inv t"
proof -
  have ok: "process_clocks s" "tied s" and inv: "sys_inv (pr_sys (tp_proc s))"
    using assms(1) by (auto simp: timed_inv_def process_clocks_def tied_def)
  have "process_clocks t" using process_clocks_step [OF ok(1)] assms(2) by (auto simp: tpid_step_def)
  moreover have "sys_inv (pr_sys (tp_proc t))"
    using project_id_step [OF assms(2) ok(2)] process_step [OF _ inv] inv by metis
  ultimately show ?thesis by (simp add: timed_inv_def process_clocks_def tied_def)
qed

interpretation timed_processes: invariant_system "tboot t0" "tpid_step o' p" timed_inv
  for t0 :: time_ns and o' :: web_outside and p :: gateway_process
  by unfold_locales
    (simp add: timed_inv_def process_clocks_boot, simp add: tboot_def tstart_def sys_inv_start, rule timed_inv_step)

text \<open>
  Time is never stuck: in a state of the process either a moment can pass, or some goroutine is due and
  can act now.
\<close>

lemma may_wait_or_due:
  assumes "clocks_ok s"
  shows "may_wait (clock s + 1) s
     \<or> (\<exists>c. ph (core s) c = Reading \<and> deadline s c = clock s) \<or> (\<exists>c. ticking s c \<and> nextTick s c = clock s)
     \<or> (\<exists>c. ph (core s) c = Draining \<and> (\<not> writerUp (core s) c \<or> waiting s c + drainWait = clock s))"
proof (rule ccontr)
  assume none: "\<not> ?thesis"
  then obtain c where c: "ph (core s) c = Reading \<and> deadline s c < clock s + 1 \<or> ticking s c \<and> nextTick s c < clock s + 1
      \<or> ph (core s) c = Draining \<and> (\<not> writerUp (core s) c \<or> waiting s c + drainWait < clock s + 1)"
    by (auto simp: may_wait_def not_le)
  have "conn_ok s c" using assms by (simp add: clocks_ok_def)
  then have "(ph (core s) c = Reading \<longrightarrow> clock s \<le> deadline s c) \<and> (ticking s c \<longrightarrow> clock s \<le> nextTick s c)
      \<and> (ph (core s) c = Draining \<longrightarrow> clock s \<le> waiting s c + drainWait)"
    by (auto simp: conn_ok_def ok_defs)
  with none c show False by (auto dest: antisym)
qed

lemma time_never_stuck:
  assumes "process_clocks s" "pr_result (tp_proc s) = None" "finite (dom (rooms (gw (core (tp_time s)))))"
  shows "tpstep o' p s (at_time ((tp_time s)\<lparr>clock := clock (tp_time s) + 1\<rparr>) s)
     \<or> (\<exists>c e. ph (core (tp_time s)) c = Reading \<and> tpstep o' p s (at_time (do_hangup (gp_Server p) c e (tp_time s)) s))
     \<or> (\<exists>c. ticking (tp_time s) c
          \<and> tpstep o' p s (at_time ((tp_time s)\<lparr>ticking := (ticking (tp_time s))(c := False)\<rparr>) s))
     \<or> (\<exists>c. ph (core (tp_time s)) c = Draining \<and> tpstep o' p s
          (at_time ((tp_time s)\<lparr>core := do_end c (gw (core (tp_time s))) (core (tp_time s))\<rparr>) s))"
proof -
  let ?t = "tp_time s"
  obtain ks where "set ks = dom (rooms (gw (core ?t)))" "distinct ks" using finite_distinct_list [OF assms(3)] by blast
  then have order: "range_order (rooms (gw (core ?t))) (e_ord (env0\<lparr>e_ord := ks\<rparr>))" by (simp add: range_order_def)
  note move = tpstep.connections [OF assms(2)]
  have "clocks_ok ?t" using assms(1) by (simp add: process_clocks_def)
  from may_wait_or_due [OF this] consider
      (wait) "may_wait (clock ?t + 1) ?t" | (read) c where "ph (core ?t) c = Reading"
    | (tick) c where "ticking ?t c" "nextTick ?t c = clock ?t"
    | (drain) c where "ph (core ?t) c = Draining" "\<not> writerUp (core ?t) c \<or> waiting ?t c + drainWait = clock ?t" by blast
  then show ?thesis
  proof cases
    case wait
    then show ?thesis using move [OF tstep.elapse, of "clock ?t + 1"] by simp
  next
    case read
    have "tpstep o' p s (at_time (do_hangup (gp_Server p) c (env0\<lparr>e_ord := ks\<rparr>) ?t) s)"
      by (rule move [OF tstep.hangup [OF read order]]) (use read in \<open>simp add: do_hangup_def do_cleanup_def\<close>)
    then show ?thesis using read by blast
  next
    case tick
    then show ?thesis using move [OF tstep.ping_error, of c] by simp blast
  next
    case drain
    then have "tpstep o' p s (at_time (?t\<lparr>core := do_end c (gw (core ?t)) (core ?t)\<rparr>) s)"
      by (intro move [OF tstep.drained]) (auto simp: do_end_def)
    then show ?thesis using drain by blast
  qed
qed

section \<open>A run for the witnesses\<close>

text \<open>The timed runs of the connections are runs of the process, as long as no connection is new.\<close>

lemma before_Fresh: "(p::phase) \<le> Fresh \<Longrightarrow> p = Fresh"
  by (cases p) (simp_all add: less_eq_phase_def)

lemma connections_run:
  assumes "rtranclp (timed_id_step (gp_Server p)) a t" "alive_open (core a)" "pr_result (tp_proc s) = None"
    and "\<forall>c. ph (core a) c = Fresh \<longrightarrow> ph (core t) c = Fresh"
  shows "rtranclp (tpid_step o' p) (at_time a s) (at_time t s)"
  using assms(1,4)
proof (induction rule: rtranclp_induct)
  case (step t u)
  have run: "rtranclp (gstep (gp_Server p)) (core a) (core t)"
    by (rule timed_run_core [OF timed_id_run [OF step.hyps(1)]])
  have later: "ph (core a) c \<le> ph (core t) c" for c by (rule phases_advance [OF run assms(2)])
  have alive: "alive_open (core t)" by (rule lifecycle.inv_from [OF run assms(2)])
  have one: "tstep (gp_Server p) t u" "keeps_ids (core t) (core u)" using step.hyps(2) by (auto simp: timed_id_step_def)
  have after: "ph (core t) c \<le> ph (core u) c" for c
    using timed_step_core [OF one(1)] lifecycle_step [OF _ alive] by force
  have fresh: "ph (core t) c = Fresh" if "ph (core a) c = Fresh" for c using step.prems that after [of c] before_Fresh by metis
  have earlier: "ph (core a) c = Fresh" if "ph (core t) c = Fresh" for c using later [of c] that before_Fresh by metis
  have "tpstep o' p (at_time t s) (at_time u (at_time t s))"
    using one(1) assms(3) earlier step.prems by (intro tpstep.connections) (auto simp: at_time_def)
  then have "tpid_step o' p (at_time t s) (at_time u s)" using one(2) by (simp add: tpid_step_def at_time_def)
  then show ?case using step.IH fresh rtranclp.rtrancl_into_rtrancl by metis
qed simp

text \<open>A request for the upgrade arrives, and is accepted as connection 0.\<close>

definition tasked0 :: timed_process where
  "tasked0 = at_proc asked0 (tboot 0)"

definition topened0 :: timed_process where
  "topened0 = tasked0\<lparr>tp_time := do_connect 0 (tstart 0), tp_proc := opened0\<rparr>"

lemma topened0_run: "rtranclp (tpid_step no_outside p) (tboot 0) topened0"
proof -
  have time: "tp_time tasked0 = tstart 0" "tp_proc tasked0 = asked0"
    by (simp_all add: tasked0_def at_proc_def tboot_def opened0_simps, simp add: tstart_def)
  have "serves no_outside p boot asked0" unfolding asked0_def by (rule serves.request) (simp_all add: boot_def)
  then have "tpstep no_outside p (tboot 0) tasked0"
    unfolding tasked0_def by (intro tpstep.server) (simp_all add: tboot_def, simp add: boot_def)
  moreover have "tpstep no_outside p tasked0 topened0"
    unfolding topened0_def opened0_def time(1,2) [symmetric]
    by (rule tpstep.upgraded [where r = "request ''GET'' ''/ws''"])
      (simp_all add: time asked0_def boot_def upgrades_def request_def no_outside_def MethodOptions_def tstart_def start_def)
  ultimately have "tpid_step no_outside p (tboot 0) tasked0" "tpid_step no_outside p tasked0 topened0"
    using connect0_step [of "gp_Server p"] time
    by (simp_all add: tpid_step_def timed_id_step_def topened0_def tboot_def) (simp add: tstart_def keeps_ids_def start_def)
  then show ?thesis by (meson rtranclp.rtrancl_into_rtrancl rtranclp.rtrancl_refl)
qed

lemma topened0_at: "at_time (do_connect 0 (tstart 0)) topened0 = topened0"
  by (simp add: at_time_def topened0_def do_connect_def tstart_def opened0_def do_upgrade_def asked0_def boot_def)

lemma time_topened0: "pr_result (tp_proc topened0) = None" "alive_open (core (do_connect 0 (tstart 0)))"
proof -
  have "clocks_ok (do_connect 0 (tstart 0))"
    by (rule clocks_step [OF tstep.connect clocked.inv_start]) (simp add: tstart_def start_def)
  then show "alive_open (core (do_connect 0 (tstart 0)))" by (simp add: clocks_ok_def)
qed (simp add: topened0_def opened0_simps)

lemma connection0_run:
  assumes "rtranclp (timed_id_step dev_srv) (do_connect 0 (tstart 0)) t" "\<forall>c. c \<noteq> 0 \<longrightarrow> ph (core t) c = Fresh"
  shows "rtranclp (tpid_step no_outside plain_process) (tboot 0) (at_time t topened0)"
proof -
  have "rtranclp (tpid_step no_outside plain_process) (at_time (do_connect 0 (tstart 0)) topened0) (at_time t topened0)"
    using assms
    by (intro connections_run time_topened0) (simp_all add: plain_process_def, simp add: do_connect_def do_accept_def)
  then show ?thesis using topened0_run [of plain_process] rtranclp_trans unfolding topened0_at by metis
qed

lemma answered0_process: "rtranclp (tpid_step no_outside plain_process) (tboot 0) (at_time answered0 topened0)"
  by (rule connection0_run [OF answered0_run])
    (simp add: answered0_def idle0_def do_pong_def do_ping_def run_defs)

lemma waited0_process: "rtranclp (tpid_step no_outside plain_process) (tboot 0) (at_time waited0 topened0)"
  by (rule connection0_run [OF waited0_run])
    (simp add: waited0_def gone0_def do_timed_defs do_cleanup_def do_accept_def tstart_def start_def)

lemma tpid_runs: "rtranclp (tpid_step o' p) s t \<Longrightarrow> rtranclp (tpstep o' p) s t"
  by (erule rtranclp_mono [THEN predicate2D, rotated]) (auto simp: tpid_step_def)

lemma at_time_simps [simp]: "tp_time (at_time t s) = t"
  by (simp add: at_time_def)

lemma connections_ok: "rtranclp (tpstep o' p) (tboot t0) s \<Longrightarrow> conn_ok (tp_time s) c"
  using process_clocked.inv_reachable by (auto simp: process_clocks_def clocks_ok_def)

section \<open>What the heartbeat achieves\<close>



text \<open>
  C16: a client that answers is never dropped. In every timed run of the whole process, as long as the
  ping goroutine of a connection runs and the client's pong to every ping is read within less than 30
  seconds, its read deadline lies in the future; the pings themselves go out exactly every 30 seconds
  after the connection was accepted.
\<close>

theorem process_answering_client_stays:
  assumes "rtranclp (tpstep o' p) (tboot t0) s" "t = tp_time s" "ph (core t) c = Reading" "ticking t c"
    and "answers_within d t c" "d < seconds 30"
  shows "clock t < deadline t c \<and> (\<exists>n. pings t c = map (\<lambda>k. opened t c + (int k + 1) * seconds 30) [0..<n])"
  using connections_ok [OF assms(1), of c, folded assms(2)] assms(3-6) by (rule answering_stays)

theorem process_answering_client_stays_witness:
  "pings answered0 0 = [seconds 30] \<and> clock answered0 < deadline answered0 0"
proof -
  have "pings answered0 0 = [seconds 30]" "pongs answered0 0 = [seconds 30]" "ticking answered0 0"
      "ph (core answered0) 0 = Reading"
    by (simp_all add: answered0_def idle0_def do_pong_def do_ping_def do_connect_def tstart_def run_defs)
  moreover from this have "answers_within (seconds 1) answered0 0" by (simp add: answers_within_def)
  ultimately show ?thesis
    using process_answering_client_stays [OF tpid_runs [OF answered0_process], of answered0 0 "seconds 1"]
    by (simp add: seconds_def)
qed

text \<open>
  C21: the wait for the write goroutine is in vain. The write goroutine ends when a write fails or when
  \<open>sendCh\<close> is closed, but the channel is closed by a deferred call that only runs after the wait. So, in
  every timed run of the whole process, unless a write has failed, the end of a handler comes exactly
  12 seconds after its read loop was left, however empty the channel is, and the write goroutine is
  still there; no request and no shutdown shortens the wait.
\<close>

theorem process_drain_wait_is_futile:
  assumes "rtranclp (tpstep o' p) (tboot t0) s" "tpstep o' p s t"
    and "ph (core (tp_time s)) c = Draining" "ph (core (tp_time t)) c = Ended" "\<not> failed (tp_time s) c"
  shows "clock (tp_time s) = waiting (tp_time s) c + seconds 12 \<and> writerUp (core (tp_time s)) c"
  using assms(2)
proof cases
  case (connections u)
  then show ?thesis using drain_waits [OF connections_ok [OF assms(1)]] assms(3-5) by simp
next
  case (upgraded k r d)
  then show ?thesis using assms(3,4) by (simp add: do_connect_def do_accept_def split: if_splits)
next
  case (server q)
  have "tied s" using process_clocked.inv_reachable [OF assms(1)] by (simp add: process_clocks_def)
  then have "ph (core (tp_time t)) = ph (core (tp_time s))"
    using server serves_connections [OF server(3)] by (simp add: at_proc_def tied_def)
  then show ?thesis using assms(3,4) by simp
qed

theorem process_drain_wait_is_futile_witness:
  "ch_buf (chanH (gw (core waited0)) 0) = [] \<and> clock waited0 = waiting waited0 0 + seconds 12 \<and> writerUp (core waited0) 0"
proof -
  let ?t = "waited0\<lparr>core := do_end 0 (gw (core waited0)) (core waited0)\<rparr>"
  have "tpstep no_outside plain_process (at_time waited0 topened0) (at_time ?t (at_time waited0 topened0))"
  proof (rule tpstep.connections)
    show "pr_result (tp_proc (at_time waited0 topened0)) = None" using time_topened0(1) by (simp add: at_time_def)
    show "tstep (gp_Server plain_process) (tp_time (at_time waited0 topened0)) ?t"
      using waited0_step by (simp add: plain_process_def)
  qed (simp add: do_end_def waited0_simps)
  then show ?thesis
    using process_drain_wait_is_futile [OF tpid_runs [OF waited0_process], of _ 0] waited0_simps(1,2,5)
    by (simp add: do_end_def)
qed

end
