(* ===== verification/RpcStubs.thy ===== *)
theory RpcStubs
  imports AuthRpc Decoded
begin

text \<open>
  The generated gRPC code, \<open>api/auth_grpc.pb.go\<close>, with the messages of \<open>api/auth.pb.go\<close>: the stubs of the
  client, the handlers of the server and the service descriptor that names them. The gRPC library, the
  protobuf codec and the implementation of the service are parameters. The stubs over a connection to
  a server that runs \<open>service.go\<close> turn out to be the client that \<open>AuthRpc\<close> defines directly.
\<close>

section \<open>Messages\<close>

record RegisterRequest =
  rgq_Username :: string
  rgq_Password :: string

record LoginRequest =
  lgq_Username :: string
  lgq_Password :: string

record TokenRequest =
  tkq_Token :: string

text \<open>What an \<open>interface{}\<close> of the generated code can hold, with its dynamic type.\<close>

datatype pb_message =
    PbRegisterRequest RegisterRequest
  | PbRegisterResponse RegisterResponse
  | PbLoginRequest LoginRequest
  | PbLoginResponse LoginResponse
  | PbTokenRequest TokenRequest
  | PbTokenResponse TokenResponse

fun same_type :: "pb_message \<Rightarrow> pb_message \<Rightarrow> bool" where
  "same_type (PbRegisterRequest _) (PbRegisterRequest _) = True"
| "same_type (PbRegisterResponse _) (PbRegisterResponse _) = True"
| "same_type (PbLoginRequest _) (PbLoginRequest _) = True"
| "same_type (PbLoginResponse _) (PbLoginResponse _) = True"
| "same_type (PbTokenRequest _) (PbTokenRequest _) = True"
| "same_type (PbTokenResponse _) (PbTokenResponse _) = True"
| "same_type _ _ = False"

fun pb_text :: "pb_message \<Rightarrow> bool" where
  "pb_text (PbRegisterRequest r) = (valid_utf8 (rgq_Username r) \<and> valid_utf8 (rgq_Password r))"
| "pb_text (PbRegisterResponse r) = valid_utf8 (rr_Message r)"
| "pb_text (PbLoginRequest r) = (valid_utf8 (lgq_Username r) \<and> valid_utf8 (lgq_Password r))"
| "pb_text (PbLoginResponse r) = (valid_utf8 (lr_Token r) \<and> valid_utf8 (lr_Message r))"
| "pb_text (PbTokenRequest r) = valid_utf8 (tkq_Token r)"
| "pb_text (PbTokenResponse r) = valid_utf8 (tr_UserId r)"

text \<open>
  The codec: \<open>Unmarshal\<close> gets the message to fill, which tells it the type. A message whose strings are
  UTF-8 can be encoded, any other cannot, and what is encoded decodes to itself.
\<close>

record pb_codec =
  pc_Marshal :: "pb_message \<Rightarrow> go_error + bytes"
  pc_Unmarshal :: "bytes \<Rightarrow> pb_message \<Rightarrow> go_error + pb_message"

definition codec_laws :: "pb_codec \<Rightarrow> bool" where
  "codec_laws pc \<longleftrightarrow>
     (\<forall>m. pb_text m = (\<not> isl (pc_Marshal pc m)))
   \<and> (\<forall>m bs z. pc_Marshal pc m = Inr bs \<longrightarrow> same_type m z \<longrightarrow> pc_Unmarshal pc bs z = Inr m)"

definition AuthService_Register_FullMethodName :: string where
  "AuthService_Register_FullMethodName = ''/auth.AuthService/Register''"

definition AuthService_Login_FullMethodName :: string where
  "AuthService_Login_FullMethodName = ''/auth.AuthService/Login''"

definition AuthService_Validate_FullMethodName :: string where
  "AuthService_Validate_FullMethodName = ''/auth.AuthService/Validate''"

section \<open>The client\<close>

text \<open>
  \<open>Invoke\<close> of a connection, in a state of the gateway: the full method name, the request and the
  message that a reply fills. It returns an error or that message filled.
\<close>

record ClientConn =
  cc_Invoke :: "trace \<Rightarrow> string \<Rightarrow> pb_message \<Rightarrow> pb_message \<Rightarrow> go_error + pb_message"

definition new_RegisterResponse :: RegisterResponse where
  "new_RegisterResponse = \<lparr>rr_Success = False, rr_Message = []\<rparr>"

definition new_LoginResponse :: LoginResponse where
  "new_LoginResponse = \<lparr>lr_Success = False, lr_Token = [], lr_Message = []\<rparr>"

definition new_TokenResponse :: TokenResponse where
  "new_TokenResponse = \<lparr>tr_Valid = False, tr_UserId = []\<rparr>"

text \<open>
  \<open>out\<close> is a typed pointer, so what \<open>Invoke\<close> leaves behind it has its type; a value of another type
  cannot be written to it and leaves it as it was made.
\<close>

definition stub_Register :: "ClientConn \<Rightarrow> trace \<Rightarrow> RegisterRequest \<Rightarrow> go_error + RegisterResponse" where
  "stub_Register cc h req =
     (case cc_Invoke cc h AuthService_Register_FullMethodName (PbRegisterRequest req) (PbRegisterResponse new_RegisterResponse) of
        Inl err \<Rightarrow> Inl err
      | Inr out \<Rightarrow> Inr (case out of PbRegisterResponse r \<Rightarrow> r | _ \<Rightarrow> new_RegisterResponse))"

definition stub_Login :: "ClientConn \<Rightarrow> trace \<Rightarrow> LoginRequest \<Rightarrow> go_error + LoginResponse" where
  "stub_Login cc h req =
     (case cc_Invoke cc h AuthService_Login_FullMethodName (PbLoginRequest req) (PbLoginResponse new_LoginResponse) of
        Inl err \<Rightarrow> Inl err
      | Inr out \<Rightarrow> Inr (case out of PbLoginResponse r \<Rightarrow> r | _ \<Rightarrow> new_LoginResponse))"

definition stub_Validate :: "ClientConn \<Rightarrow> trace \<Rightarrow> TokenRequest \<Rightarrow> go_error + TokenResponse" where
  "stub_Validate cc h req =
     (case cc_Invoke cc h AuthService_Validate_FullMethodName (PbTokenRequest req) (PbTokenResponse new_TokenResponse) of
        Inl err \<Rightarrow> Inl err
      | Inr out \<Rightarrow> Inr (case out of PbTokenResponse r \<Rightarrow> r | _ \<Rightarrow> new_TokenResponse))"

text \<open>The client as the gateway uses it: each call site builds the request from its strings.\<close>

definition stub_client :: "ClientConn \<Rightarrow> AuthServiceClient" where
  "stub_client cc =
     \<lparr>ac_Validate = (\<lambda>h tok. map_sum id Some (stub_Validate cc h \<lparr>tkq_Token = tok\<rparr>)),
      ac_Register = (\<lambda>h u p. stub_Register cc h \<lparr>rgq_Username = u, rgq_Password = p\<rparr>),
      ac_Login = (\<lambda>h u p. stub_Login cc h \<lparr>lgq_Username = u, lgq_Password = p\<rparr>)\<rparr>"

section \<open>The server\<close>

text \<open>What a call finds on the server: the random salt and the time. A call changes the service's trace.\<close>

record rpc_context =
  cx_Salt :: nat
  cx_Now :: time_ns

type_synonym 'r served = "auth_trace \<Rightarrow> (rpc_error + 'r) \<times> auth_trace"

record AuthServiceServer =
  sv_Register :: "rpc_context \<Rightarrow> RegisterRequest \<Rightarrow> RegisterResponse served"
  sv_Login :: "rpc_context \<Rightarrow> LoginRequest \<Rightarrow> LoginResponse served"
  sv_Validate :: "rpc_context \<Rightarrow> TokenRequest \<Rightarrow> TokenResponse served"

definition UnimplementedAuthServiceServer :: AuthServiceServer where
  "UnimplementedAuthServiceServer =
     \<lparr>sv_Register = (\<lambda>_ _ h. (Inl (RpcUnimplemented ''method Register not implemented''), h)),
      sv_Login = (\<lambda>_ _ h. (Inl (RpcUnimplemented ''method Login not implemented''), h)),
      sv_Validate = (\<lambda>_ _ h. (Inl (RpcUnimplemented ''method Validate not implemented''), h))\<rparr>"

text \<open>
  \<open>AuthService\<close> embeds \<open>UnimplementedAuthServiceServer\<close> and defines all three methods, which replace the
  embedded ones.
\<close>

definition auth_server :: "AuthService \<Rightarrow> AuthServiceServer" where
  "auth_server svc = UnimplementedAuthServiceServer
     \<lparr>sv_Register := (\<lambda>cx r h. Register svc (cx_Salt cx) (rgq_Username r) (rgq_Password r) h),
      sv_Login := (\<lambda>cx r h. Login svc (cx_Now cx) (cx_Now cx) (lgq_Username r) (lgq_Password r) h),
      sv_Validate := (\<lambda>cx r h. (Validate svc (cx_Now cx) (tkq_Token r), h))\<rparr>"

text \<open>
  A unary handler: \<open>dec\<close> fills the request, an interceptor may stand in front of the method. \<open>None\<close> is the
  panic of a type assertion that fails.
\<close>

type_synonym unary_result = "((rpc_error + pb_message) \<times> auth_trace) option"
type_synonym unary = "rpc_context \<Rightarrow> pb_message \<Rightarrow> auth_trace \<Rightarrow> unary_result"
type_synonym interceptor = "string \<Rightarrow> unary \<Rightarrow> unary"
type_synonym decoder = "pb_message \<Rightarrow> rpc_error + pb_message"
type_synonym method_handler =
  "AuthServiceServer \<Rightarrow> rpc_context \<Rightarrow> decoder \<Rightarrow> interceptor option \<Rightarrow> auth_trace \<Rightarrow> unary_result"

definition packed :: "('r \<Rightarrow> pb_message) \<Rightarrow> (rpc_error + 'r) \<times> auth_trace \<Rightarrow> unary_result" where
  "packed f res = Some (map_sum id f (fst res), snd res)"

definition unary_Register :: "AuthServiceServer \<Rightarrow> unary" where
  "unary_Register srv cx m h = (case m of PbRegisterRequest r \<Rightarrow> packed PbRegisterResponse (sv_Register srv cx r h) | _ \<Rightarrow> None)"

definition unary_Login :: "AuthServiceServer \<Rightarrow> unary" where
  "unary_Login srv cx m h = (case m of PbLoginRequest r \<Rightarrow> packed PbLoginResponse (sv_Login srv cx r h) | _ \<Rightarrow> None)"

definition unary_Validate :: "AuthServiceServer \<Rightarrow> unary" where
  "unary_Validate srv cx m h = (case m of PbTokenRequest r \<Rightarrow> packed PbTokenResponse (sv_Validate srv cx r h) | _ \<Rightarrow> None)"

definition Register_Handler :: method_handler where
  "Register_Handler srv cx dec ic h =
     (case dec (PbRegisterRequest \<lparr>rgq_Username = [], rgq_Password = []\<rparr>) of
        Inl err \<Rightarrow> Some (Inl err, h)
      | Inr req \<Rightarrow>
          (case ic of None \<Rightarrow> unary_Register srv cx req h
           | Some i \<Rightarrow> i AuthService_Register_FullMethodName (unary_Register srv) cx req h))"

definition Login_Handler :: method_handler where
  "Login_Handler srv cx dec ic h =
     (case dec (PbLoginRequest \<lparr>lgq_Username = [], lgq_Password = []\<rparr>) of
        Inl err \<Rightarrow> Some (Inl err, h)
      | Inr req \<Rightarrow>
          (case ic of None \<Rightarrow> unary_Login srv cx req h
           | Some i \<Rightarrow> i AuthService_Login_FullMethodName (unary_Login srv) cx req h))"

definition Validate_Handler :: method_handler where
  "Validate_Handler srv cx dec ic h =
     (case dec (PbTokenRequest \<lparr>tkq_Token = []\<rparr>) of
        Inl err \<Rightarrow> Some (Inl err, h)
      | Inr req \<Rightarrow>
          (case ic of None \<Rightarrow> unary_Validate srv cx req h
           | Some i \<Rightarrow> i AuthService_Validate_FullMethodName (unary_Validate srv) cx req h))"

record ServiceDesc =
  sd_ServiceName :: string
  sd_Methods :: "(string \<times> method_handler) list"

definition AuthService_ServiceDesc :: ServiceDesc where
  "AuthService_ServiceDesc =
     \<lparr>sd_ServiceName = ''auth.AuthService'',
      sd_Methods = [(''Register'', Register_Handler), (''Login'', Login_Handler), (''Validate'', Validate_Handler)]\<rparr>"

text \<open>The services of a server, by name.\<close>

type_synonym grpc_services = "string \<Rightarrow> (ServiceDesc \<times> AuthServiceServer) option"

definition RegisterAuthServiceServer :: "AuthServiceServer \<Rightarrow> grpc_services \<Rightarrow> grpc_services" where
  "RegisterAuthServiceServer srv s = s(sd_ServiceName AuthService_ServiceDesc \<mapsto> (AuthService_ServiceDesc, srv))"

section \<open>What the gRPC library promises\<close>

text \<open>The decoder that the server hands to a handler, and the way back of a result into \<open>out\<close>.\<close>

definition request_decoder :: "pb_codec \<Rightarrow> bytes \<Rightarrow> decoder" where
  "request_decoder pc bs z =
     (case pc_Unmarshal pc bs z of
        Inl e \<Rightarrow> Inl (RpcInternal (''grpc: error unmarshalling request: '' @ e))
      | Inr m \<Rightarrow> Inr m)"

definition reply_into :: "pb_codec \<Rightarrow> pb_message \<Rightarrow> rpc_error + pb_message \<Rightarrow> go_error + pb_message" where
  "reply_into pc out res =
     (case res of
        Inl err \<Rightarrow> Inl (rpc_text err)
      | Inr m \<Rightarrow>
          (case pc_Marshal pc m of
             Inl e \<Rightarrow> Inl (rpc_text (RpcInternal (''grpc: error while marshaling: '' @ e)))
           | Inr bs \<Rightarrow> pc_Unmarshal pc bs out))"

text \<open>
  A connection to a server with the services \<open>s\<close> and no interceptor: a call of \<open>/service/method\<close> whose
  request can be encoded runs the handler of that name in the descriptor of that name, on the
  implementation that was registered with it, unless the transport fails.
\<close>

definition grpc_laws ::
    "pb_codec \<Rightarrow> transport \<Rightarrow> (trace \<Rightarrow> nat) \<Rightarrow> (trace \<Rightarrow> auth_trace) \<Rightarrow> grpc_services \<Rightarrow> ClientConn \<Rightarrow> bool" where
  "grpc_laws pc net salt db s cc \<longleftrightarrow>
     (\<forall>h sn mn d srv mh req out bs. s sn = Some (d, srv) \<longrightarrow> map_of (sd_Methods d) mn = Some mh
        \<longrightarrow> pc_Marshal pc req = Inr bs \<longrightarrow>
        (\<forall>e. tr_Fails net h = Some e \<longrightarrow> cc_Invoke cc h (''/'' @ sn @ ''/'' @ mn) req out = Inl e)
      \<and> (\<forall>res. tr_Fails net h = None
          \<longrightarrow> mh srv \<lparr>cx_Salt = salt h, cx_Now = tr_Now net h\<rparr> (request_decoder pc bs) None (db h) = Some res
          \<longrightarrow> cc_Invoke cc h (''/'' @ sn @ ''/'' @ mn) req out = reply_into pc out (fst res)))"

text \<open>Tokens are Base64 text, and the claims in one are JSON.\<close>

definition jwt_text :: "JWTLib \<Rightarrow> bool" where
  "jwt_text j \<longleftrightarrow>
     (\<forall>m key cl tok. jl_Sign j m key cl = Inr tok \<longrightarrow> valid_utf8 tok)
   \<and> (\<forall>now kf tok t. jl_Parse j now kf tok = Inr t \<longrightarrow> valid_utf8 (cl_UserID (tk_Claims t)))"

section \<open>Lemmas\<close>

lemma invoke_served:
  assumes "grpc_laws pc net salt db s cc" "s sn = Some (d, srv)" "map_of (sd_Methods d) mn = Some mh" "pc_Marshal pc req = Inr bs"
    and "mh srv \<lparr>cx_Salt = salt h, cx_Now = tr_Now net h\<rparr> (request_decoder pc bs) None (db h) = Some (res, h')"
  shows "cc_Invoke cc h (''/'' @ sn @ ''/'' @ mn) req out =
     (case tr_Fails net h of Some e \<Rightarrow> Inl e | None \<Rightarrow> reply_into pc out res)"
  using assms unfolding grpc_laws_def by (cases "tr_Fails net h") fastforce+

lemma codec_encodes:
  assumes "codec_laws pc" "pb_text m"
  obtains bs where "pc_Marshal pc m = Inr bs" "\<And>z. same_type m z \<Longrightarrow> pc_Unmarshal pc bs z = Inr m"
proof -
  obtain bs where "pc_Marshal pc m = Inr bs"
    using assms unfolding codec_laws_def by (metis isl_def sum.exhaust_sel)
  then show ?thesis using assms(1) that unfolding codec_laws_def by blast
qed

lemma reply_into_ok:
  assumes "codec_laws pc" "\<And>m. res = Inr m \<Longrightarrow> pb_text m \<and> same_type m out"
  shows "reply_into pc out res = map_sum rpc_text id res"
proof (cases res)
  case (Inl err)
  then show ?thesis by (simp add: reply_into_def)
next
  case (Inr m)
  then obtain bs where "pc_Marshal pc m = Inr bs" "\<And>z. same_type m z \<Longrightarrow> pc_Unmarshal pc bs z = Inr m"
    using codec_encodes [OF assms(1)] assms(2) by blast
  then show ?thesis using assms(2) Inr by (simp add: reply_into_def)
qed

text \<open>Every text that \<open>service.go\<close> puts into a response is UTF-8.\<close>

lemma ascii_replies:
  "valid_utf8 ''username must be 2-32 characters''" "valid_utf8 ''password must be 6-72 characters''"
  "valid_utf8 ''Registration successful''" "valid_utf8 ''username already exists''"
  "valid_utf8 ''username and password required''" "valid_utf8 ''user not found''" "valid_utf8 ''incorrect password''"
  "valid_utf8 ''Login successful''"
  by (rule valid_utf8_ascii, simp add: code_def)+

lemma Register_text: "fst (Register svc salt u p h) = Inr r \<Longrightarrow> valid_utf8 (rr_Message r)"
  unfolding Register_def Let_def
  by (auto simp: register_reply_def ascii_replies split: sum.splits option.splits sql_error.splits if_splits)

lemma Login_text: "jwt_text (as_JWT svc) \<Longrightarrow> fst (Login svc now1 now2 u p h) = Inr r \<Longrightarrow> valid_utf8 (lr_Token r) \<and> valid_utf8 (lr_Message r)"
  unfolding Login_def Let_def jwt_text_def
  by (auto simp: login_failed_def ascii_replies split: sum.splits if_splits prod.splits)

lemma Validate_text: "jwt_text (as_JWT svc) \<Longrightarrow> Validate svc now tok = Inr r \<Longrightarrow> valid_utf8 (tr_UserId r)"
  unfolding Validate_def jwt_text_def by (auto split: sum.splits if_splits)

end
