(* ===== verification/RpcProperties.thy ===== *)
theory RpcProperties
  imports RpcStubs DeploymentProperties
begin

text \<open>
  The generated stubs carry the gateway's calls to the methods of the auth service: with a connection
  that the gRPC library keeps, the gateway does exactly what it does with the client of \<open>AuthRpc\<close>.
\<close>

section \<open>One call\<close>

definition served_by :: "AuthService \<Rightarrow> grpc_services \<Rightarrow> grpc_services" where
  "served_by svc s = RegisterAuthServiceServer (auth_server svc) s"

lemma served_by_name: "served_by svc s ''auth.AuthService'' = Some (AuthService_ServiceDesc, auth_server svc)"
  by (simp add: served_by_def RegisterAuthServiceServer_def AuthService_ServiceDesc_def)

lemma full_method_names:
  "AuthService_Register_FullMethodName = ''/'' @ ''auth.AuthService'' @ ''/'' @ ''Register''"
  "AuthService_Login_FullMethodName = ''/'' @ ''auth.AuthService'' @ ''/'' @ ''Login''"
  "AuthService_Validate_FullMethodName = ''/'' @ ''auth.AuthService'' @ ''/'' @ ''Validate''"
  by (simp_all add: AuthService_Register_FullMethodName_def AuthService_Login_FullMethodName_def AuthService_Validate_FullMethodName_def)

lemma method_handlers:
  "map_of (sd_Methods AuthService_ServiceDesc) ''Register'' = Some Register_Handler"
  "map_of (sd_Methods AuthService_ServiceDesc) ''Login'' = Some Login_Handler"
  "map_of (sd_Methods AuthService_ServiceDesc) ''Validate'' = Some Validate_Handler"
  by (simp_all add: AuthService_ServiceDesc_def)

text \<open>The way of a request there and of the response back, for a method that answers in its own type.\<close>

lemma served_call:
  assumes "codec_laws pc" "grpc_laws pc net salt db (served_by svc s) cc" "map_of (sd_Methods AuthService_ServiceDesc) mn = Some mh"
    and "pb_text req"
    and "\<And>bs. (\<And>z. same_type req z \<Longrightarrow> pc_Unmarshal pc bs z = Inr req) \<Longrightarrow>
      mh (auth_server svc) \<lparr>cx_Salt = salt h, cx_Now = tr_Now net h\<rparr> (request_decoder pc bs) None (db h) = Some (res, h')"
    and "\<And>m. res = Inr m \<Longrightarrow> pb_text m \<and> same_type m out"
  shows "cc_Invoke cc h (''/'' @ ''auth.AuthService'' @ ''/'' @ mn) req out =
     (case tr_Fails net h of Some e \<Rightarrow> Inl e | None \<Rightarrow> map_sum rpc_text id res)"
proof -
  obtain bs where bs: "pc_Marshal pc req = Inr bs" "\<And>z. same_type req z \<Longrightarrow> pc_Unmarshal pc bs z = Inr req"
    using codec_encodes [OF assms(1,4)] by blast
  have "reply_into pc out res = map_sum rpc_text id res" using assms(1,6) by (rule reply_into_ok)
  then show ?thesis
    using invoke_served [OF assms(2) served_by_name assms(3) bs(1) assms(5) [OF bs(2)], of out] by (simp cong: option.case_cong)
qed

lemma stub_Register_served:
  assumes "codec_laws pc" "grpc_laws pc net salt db (served_by svc s) cc" "valid_utf8 u" "valid_utf8 p"
  shows "ac_Register (stub_client cc) h u p = ac_Register (NewAuthServiceClient net svc salt db) h u p"
proof -
  let ?res = "Register svc (salt h) u p (db h)"
  have "cc_Invoke cc h (''/'' @ ''auth.AuthService'' @ ''/'' @ ''Register'') (PbRegisterRequest \<lparr>rgq_Username = u, rgq_Password = p\<rparr>)
      (PbRegisterResponse new_RegisterResponse)
    = (case tr_Fails net h of Some e \<Rightarrow> Inl e | None \<Rightarrow> map_sum rpc_text id (map_sum id PbRegisterResponse (fst ?res)))"
    by (rule served_call [OF assms(1,2) method_handlers(1), where h' = "snd ?res"])
      (use assms(3,4) Register_text [of svc "salt h" u p "db h"] in \<open>auto simp: Register_Handler_def request_decoder_def unary_Register_def auth_server_def
        packed_def map_sum_def split: sum.splits\<close>)
  then show ?thesis
    by (cases "fst ?res") (auto simp: stub_client_def stub_Register_def full_method_names NewAuthServiceClient_def Invoke_def split: option.split)
qed

lemma stub_Login_served:
  assumes "codec_laws pc" "grpc_laws pc net salt db (served_by svc s) cc" "jwt_text (as_JWT svc)" "valid_utf8 u" "valid_utf8 p"
  shows "ac_Login (stub_client cc) h u p = ac_Login (NewAuthServiceClient net svc salt db) h u p"
proof -
  let ?res = "Login svc (tr_Now net h) (tr_Now net h) u p (db h)"
  have "cc_Invoke cc h (''/'' @ ''auth.AuthService'' @ ''/'' @ ''Login'') (PbLoginRequest \<lparr>lgq_Username = u, lgq_Password = p\<rparr>)
      (PbLoginResponse new_LoginResponse)
    = (case tr_Fails net h of Some e \<Rightarrow> Inl e | None \<Rightarrow> map_sum rpc_text id (map_sum id PbLoginResponse (fst ?res)))"
    by (rule served_call [OF assms(1,2) method_handlers(2), where h' = "snd ?res"])
      (use assms(4,5) Login_text [OF assms(3), of "tr_Now net h" "tr_Now net h" u p "db h"] in \<open>auto simp: Login_Handler_def
        request_decoder_def unary_Login_def auth_server_def packed_def map_sum_def split: sum.splits\<close>)
  then show ?thesis
    by (cases "fst ?res") (auto simp: stub_client_def stub_Login_def full_method_names NewAuthServiceClient_def Invoke_def split: option.split)
qed

lemma stub_Validate_served:
  assumes "codec_laws pc" "grpc_laws pc net salt db (served_by svc s) cc" "jwt_text (as_JWT svc)" "valid_utf8 tok"
  shows "ac_Validate (stub_client cc) h tok = ac_Validate (NewAuthServiceClient net svc salt db) h tok"
proof -
  let ?res = "Validate svc (tr_Now net h) tok"
  have "cc_Invoke cc h (''/'' @ ''auth.AuthService'' @ ''/'' @ ''Validate'') (PbTokenRequest \<lparr>tkq_Token = tok\<rparr>)
      (PbTokenResponse new_TokenResponse)
    = (case tr_Fails net h of Some e \<Rightarrow> Inl e | None \<Rightarrow> map_sum rpc_text id (map_sum id PbTokenResponse ?res))"
    by (rule served_call [OF assms(1,2) method_handlers(3), where h' = "db h"])
      (use assms(4) Validate_text [OF assms(3), of "tr_Now net h" tok] in \<open>auto simp: Validate_Handler_def
        request_decoder_def unary_Validate_def auth_server_def packed_def map_sum_def split: sum.splits\<close>)
  then show ?thesis
    by (cases ?res) (auto simp: stub_client_def stub_Validate_def full_method_names NewAuthServiceClient_def Invoke_def split: option.split)
qed

section \<open>The gateway over the stubs\<close>

lemma credentials_text: "credentials body = Some (u, p) \<Longrightarrow> valid_utf8 u \<and> valid_utf8 p"
  by (rule decode_body2_text) (auto simp: credentials_def split: option.splits if_splits)

text \<open>Only the \<open>auth\<close> message asks the auth service, and only for the token it carries.\<close>

lemma dispatch_same_client:
  assumes "gs_AuthClient srv = Some ac" "\<And>h. ac_Validate ac' h (m_Token m) = ac_Validate ac h (m_Token m)"
  shows "dispatch (srv\<lparr>gs_AuthClient := Some ac'\<rparr>) c e m sl = dispatch srv c e m sl"
proof -
  obtain s l where sl: "sl = (s, l)" by (cases sl)
  let ?srv = "srv\<lparr>gs_AuthClient := Some ac'\<rparr>"
  have fields: "gs_Mongo ?srv = gs_Mongo srv" "gs_Redis ?srv = gs_Redis srv" "gs_DB ?srv = gs_DB srv" by simp_all
  have "finish_auth ?srv c e uid ttl = finish_auth srv c e uid ttl" for uid ttl
    by (rule ext) (simp add: finish_auth_def pushUndelivered_def redis_set_online_def fields)
  moreover have "is_banned ?srv = is_banned srv" "log_ban_check ?srv = log_ban_check srv"
    by (intro ext; simp add: is_banned_def log_ban_check_def fields)+
  ultimately have "handle_auth ?srv c e m (s, l) = handle_auth srv c e m (s, l)"
    using assms by (simp add: handle_auth_def Let_def cong: sum.case_cong option.case_cong if_cong)
  moreover have "load_history ?srv = load_history srv" "spawn_save ?srv = spawn_save srv"
    by (intro ext; simp add: load_history_def spawn_save_def fields)+
  then have "handle_join ?srv = handle_join srv" "handle_send ?srv = handle_send srv" "handle_private ?srv = handle_private srv"
      "handle_history ?srv = handle_history srv" "handle_ping ?srv = handle_ping srv"
    by (intro ext; simp add: handle_join_def handle_send_def handle_private_def handle_history_def handle_ping_def Let_def fields
        cong: option.case_cong)+
  ultimately show ?thesis by (simp add: dispatch_def sl)
qed

text \<open>
  C29: the generated code adds nothing and loses nothing. When the gRPC library runs the registered
  handler of each method name and the codec encodes UTF-8, then a gateway whose client is the generated
  stubs, over a connection to a server that has registered \<open>service.go\<close>, answers every request to
  register or log in and handles every frame exactly like one that calls the operations of the service
  directly: no method is mixed up, errors come through, and no request of the gateway can fail to be
  encoded, whatever bytes a client has sent.
\<close>

theorem stubs_serve_the_gateway:
  assumes "codec_laws pc" "grpc_laws pc net salt db (RegisterAuthServiceServer (auth_server svc) s) cc" "jwt_text (as_JWT svc)"
  shows "rest_Register \<lparr>rh_AuthClient = Some (stub_client cc), rh_Redis = rd\<rparr> e r x
       = rest_Register \<lparr>rh_AuthClient = Some (NewAuthServiceClient net svc salt db), rh_Redis = rd\<rparr> e r x
     \<and> rest_Login \<lparr>rh_AuthClient = Some (stub_client cc), rh_Redis = rd\<rparr> e r x
       = rest_Login \<lparr>rh_AuthClient = Some (NewAuthServiceClient net svc salt db), rh_Redis = rd\<rparr> e r x
     \<and> handle_frame (srv\<lparr>gs_AuthClient := Some (stub_client cc)\<rparr>) c we data sl
       = handle_frame (srv\<lparr>gs_AuthClient := Some (NewAuthServiceClient net svc salt db)\<rparr>) c we data sl"
proof (intro conjI)
  note grpc = assms(2) [folded served_by_def]
  let ?direct = "NewAuthServiceClient net svc salt db"
  have reg: "ac_Register (stub_client cc) h u p = ac_Register ?direct h u p"
    and log: "ac_Login (stub_client cc) h u p = ac_Login ?direct h u p" if "credentials (rq_Body r) = Some (u, p)" for h u p
    using stub_Register_served [OF assms(1) grpc] stub_Login_served [OF assms(1) grpc assms(3)] credentials_text [OF that] by simp_all
  show "rest_Register \<lparr>rh_AuthClient = Some (stub_client cc), rh_Redis = rd\<rparr> e r x
      = rest_Register \<lparr>rh_AuthClient = Some ?direct, rh_Redis = rd\<rparr> e r x"
    by (cases "credentials (rq_Body r)") (auto simp: rest_Register_def reg)
  show "rest_Login \<lparr>rh_AuthClient = Some (stub_client cc), rh_Redis = rd\<rparr> e r x
      = rest_Login \<lparr>rh_AuthClient = Some ?direct, rh_Redis = rd\<rparr> e r x"
    by (cases "credentials (rq_Body r)") (auto simp: rest_Login_def log)
  show "handle_frame (srv\<lparr>gs_AuthClient := Some (stub_client cc)\<rparr>) c we data sl
      = handle_frame (srv\<lparr>gs_AuthClient := Some ?direct\<rparr>) c we data sl"
  proof (cases "unmarshal_WSMsg data")
    case None
    then show ?thesis by (simp add: handle_frame_def split: prod.split)
  next
    case (Some m)
    have "ac_Validate (stub_client cc) h (m_Token m) = ac_Validate ?direct h (m_Token m)" for h
      using stub_Validate_served [OF assms(1) grpc assms(3)] unmarshal_text [OF Some] by (simp add: utf8_WSMsg_def)
    then have "dispatch (srv\<lparr>gs_AuthClient := Some ?direct, gs_AuthClient := Some (stub_client cc)\<rparr>) c we m sl'
        = dispatch (srv\<lparr>gs_AuthClient := Some ?direct\<rparr>) c we m sl'" for sl'
      by (intro dispatch_same_client [where ac = ?direct]) simp_all
    then show ?thesis using Some by (simp add: handle_frame_def split: prod.split)
  qed
qed

section \<open>A codec and a connection\<close>

text \<open>Messages as JSON arrays, and a connection that runs the handlers of the descriptor at once.\<close>

fun pb_json :: "pb_message \<Rightarrow> json" where
  "pb_json (PbRegisterRequest r) = JArr [JStr (rgq_Username r), JStr (rgq_Password r)]"
| "pb_json (PbRegisterResponse r) = JArr [JBool (rr_Success r), JStr (rr_Message r)]"
| "pb_json (PbLoginRequest r) = JArr [JStr (lgq_Username r), JStr (lgq_Password r)]"
| "pb_json (PbLoginResponse r) = JArr [JBool (lr_Success r), JStr (lr_Token r), JStr (lr_Message r)]"
| "pb_json (PbTokenRequest r) = JArr [JStr (tkq_Token r)]"
| "pb_json (PbTokenResponse r) = JArr [JBool (tr_Valid r), JStr (tr_UserId r)]"

definition item_str :: "json \<Rightarrow> nat \<Rightarrow> string" where
  "item_str v i = (case v of JArr xs \<Rightarrow> (case xs ! i of JStr s \<Rightarrow> s | _ \<Rightarrow> []) | _ \<Rightarrow> [])"

definition item_bool :: "json \<Rightarrow> bool" where
  "item_bool v = (case v of JArr xs \<Rightarrow> xs ! 0 = JBool True | _ \<Rightarrow> False)"

fun pb_fill :: "pb_message \<Rightarrow> json \<Rightarrow> pb_message" where
  "pb_fill (PbRegisterRequest _) v = PbRegisterRequest \<lparr>rgq_Username = item_str v 0, rgq_Password = item_str v 1\<rparr>"
| "pb_fill (PbRegisterResponse _) v = PbRegisterResponse \<lparr>rr_Success = item_bool v, rr_Message = item_str v 1\<rparr>"
| "pb_fill (PbLoginRequest _) v = PbLoginRequest \<lparr>lgq_Username = item_str v 0, lgq_Password = item_str v 1\<rparr>"
| "pb_fill (PbLoginResponse _) v = PbLoginResponse \<lparr>lr_Success = item_bool v, lr_Token = item_str v 1, lr_Message = item_str v 2\<rparr>"
| "pb_fill (PbTokenRequest _) v = PbTokenRequest \<lparr>tkq_Token = item_str v 0\<rparr>"
| "pb_fill (PbTokenResponse _) v = PbTokenResponse \<lparr>tr_Valid = item_bool v, tr_UserId = item_str v 1\<rparr>"

definition json_codec :: pb_codec where
  "json_codec =
     \<lparr>pc_Marshal = (\<lambda>m. if pb_text m then Inr (marshal (pb_json m)) else Inl ''string field contains invalid UTF-8''),
      pc_Unmarshal = (\<lambda>bs z. case parse_json bs of
         None \<Rightarrow> Inl ''syntax'' | Some v \<Rightarrow> Inr (pb_fill z v))\<rparr>"

lemma json_codec_laws: "codec_laws json_codec"
proof -
  have filled: "pb_fill z (pb_json m) = m" if "same_type m z" for m z
    using that by (cases m; cases z) (simp_all add: item_str_def item_bool_def)
  have "wf_json (pb_json m)" "depth (pb_json m) \<le> max_depth" if "pb_text m" for m
    using that by (cases m; simp add: max_depth_def)+
  then show ?thesis
    by (auto simp: codec_laws_def json_codec_def parse_json_marshal filled split: if_splits)
qed

definition method_of :: "string \<Rightarrow> method_handler" where
  "method_of name =
     (if name = AuthService_Register_FullMethodName then Register_Handler
      else if name = AuthService_Login_FullMethodName then Login_Handler else Validate_Handler)"

definition plain_conn ::
    "pb_codec \<Rightarrow> transport \<Rightarrow> (trace \<Rightarrow> nat) \<Rightarrow> (trace \<Rightarrow> auth_trace) \<Rightarrow> AuthServiceServer \<Rightarrow> ClientConn" where
  "plain_conn pc net salt db srv =
     \<lparr>cc_Invoke = (\<lambda>h name req out.
        case pc_Marshal pc req of
          Inl e \<Rightarrow> Inl e
        | Inr bs \<Rightarrow>
            (case tr_Fails net h of
               Some e \<Rightarrow> Inl e
             | None \<Rightarrow>
                 (case method_of name srv \<lparr>cx_Salt = salt h, cx_Now = tr_Now net h\<rparr> (request_decoder pc bs) None (db h) of
                    None \<Rightarrow> Inl ''rpc error: code = Unavailable desc = error reading from server: EOF''
                  | Some res \<Rightarrow> reply_into pc out (fst res))))\<rparr>"

lemma plain_conn_laws: "grpc_laws pc net salt db (RegisterAuthServiceServer srv Map.empty) (plain_conn pc net salt db srv)"
proof -
  have "method_of (''/'' @ ''auth.AuthService'' @ ''/'' @ mn) = mh" if "map_of (sd_Methods AuthService_ServiceDesc) mn = Some mh" for mn mh
    using that
    by (auto simp: AuthService_ServiceDesc_def method_of_def full_method_names split: if_splits)
  then show ?thesis
    by (auto simp: grpc_laws_def RegisterAuthServiceServer_def AuthService_ServiceDesc_def plain_conn_def split: if_splits option.split)
qed

theorem stubs_serve_the_gateway_witness:
  "rest_Login \<lparr>rh_AuthClient = Some (stub_client (plain_conn json_codec good_net (\<lambda>_. 0) (\<lambda>_. []) (auth_server mem_service))), rh_Redis = None\<rparr>
       web0 ban_request fresh
     = rest_Login \<lparr>rh_AuthClient = Some (NewAuthServiceClient good_net mem_service (\<lambda>_. 0) (\<lambda>_. [])), rh_Redis = None\<rparr> web0 ban_request fresh"
proof -
  have "valid_utf8 ''tok''" by (rule ascii_tok)
  moreover have "valid_utf8 ''0''" by (rule valid_utf8_ascii) (simp add: code_def)
  ultimately have "jwt_text (as_JWT mem_service)"
    by (auto simp: jwt_text_def mem_service_def one_jwt_def mem_claims_def login_claims_def split: if_splits)
  from stubs_serve_the_gateway [OF json_codec_laws plain_conn_laws this] show ?thesis by blast
qed

end
