(* ===== verification/Accounts.thy ===== *)
theory Accounts
  imports RpcProperties
begin

text \<open>
  The two processes as one system. The auth service has no client but the gateway, so its calls are
  determined by those of the gateway: its trace is replayed from the trace of the gateway, and the
  client that the gateway uses answers from the state of the auth service that its earlier calls have
  led to.
\<close>

section \<open>The trace of the auth service\<close>

text \<open>
  What the calls meet, as functions of the gateway's trace: the random salt; the \<open>users\<close> table, whose
  roles the gateway changes too; and whether a call whose reply is lost was carried out nevertheless.
\<close>

record auth_world =
  aw_Salt :: "trace \<Rightarrow> nat"
  aw_DB :: "trace \<Rightarrow> AccountDB"
  aw_Ran :: "trace \<Rightarrow> bool"

definition svc_at :: "AuthService \<Rightarrow> auth_world \<Rightarrow> trace \<Rightarrow> AuthService" where
  "svc_at svc w h = svc\<lparr>as_DB := aw_DB w h\<rparr>"

definition served_call :: "transport \<Rightarrow> AuthService \<Rightarrow> auth_world \<Rightarrow> trace \<Rightarrow> call \<Rightarrow> auth_trace \<Rightarrow> auth_trace" where
  "served_call net svc w h c ah =
     (if tr_Fails net h = None \<or> aw_Ran w h then
        (case c of
           CallRegister u p \<Rightarrow> snd (Register (svc_at svc w h) (aw_Salt w h) u p ah)
         | CallLogin u p \<Rightarrow> snd (Login (svc_at svc w h) (tr_Now net h) (tr_Now net h) u p ah)
         | _ \<Rightarrow> ah)
      else ah)"

text \<open>The calls are listed from the last one to the first.\<close>

primrec replayed :: "transport \<Rightarrow> AuthService \<Rightarrow> auth_world \<Rightarrow> call list \<Rightarrow> auth_trace" where
  "replayed net svc w [] = []"
| "replayed net svc w (c # rh) = served_call net svc w (rev rh) c (replayed net svc w rh)"

definition accounts :: "transport \<Rightarrow> AuthService \<Rightarrow> auth_world \<Rightarrow> trace \<Rightarrow> auth_trace" where
  "accounts net svc w h = replayed net svc w (rev h)"

definition account_client :: "transport \<Rightarrow> AuthService \<Rightarrow> auth_world \<Rightarrow> AuthServiceClient" where
  "account_client net svc w =
     (let at = (\<lambda>h. NewAuthServiceClient net (svc_at svc w h) (aw_Salt w) (accounts net svc w)) in
      \<lparr>ac_Validate = (\<lambda>h. ac_Validate (at h) h), ac_Register = (\<lambda>h. ac_Register (at h) h), ac_Login = (\<lambda>h. ac_Login (at h) h)\<rparr>)"

lemma accounts_Nil [simp]: "accounts net svc w [] = []"
  by (simp add: accounts_def)

lemma accounts_snoc [simp]: "accounts net svc w (h @ [c]) = served_call net svc w h c (accounts net svc w h)"
  by (simp add: accounts_def)

lemma Register_extends: "\<exists>new. snd (Register svc salt u p h) = h @ new"
  using Register_trace [of svc salt u p h] by auto

lemma Login_extends: "\<exists>new. snd (Login svc now1 now2 u p h) = h @ new"
  unfolding Login_def Let_def by (auto split: sum.split prod.split)

lemma served_extends: "\<exists>new. served_call net svc w h c ah = ah @ new"
  using Register_extends Login_extends by (cases c) (auto simp: served_call_def)

lemma accounts_extends: "\<exists>new. accounts net svc w (h @ later) = accounts net svc w h @ new"
proof (induction later rule: rev_induct)
  case (snoc c later)
  then obtain new where "accounts net svc w (h @ later) = accounts net svc w h @ new" by blast
  moreover obtain more where "served_call net svc w (h @ later) c (accounts net svc w h @ new) = (accounts net svc w h @ new) @ more"
    using served_extends by blast
  ultimately show ?case by (simp flip: append_assoc) (simp add: exI)
qed simp

lemma account_client_simps:
  "ac_Validate (account_client net svc w) h = ac_Validate (NewAuthServiceClient net (svc_at svc w h) (aw_Salt w) (accounts net svc w)) h"
  "ac_Register (account_client net svc w) h = ac_Register (NewAuthServiceClient net (svc_at svc w h) (aw_Salt w) (accounts net svc w)) h"
  "ac_Login (account_client net svc w) h = ac_Login (NewAuthServiceClient net (svc_at svc w h) (aw_Salt w) (accounts net svc w)) h"
  by (simp_all add: account_client_def Let_def)

lemma svc_at_simps [simp]:
  "as_DB (svc_at svc w h) = aw_DB w h" "as_Bcrypt (svc_at svc w h) = as_Bcrypt svc" "as_JWT (svc_at svc w h) = as_JWT svc"
  "as_JWTSecret (svc_at svc w h) = as_JWTSecret svc"
  "hashPassword (svc_at svc w h) = hashPassword svc" "checkPassword (svc_at svc w h) = checkPassword svc"
  by (simp_all add: svc_at_def hashPassword_def [abs_def] checkPassword_def [abs_def])

section \<open>Registered accounts\<close>

definition world_laws :: "collation \<Rightarrow> AuthService \<Rightarrow> auth_world \<Rightarrow> account_rows \<Rightarrow> bool" where
  "world_laws same svc w rows \<longleftrightarrow>
     bcrypt_laws (as_Bcrypt svc) \<and> jwt_laws (as_JWT svc) \<and> (\<forall>h. accounts_laws same (aw_DB w h) rows)"

lemma world_lawsD:
  assumes "world_laws same svc w rows"
  shows "bcrypt_laws (as_Bcrypt svc)" "jwt_laws (as_JWT svc)" "accounts_laws same (aw_DB w h) rows" "equivp same"
  using assms accounts_lawsD(6) unfolding world_laws_def by blast+

text \<open>An account: its name, its id and a password that its hash matches, at a point of the gateway's trace.\<close>

definition has_account :: "transport \<Rightarrow> AuthService \<Rightarrow> auth_world \<Rightarrow> collation \<Rightarrow> account_rows \<Rightarrow> trace \<Rightarrow> string \<Rightarrow> string \<Rightarrow> string \<Rightarrow> bool" where
  "has_account net svc w same rows h u i p \<longleftrightarrow>
     (\<exists>hash. sole_row same u i hash (rows (accounts net svc w h)) \<and> checkPassword svc hash p)"

lemma account_stays:
  assumes "world_laws same svc w rows" "has_account net svc w same rows h u i p"
  shows "has_account net svc w same rows (h @ later) u i p"
proof -
  obtain new where "accounts net svc w (h @ later) = accounts net svc w h @ new" using accounts_extends by blast
  moreover obtain hash where "sole_row same u i hash (rows (accounts net svc w h))" "checkPassword svc hash p"
    using assms(2) by (auto simp: has_account_def)
  ultimately show ?thesis
    using sole_row_later [OF world_lawsD(3) [OF assms(1)]] by (metis has_account_def)
qed

lemma register_makes_account:
  assumes laws: "world_laws same svc w rows"
    and reply: "ac_Register (account_client net svc w) h u p = Inr resp" "rr_Success resp"
  shows "\<exists>i. has_account net svc w same rows (h @ [CallRegister u p]) u i p"
proof -
  let ?res = "Register (svc_at svc w h) (aw_Salt w h) u p (accounts net svc w h)"
  have net: "tr_Fails net h = None" and ok: "fst ?res = Inr resp"
    using reply(1) by (auto simp: account_client_simps NewAuthServiceClient_def Invoke_def split: option.splits sum.splits)
  obtain hash where hash: "length p \<le> 72" "hashPassword svc (aw_Salt w h) p = Inr hash"
      "ad_Insert (aw_DB w h) (accounts net svc w h) u hash = None" "snd ?res = accounts net svc w h @ [CallInsertUser u hash]"
    using Register_success [OF ok reply(2)] by auto
  have "checkPassword svc hash p"
    using world_lawsD(1) [OF laws] hash(1,2) unfolding bcrypt_laws_def hashPassword_def checkPassword_def by (metis sum.inject(2))
  moreover obtain i where "sole_row same u i hash (rows (accounts net svc w h @ [CallInsertUser u hash]))"
    using sole_row_insert [OF world_lawsD(3) [OF laws] hash(3)] by blast
  ultimately show ?thesis using net hash(4) by (auto simp: has_account_def served_call_def)
qed

text \<open>
  When the table can be read and the token signed: the id that is read is that of the account, the login
  succeeds and marks the user in Redis.
\<close>

lemma login_finds_account:
  assumes laws: "world_laws same svc w rows" and account: "has_account net svc w same rows h u i p" "same u v"
    and row: "ad_Select (aw_DB w h) (accounts net svc w h) v = Inr (uid, hash, role)"
  shows "uid = i \<and> checkPassword svc hash p"
  using account row sole_row_select [OF world_lawsD(3) [OF laws] _ account(2) row] by (auto simp: has_account_def)

lemma login_answers:
  assumes laws: "world_laws same svc w rows" and account: "has_account net svc w same rows h u i p" "same u v" "v \<noteq> []" "p \<noteq> []"
    and row: "ad_Select (aw_DB w h) (accounts net svc w h) v = Inr (uid, hash, role)"
    and net: "tr_Fails net h = None"
    and tok: "jl_Sign (as_JWT svc) HS256 (as_JWTSecret svc) (login_claims uid role (tr_Now net h) (tr_Now net h)) = Inr tok"
  shows "ac_Login (account_client net svc w) h v p = Inr \<lparr>lr_Success = True, lr_Token = tok, lr_Message = ''Login successful''\<rparr>"
    and "accounts net svc w (h @ [CallLogin v p]) =
      accounts net svc w h @ [CallSelectUser v, CallSetOnline (''user:'' @ i @ '':online'') ''true'' tokenTTL]"
proof -
  have "uid = i" "checkPassword svc hash p" using login_finds_account [OF laws account(1,2) row] by auto
  then have "Login (svc_at svc w h) (tr_Now net h) (tr_Now net h) v p (accounts net svc w h) =
      (Inr \<lparr>lr_Success = True, lr_Token = tok, lr_Message = ''Login successful''\<rparr>,
       accounts net svc w h @ [CallSelectUser v, CallSetOnline (''user:'' @ i @ '':online'') ''true'' tokenTTL])"
    using account(3,4) row tok by (simp add: Login_def)
  then show "ac_Login (account_client net svc w) h v p = Inr \<lparr>lr_Success = True, lr_Token = tok, lr_Message = ''Login successful''\<rparr>"
    and "accounts net svc w (h @ [CallLogin v p]) =
      accounts net svc w h @ [CallSelectUser v, CallSetOnline (''user:'' @ i @ '':online'') ''true'' tokenTTL]"
    using net by (simp_all add: account_client_simps NewAuthServiceClient_def Invoke_def served_call_def)
qed

text \<open>A token that \<open>Login\<close> has signed is valid until it expires, as the user whose id it carries.\<close>

lemma issued_token_validates:
  assumes laws: "world_laws same svc w rows"
    and tok: "jl_Sign (as_JWT svc) HS256 (as_JWTSecret svc) (login_claims uid role now1 now2) = Inr tok"
    and net: "tr_Fails net h = None" "tr_Now net h < NumericDate (now1 + tokenTTL) * 1000000000"
  shows "ac_Validate (account_client net svc w) h tok = Inr (Some \<lparr>tr_Valid = True, tr_UserId = uid\<rparr>)"
proof -
  have "jl_Parse (as_JWT svc) (tr_Now net h) (hmac_key (as_JWTSecret svc)) tok
      = Inr \<lparr>tk_Claims = login_claims uid role now1 now2, tk_Valid = True\<rparr>"
    using world_lawsD(2) [OF laws] tok net(2) unfolding jwt_laws_def by (simp add: hmac_key_def HS256_def login_claims_def)
  then show ?thesis
    using net(1) by (simp add: account_client_simps validate_rpc Validate_def login_claims_def)
qed

section \<open>Answers\<close>

text \<open>What a client reads in the body of an answer: the value under a key of the object.\<close>

definition answers :: "exchange \<Rightarrow> string \<Rightarrow> json \<Rightarrow> bool" where
  "answers y k v \<longleftrightarrow>
     (\<exists>b fs. w_Body (x_w y) = b @ [CHR 0x0A] \<and> parse_json b = Some (JObj fs) \<and> map_of fs k = Some v)"

lemma answers_unique: "answers y k v \<Longrightarrow> answers y k v' \<Longrightarrow> v = v'"
  by (auto simp: answers_def)

definition unanswered :: "exchange \<Rightarrow> bool" where
  "unanswered x \<longleftrightarrow> w_Sent (x_w x) = None \<and> w_Body (x_w x) = []"

lemma unanswered_log [simp]: "unanswered (log_x c x) = unanswered x"
  by (simp add: unanswered_def log_x_def)

lemma reply_answers:
  assumes "unanswered x" "list_all (\<lambda>(k, v). valid_utf8 k \<and> int_json v \<and> depth v = 0) kvs" "distinct (map fst kvs)"
    and "map_of kvs k = Some v"
  shows "answers (reply s (json_map kvs) x) k (clean v)"
proof -
  obtain fs where "parse_json (marshal (json_map kvs)) = Some (JObj fs)" "map_of fs = map_option clean \<circ> map_of kvs"
    using parse_json_map [OF _ assms(3)] assms(2) by (fastforce simp: list_all_iff)
  then show ?thesis
    using assms(1,4) by (auto simp: answers_def unanswered_def jsonResponse_fresh)
qed

lemma ascii_answers [simp]: "valid_utf8 ''ok''" "valid_utf8 ''token''"
  by (rule valid_utf8_ascii, simp add: code_def)+

lemma error_answers: "unanswered x \<Longrightarrow> answers (error_reply s msg x) ''ok'' (JBool False)"
  unfolding error_reply_def by (drule reply_answers [where k = "''ok''" and v = "JBool False"]) simp_all

lemma register_answers:
  "unanswered x \<Longrightarrow> answers (reply 200 (json_map [(''ok'', JBool b), (''msg'', JStr msg)]) x) ''ok'' (JBool b)"
  by (drule reply_answers [where k = "''ok''" and v = "JBool b"]) simp_all

lemma login_reply_answers:
  assumes "unanswered x"
  shows "answers (reply 200 (json_map [(''ok'', JBool b), (''msg'', JStr msg), (''token'', JStr tok)]) x) ''ok'' (JBool b)"
    and "answers (reply 200 (json_map [(''ok'', JBool b), (''msg'', JStr msg), (''token'', JStr tok)]) x) ''token'' (JStr (to_utf8 tok))"
  using reply_answers [OF assms, where k = "''ok''" and v = "JBool b"] reply_answers [OF assms, where k = "''token''" and v = "JStr tok"]
  by simp_all

text \<open>A registration that was answered with ok was carried out.\<close>

lemma register_answered:
  assumes "rq_Method r = MethodPost" "credentials (rq_Body r) = Some (u, p)" "rh_AuthClient rh = Some ac" "unanswered x"
    and "rest_Register rh e r x = Returns y" "answers y ''ok'' (JBool True)"
  shows "\<exists>resp. ac_Register ac (gw_trace (x_gw x)) u p = Inr resp \<and> rr_Success resp
     \<and> gw_trace (x_gw y) = gw_trace (x_gw x) @ [CallRegister u p]"
proof (cases "ac_Register ac (gw_trace (x_gw x)) u p")
  case (Inl err)
  then have "y = error_reply 500 err (log_x (CallRegister u p) x)" using assms(1-3,5) by (simp add: rest_Register_def)
  then have "answers y ''ok'' (JBool False)" using assms(4) by (simp add: error_answers)
  then show ?thesis using answers_unique [OF assms(6)] by fastforce
next
  case (Inr resp)
  let ?y = "reply 200 (json_map [(''ok'', JBool (rr_Success resp)), (''msg'', JStr (rr_Message resp))]) (log_x (CallRegister u p) x)"
  have y: "y = ?y" using assms(1-3,5) Inr by (simp add: rest_Register_def)
  have "answers ?y ''ok'' (JBool (rr_Success resp))" by (rule register_answers) (simp add: assms(4))
  then have "rr_Success resp" using answers_unique [OF assms(6)] y by fastforce
  then show ?thesis using Inr y by (simp add: log_x_def log_call_def)
qed

section \<open>From registration to chat\<close>

text \<open>What a login with a name needs at a point of the trace, with the id that is read and the token.\<close>

definition login_possible :: "transport \<Rightarrow> AuthService \<Rightarrow> auth_world \<Rightarrow> trace \<Rightarrow> string \<Rightarrow> string \<Rightarrow> string \<Rightarrow> bool" where
  "login_possible net svc w h v uid tok \<longleftrightarrow>
     tr_Fails net h = None
   \<and> (\<exists>hash role. ad_Select (aw_DB w h) (accounts net svc w h) v = Inr (uid, hash, role)
        \<and> jl_Sign (as_JWT svc) HS256 (as_JWTSecret svc) (login_claims uid role (tr_Now net h) (tr_Now net h)) = Inr tok)"

text \<open>
  Until an instant, every connection that sends the token in one of its first three \<open>auth\<close> messages, over
  a working transport and for a user who is not known to be banned, is authenticated as that user.
\<close>

definition opens_chat :: "transport \<Rightarrow> GatewayServer \<Rightarrow> time_ns \<Rightarrow> string \<Rightarrow> string \<Rightarrow> bool" where
  "opens_chat net srv until tok uid \<longleftrightarrow>
     (\<forall>s l data m c e. tr_Fails net (gw_trace s) = None \<and> tr_Now net (gw_trace s) < until
        \<and> unmarshal_WSMsg data = Some m \<and> m_Type m = ''auth'' \<and> m_Token m = tok \<and> authAttempts l < 3
        \<and> \<not> is_banned srv uid (log_call (CallValidate tok) s) \<longrightarrow>
        identity (fst (state_of (handle_frame srv c e data (s, l)))) (snd (state_of (handle_frame srv c e data (s, l)))) = Some uid)"

lemma token_admits:
  assumes laws: "world_laws same svc w rows" and client: "gs_AuthClient srv = Some (account_client net svc w)"
    and tok: "jl_Sign (as_JWT svc) HS256 (as_JWTSecret svc) (login_claims uid role now1 now2) = Inr tok"
  shows "opens_chat net srv (NumericDate (now1 + tokenTTL) * 1000000000) tok uid"
  unfolding opens_chat_def
proof (intro allI impI, elim conjE)
  fix s :: gw_state and l :: ws_local and data m c e
  assume net: "tr_Fails net (gw_trace s) = None" "tr_Now net (gw_trace s) < NumericDate (now1 + tokenTTL) * 1000000000"
    and msg: "unmarshal_WSMsg data = Some m" "m_Type m = ''auth''" "m_Token m = tok" "authAttempts l < 3"
    and ban: "\<not> is_banned srv uid (log_call (CallValidate tok) s)"
  have "admitted srv (account_client net svc w) (m_Token m) s l = Some uid"
    using issued_token_validates [OF laws tok net] msg(3,4) ban by (simp add: admitted_def)
  then show "identity (fst (state_of (handle_frame srv c e data (s, l)))) (snd (state_of (handle_frame srv c e data (s, l)))) = Some uid"
    using handle_auth_admitted [OF client, where m = m and s = s and l = l and c = c and e = e] msg(1,2)
    by (simp add: handle_frame_def dispatch_def)
qed

text \<open>The login of an account over REST.\<close>

lemma login_over_rest:
  assumes laws: "world_laws same svc w rows" and client: "rh_AuthClient rh = Some (account_client net svc w)"
    and request: "rq_Method r = MethodPost" "credentials (rq_Body r) = Some (v, p)" "unanswered x"
    and account: "has_account net svc w same rows (gw_trace (x_gw x)) u i p" "same u v"
    and able: "login_possible net svc w (gw_trace (x_gw x)) v uid tok"
  shows "\<exists>y. rest_Login rh e r x = Returns y \<and> w_status (x_w y) = Some 200
     \<and> answers y ''ok'' (JBool True) \<and> answers y ''token'' (JStr (to_utf8 tok)) \<and> uid = i"
proof -
  let ?h = "gw_trace (x_gw x)"
  obtain hash role where row: "ad_Select (aw_DB w ?h) (accounts net svc w ?h) v = Inr (uid, hash, role)" "tr_Fails net ?h = None"
    and tok: "jl_Sign (as_JWT svc) HS256 (as_JWTSecret svc) (login_claims uid role (tr_Now net ?h) (tr_Now net ?h)) = Inr tok"
    using able unfolding login_possible_def by blast
  have "v \<noteq> []" "p \<noteq> []" using request(2) by (auto simp: credentials_def split: option.splits if_splits)
  then have "ac_Login (account_client net svc w) ?h v p = Inr \<lparr>lr_Success = True, lr_Token = tok, lr_Message = ''Login successful''\<rparr>"
    by (rule login_answers [OF laws account _ _ row tok])
  then have "rest_Login rh e r x = Returns (reply 200 (json_map [(''ok'', JBool True), (''msg'', JStr ''Login successful''),
      (''token'', JStr tok)]) (log_x (CallLogin v p) x))"
    using request(1,2) client by (simp add: rest_Login_def)
  moreover have "unanswered (log_x (CallLogin v p) x)" using request(3) by simp
  ultimately show ?thesis
    using login_reply_answers [of "log_x (CallLogin v p) x"] login_finds_account [OF laws account row(1)]
    by (simp add: unanswered_def jsonResponse_fresh)
qed


section \<open>A run\<close>

text \<open>Both processes in memory: \<open>bob\<close> registers, logs in and connects.\<close>

lemma decode_first_marshal: "wf_json v \<Longrightarrow> depth v \<le> max_depth \<Longrightarrow> decode_first (marshal v) = Some v"
  using parse_json_marshal [of v] by (auto simp: parse_json_def decode_first_def split: option.splits if_splits)

definition bob_body :: bytes where
  "bob_body = marshal (JObj [(''username'', JStr ''bob''), (''password'', JStr ''secret'')])"

lemma bob_credentials: "credentials bob_body = Some (''bob'', ''secret'')"
proof -
  have "valid_utf8 ''username''" "valid_utf8 ''password''" "valid_utf8 ''bob''" "valid_utf8 ''secret''"
    by (rule valid_utf8_ascii, simp add: code_def)+
  then have "decode_first bob_body = Some (JObj [(''username'', JStr ''bob''), (''password'', JStr ''secret'')])"
    unfolding bob_body_def by (intro decode_first_marshal) (simp_all add: max_depth_def)
  moreover have "fold_key ''password'' \<noteq> fold_key ''username''"
    by (simp add: fold_key.simps upper_byte_def code_def char_of_upper char_of_def bit_Suc_0_iff)
  ultimately show ?thesis
    by (simp add: credentials_def decode_body2_def decode_struct2_def decode_struct1_def decode_key_def decode_string_def)
qed

definition mem_world :: auth_world where
  "mem_world = \<lparr>aw_Salt = (\<lambda>_. 0), aw_DB = (\<lambda>_. mem_accounts), aw_Ran = (\<lambda>_. False)\<rparr>"

definition mem_client :: AuthServiceClient where
  "mem_client = account_client good_net mem_service mem_world"

definition mem_rest :: RESTHandler where
  "mem_rest = \<lparr>rh_AuthClient = Some mem_client, rh_Redis = None\<rparr>"

definition mem_srv :: GatewayServer where
  "mem_srv = dev_srv\<lparr>gs_AuthClient := Some mem_client\<rparr>"

lemma mem_world_laws: "world_laws (=) mem_service mem_world (\<lambda>h. set (mem_rows [] h))"
  using mem_service_laws mem_accounts_laws by (simp add: world_laws_def mem_world_def)

definition bob_request :: "string \<Rightarrow> http_request" where
  "bob_request path = (request ''POST'' path)\<lparr>rq_Body := bob_body\<rparr>"

lemma bob_request_simps [simp]:
  "rq_Method (bob_request path) = MethodPost" "credentials (rq_Body (bob_request path)) = Some (''bob'', ''secret'')"
  by (simp_all add: bob_request_def request_def MethodPost_def bob_credentials)

lemma fresh_unanswered [simp]: "unanswered fresh"
  by (simp add: unanswered_def fresh_def new_writer_def)

lemma bob_registers:
  "Register (svc_at mem_service mem_world []) 0 ''bob'' ''secret'' [] =
     (register_reply True ''Registration successful'', bob_rows)"
  by (simp add: Register_def mem_world_def svc_at_def hashPassword_def mem_service_def plain_bcrypt_def mem_accounts_def
      register_reply_def Let_def bob_rows_def)

definition bob_made :: exchange where
  "bob_made = state_of (rest_Register mem_rest web0 (bob_request ''/api/register'') fresh)"

lemma bob_made:
  "rest_Register mem_rest web0 (bob_request ''/api/register'') fresh = Returns bob_made"
  "answers bob_made ''ok'' (JBool True)" "gw_trace (x_gw bob_made) = [CallRegister ''bob'' ''secret'']"
proof -
  have "ac_Register mem_client [] ''bob'' ''secret'' = Inr \<lparr>rr_Success = True, rr_Message = ''Registration successful''\<rparr>"
    using bob_registers
    by (simp add: mem_client_def account_client_simps NewAuthServiceClient_def Invoke_def register_reply_def)
      (simp add: mem_world_def)
  moreover have "gw_trace (x_gw fresh) = []" by (simp add: fresh_def empty_gw_def)
  ultimately have made: "rest_Register mem_rest web0 (bob_request ''/api/register'') fresh =
      Returns (reply 200 (json_map [(''ok'', JBool True), (''msg'', JStr ''Registration successful'')]) (log_x (CallRegister ''bob'' ''secret'') fresh))"
    by (simp add: rest_Register_def mem_rest_def)
  then show "rest_Register mem_rest web0 (bob_request ''/api/register'') fresh = Returns bob_made"
    by (simp add: bob_made_def)
  show "answers bob_made ''ok'' (JBool True)" using made by (simp add: bob_made_def register_answers)
  show "gw_trace (x_gw bob_made) = [CallRegister ''bob'' ''secret'']"
    using made by (simp add: bob_made_def log_x_def log_call_def fresh_def empty_gw_def)
qed

lemma bob_accounts: "accounts good_net mem_service mem_world [CallRegister ''bob'' ''secret''] = bob_rows"
  using bob_registers accounts_snoc [of good_net mem_service mem_world "[]" "CallRegister ''bob'' ''secret''"]
  by (simp add: served_call_def) (simp add: mem_world_def)

lemma bob_can_login:
  "login_possible good_net mem_service mem_world [CallRegister ''bob'' ''secret''] ''bob'' ''0'' ''tok''"
proof -
  have "ad_Select mem_accounts bob_rows ''bob'' = Inr (''0'', ''secret'', ''user'')"
    using bob_select by (simp add: mem_service_def)
  then show ?thesis
    using bob_accounts by (simp add: login_possible_def) (simp add: mem_world_def mem_service_def one_jwt_def mem_claims_def)
qed


section \<open>What a ban leaves open\<close>

text \<open>
  A ban is asked for by the WebSocket handler only. \<open>Login\<close> reads the role and puts it into the token
  but does not look at it, and the upload asks for a valid token only: an account whose role is \<open>banned\<close>
  is given a token at every login, and with it the upload is served as for anyone else.
\<close>

theorem banned_account_still_uploads:
  assumes "world_laws same svc w rows" "has_account net svc w same rows h u i pw" "same u v" "v \<noteq> []" "pw \<noteq> []"
    and "tr_Fails net h = None" "ad_Select (aw_DB w h) (accounts net svc w h) v = Inr (uid, hash, ''banned'')"
    and "jl_Sign (as_JWT svc) HS256 (as_JWTSecret svc) (login_claims uid ''banned'' (tr_Now net h) (tr_Now net h)) = Inr tok"
    and "gp_Secret p = as_JWTSecret svc" "rq_Path r = ''/api/upload''" "rq_Method r \<noteq> MethodOptions"
    and "rq_Header r ''Authorization'' = bearer @ tok" "we_clk e 0 < NumericDate (tr_Now net h + tokenTTL) * 1000000000"
  shows "ac_Login (account_client net svc w) h v pw = Inr \<lparr>lr_Success = True, lr_Token = tok, lr_Message = ''Login successful''\<rparr>
     \<and> (\<exists>cl wr. serve (as_JWT svc) ws files p e r x = Upload e (with_user cl r) (x\<lparr>x_w := wr\<rparr>))"
proof
  show "ac_Login (account_client net svc w) h v pw = Inr \<lparr>lr_Success = True, lr_Token = tok, lr_Message = ''Login successful''\<rparr>"
    by (rule login_answers [OF assms(1-5,7,6,8)])
  let ?cl = "login_claims uid ''banned'' (tr_Now net h) (tr_Now net h)"
  have "jl_Parse (as_JWT svc) (we_clk e 0) (hmac_key (as_JWTSecret svc)) tok = Inr \<lparr>tk_Claims = ?cl, tk_Valid = True\<rparr>"
    using world_lawsD(2) [OF assms(1)] assms(8,13) unfolding jwt_laws_def by (simp add: hmac_key_def HS256_def login_claims_def)
  then have parse: "parseJWTToken (as_JWT svc) (we_clk e 0) (TrimPrefix (rq_Header r ''Authorization'') bearer) (gp_Secret p) = Inr ?cl"
    using assms(9,12) by (simp add: parseJWTToken_def)
  obtain wr where "serve (as_JWT svc) ws files p e r x = mux (as_JWT svc) ws files p e r (x\<lparr>x_w := wr\<rparr>)"
    using cors_frame [of "gp_Cors p" "mux (as_JWT svc) ws files p" e r x] assms(11) by (auto simp: serve_def)
  moreover have "HasPrefix (rq_Header r ''Authorization'') bearer" "rq_Header r ''Authorization'' \<noteq> []"
    using assms(12) HasPrefix_append [of bearer tok] by (simp_all, simp add: bearer_def)
  then have "mux (as_JWT svc) ws files p e r y = Upload e (with_user ?cl r) y" for y
    using assms(10) parse by (simp add: mux_def Let_def AuthMiddleware_def)
  ultimately show "\<exists>cl wr. serve (as_JWT svc) ws files p e r x = Upload e (with_user cl r) (x\<lparr>x_w := wr\<rparr>)"
    by (intro exI [of _ ?cl] exI [of _ wr]) simp
qed

end
