(* ===== verification/SharedRedis.thy ===== *)
theory SharedRedis
  imports Accounts WholeProcess
begin

text \<open>
  The Redis server as both processes use it. The gateway sets \<open>user:<id>:online\<close> for a connection and
  deletes it when the connection ends; the auth service sets the same key at every login. Expiry is not
  counted.
\<close>

section \<open>The keys of both processes\<close>

fun auth_key_step :: "auth_call \<Rightarrow> string set \<Rightarrow> string set" where
  "auth_key_step (CallSetOnline key v ttl) K = insert key K"
| "auth_key_step c K = K"

text \<open>The calls that the auth service makes for a call of the gateway.\<close>

definition made_for :: "transport \<Rightarrow> AuthService \<Rightarrow> auth_world \<Rightarrow> trace \<Rightarrow> call \<Rightarrow> auth_trace" where
  "made_for net svc w h c = drop (length (accounts net svc w h)) (accounts net svc w (h @ [c]))"

primrec shared_rev :: "transport \<Rightarrow> AuthService \<Rightarrow> auth_world \<Rightarrow> call list \<Rightarrow> string set" where
  "shared_rev net svc w [] = {}"
| "shared_rev net svc w (c # rh) = key_step c (fold auth_key_step (made_for net svc w (rev rh) c) (shared_rev net svc w rh))"

definition shared_keys :: "transport \<Rightarrow> AuthService \<Rightarrow> auth_world \<Rightarrow> trace \<Rightarrow> string set" where
  "shared_keys net svc w h = shared_rev net svc w (rev h)"

definition shared_present :: "transport \<Rightarrow> AuthService \<Rightarrow> auth_world \<Rightarrow> trace \<Rightarrow> string set" where
  "shared_present net svc w h = {u. online_key u \<in> shared_keys net svc w h}"

lemma shared_keys_simps [simp]:
  "shared_keys net svc w [] = {}"
  "shared_keys net svc w (h @ [c]) = key_step c (fold auth_key_step (made_for net svc w h c) (shared_keys net svc w h))"
  by (simp_all add: shared_keys_def)

lemma fold_auth_keys: "fold auth_key_step cs K = K \<union> fold auth_key_step cs {}"
proof (induction cs arbitrary: K)
  case (Cons c cs)
  have "auth_key_step c K = K \<union> auth_key_step c {}" by (cases c) auto
  then show ?case using Cons.IH [of "auth_key_step c K"] Cons.IH [of "auth_key_step c {}"] by auto
qed simp

lemma in_key_step: "online_key u \<in> key_step c K \<longleftrightarrow>
   c \<noteq> CallRedisDel (online_key u) \<and> (online_key u \<in> K \<or> (\<exists>v ttl. c = CallRedisSet (online_key u) v ttl))"
  by (cases c) auto

text \<open>The users that a login has marked, with no connection of theirs ended since.\<close>

definition logged_in_since :: "transport \<Rightarrow> AuthService \<Rightarrow> auth_world \<Rightarrow> trace \<Rightarrow> string set" where
  "logged_in_since net svc w h =
     {u. \<exists>h1 v p h2. h = h1 @ [CallLogin v p] @ h2 \<and> online_key u \<in> fold auth_key_step (made_for net svc w h1 (CallLogin v p)) {}
        \<and> CallRedisDel (online_key u) \<notin> set h2}"

lemma only_login_marks:
  assumes "x \<in> fold auth_key_step (made_for net svc w h c) {}"
  shows "\<exists>v p. c = CallLogin v p"
proof (cases c)
  case (CallRegister u p)
  have "fold auth_key_step (drop (length ah) (snd (Register s n u p ah))) {} = {}" for s n ah
    using Register_trace [of s n u p ah] by auto
  then show ?thesis using assms CallRegister by (simp add: made_for_def served_call_def split: if_splits)
qed (use assms in \<open>simp_all add: made_for_def served_call_def split: if_splits\<close>)

lemma logged_in_since_Nil [simp]: "logged_in_since net svc w [] = {}"
  by (simp add: logged_in_since_def)

lemma logged_in_since_snoc:
  "logged_in_since net svc w (h @ [c]) =
     {u. c \<noteq> CallRedisDel (online_key u)
        \<and> (u \<in> logged_in_since net svc w h \<or> online_key u \<in> fold auth_key_step (made_for net svc w h c) {})}"
proof (rule set_eqI, rule iffI)
  fix u
  assume "u \<in> logged_in_since net svc w (h @ [c])"
  then obtain h1 v p h2 where split: "h @ [c] = h1 @ [CallLogin v p] @ h2" "CallRedisDel (online_key u) \<notin> set h2"
      "online_key u \<in> fold auth_key_step (made_for net svc w h1 (CallLogin v p)) {}"
    unfolding logged_in_since_def by blast
  show "u \<in> {u. c \<noteq> CallRedisDel (online_key u)
        \<and> (u \<in> logged_in_since net svc w h \<or> online_key u \<in> fold auth_key_step (made_for net svc w h c) {})}"
  proof (cases h2 rule: rev_cases)
    case Nil
    then show ?thesis using split by simp
  next
    case (snoc h3 d)
    then have "h = h1 @ [CallLogin v p] @ h3" "d = c" using split(1) by auto
    then show ?thesis using split(2,3) snoc unfolding logged_in_since_def by auto
  qed
next
  fix u
  assume "u \<in> {u. c \<noteq> CallRedisDel (online_key u)
        \<and> (u \<in> logged_in_since net svc w h \<or> online_key u \<in> fold auth_key_step (made_for net svc w h c) {})}"
  then have keeps: "c \<noteq> CallRedisDel (online_key u)"
    and "u \<in> logged_in_since net svc w h \<or> online_key u \<in> fold auth_key_step (made_for net svc w h c) {}" by auto
  then show "u \<in> logged_in_since net svc w (h @ [c])"
  proof (elim disjE)
    assume "u \<in> logged_in_since net svc w h"
    then obtain h1 v p h2 where "h = h1 @ [CallLogin v p] @ h2" "CallRedisDel (online_key u) \<notin> set h2"
        "online_key u \<in> fold auth_key_step (made_for net svc w h1 (CallLogin v p)) {}"
      unfolding logged_in_since_def by blast
    then have "h @ [c] = h1 @ [CallLogin v p] @ (h2 @ [c])" "CallRedisDel (online_key u) \<notin> set (h2 @ [c])"
        "online_key u \<in> fold auth_key_step (made_for net svc w h1 (CallLogin v p)) {}"
      using keeps by auto
    then show ?thesis unfolding logged_in_since_def by blast
  next
    assume marked: "online_key u \<in> fold auth_key_step (made_for net svc w h c) {}"
    then obtain v p where "c = CallLogin v p" using only_login_marks by blast
    then have "h @ [c] = h @ [CallLogin v p] @ []" "CallRedisDel (online_key u) \<notin> set []"
        "online_key u \<in> fold auth_key_step (made_for net svc w h (CallLogin v p)) {}"
      using marked by auto
    then show ?thesis unfolding logged_in_since_def by blast
  qed
qed

lemma present_snoc: "u \<in> present (h @ [c]) \<longleftrightarrow>
   c \<noteq> CallRedisDel (online_key u) \<and> (u \<in> present h \<or> (\<exists>v ttl. c = CallRedisSet (online_key u) v ttl))"
  by (simp add: present_def in_key_step)

lemma shared_splits: "shared_present net svc w h = present h \<union> logged_in_since net svc w h"
proof (induction h rule: rev_induct)
  case Nil
  then show ?case by (simp add: shared_present_def present_def)
next
  case (snoc c h)
  have "u \<in> shared_present net svc w (h @ [c]) \<longleftrightarrow> c \<noteq> CallRedisDel (online_key u)
      \<and> (u \<in> shared_present net svc w h \<or> online_key u \<in> fold auth_key_step (made_for net svc w h c) {}
        \<or> (\<exists>v ttl. c = CallRedisSet (online_key u) v ttl))" for u
    using fold_auth_keys [of "made_for net svc w h c" "shared_keys net svc w h"]
    by (auto simp: shared_present_def in_key_step)
  then show ?case using snoc.IH by (auto simp: present_snoc logged_in_since_snoc)
qed

section \<open>Presence in the running system\<close>


text \<open>\<open>bob\<close> registers and logs in by two requests, and nobody connects.\<close>

definition redis_only :: RedisClient where
  "redis_only = \<lparr>rd_Ping = (\<lambda>_. None), rd_RatePipe = (\<lambda>_ _ _ _ _. Inr 0)\<rparr>"

definition mem_process :: gateway_process where
  "mem_process = \<lparr>gp_Server = mem_srv\<lparr>gs_Redis := Some redis_only\<rparr>, gp_Rest = mem_rest, gp_Limiter = NewRateLimiter None,
     gp_Secret = ''key'', gp_Cors = ''*'', gp_Listen = '':8080''\<rparr>"

definition asked :: "nat \<Rightarrow> string \<Rightarrow> process \<Rightarrow> process" where
  "asked k path s = s\<lparr>pr_requests := (pr_requests s)(k \<mapsto> bob_request path)\<rparr>"

definition replied :: "nat \<Rightarrow> string \<Rightarrow> process \<Rightarrow> process" where
  "replied k path s = do_reply k (entry no_outside mem_process 0 web0 (bob_request path) (received (asked k path s))) (asked k path s)"

lemma bob_no_upgrade: "path \<noteq> ''/ws'' \<Longrightarrow> \<not> upgrades no_outside (bob_request path)"
  by (simp add: upgrades_def bob_request_def request_def)

lemma replied_step:
  assumes "pr_result s = None" "\<not> pr_stopping s" "pr_requests s k = None" "pr_replies s k = None" "path \<noteq> ''/ws''"
  shows "rtranclp (pstep no_outside mem_process) s (replied k path s)"
proof -
  have "pstep no_outside mem_process s (asked k path s)"
    unfolding asked_def by (rule pstep.request [OF assms(1-4)])
  moreover have "pstep no_outside mem_process (asked k path s) (replied k path s)"
    unfolding replied_def by (rule pstep.served) (simp_all add: asked_def assms bob_no_upgrade)
  ultimately show ?thesis by (meson rtranclp.rtrancl_into_rtrancl rtranclp.rtrancl_refl)
qed

lemma bob_entry:
  assumes "path = ''/api/register'' \<and> h = rest_Register mem_rest \<or> path = ''/api/login'' \<and> h = rest_Login mem_rest"
  shows "\<exists>w. entry no_outside mem_process c web0 (bob_request path) x = h web0 (bob_request path) (x\<lparr>x_w := w\<rparr>)"
proof -
  have path: "rq_Path (bob_request q) = q" "rq_Method (bob_request q) \<noteq> MethodOptions" for q
    by (simp_all add: bob_request_def request_def MethodOptions_def)
  have limiter: "Limit (gp_Limiter mem_process) key n d h' e r y = h' e r y" and rest: "gp_Rest mem_process = mem_rest" for key n d h' e r y
    by (simp_all add: Limit_def mem_process_def NewRateLimiter_def)
  obtain w where w: "entry no_outside mem_process c web0 (bob_request path) x =
      mux (wo_JWT no_outside) (upgrade_ws (wo_Upgrade no_outside) c) (file_handler no_outside) mem_process web0 (bob_request path) (x\<lparr>x_w := w\<rparr>)"
    using cors_frame [of "gp_Cors mem_process"
        "mux (wo_JWT no_outside) (upgrade_ws (wo_Upgrade no_outside) c) (file_handler no_outside) mem_process" web0 "bob_request path" x]
      path(2) by (auto simp: entry_def serve_def)
  have "mux (wo_JWT no_outside) (upgrade_ws (wo_Upgrade no_outside) c) (file_handler no_outside) mem_process web0 (bob_request path) y
      = h web0 (bob_request path) y" for y
    using assms by (elim disjE conjE) (simp_all add: mux_def Let_def path(1) limiter rest)
  then show ?thesis using w by metis
qed

lemma bob_calls:
  assumes "h = rest_Register mem_rest \<and> k = CallRegister ''bob'' ''secret'' \<or> h = rest_Login mem_rest \<and> k = CallLogin ''bob'' ''secret''"
  shows "x_gw (state_of (h web0 (bob_request path) x)) = log_call k (x_gw x)"
  using assms by (auto simp: rest_Register_def rest_Login_def mem_rest_def log_x_def Let_def split: sum.split)

definition bob_in :: process where
  "bob_in = replied 1 ''/api/login'' (replied 0 ''/api/register'' boot)"

lemma bob_in_run: "rtranclp (pstep no_outside mem_process) boot bob_in"
proof -
  have "rtranclp (pstep no_outside mem_process) boot (replied 0 ''/api/register'' boot)"
    by (rule replied_step) (simp_all add: boot_def)
  moreover have "rtranclp (pstep no_outside mem_process) (replied 0 ''/api/register'' boot) bob_in"
    unfolding bob_in_def by (rule replied_step) (simp_all add: replied_def do_reply_def asked_def boot_def)
  ultimately show ?thesis by (rule rtranclp_trans)
qed

lemma replied_gw:
  assumes "path = ''/api/register'' \<and> k = CallRegister ''bob'' ''secret'' \<or> path = ''/api/login'' \<and> k = CallLogin ''bob'' ''secret''"
  shows "gw (pr_sys (replied n path s)) = log_call k (gw (pr_sys s))"
proof -
  obtain h where h: "path = ''/api/register'' \<and> h = rest_Register mem_rest \<or> path = ''/api/login'' \<and> h = rest_Login mem_rest"
      "h = rest_Register mem_rest \<and> k = CallRegister ''bob'' ''secret'' \<or> h = rest_Login mem_rest \<and> k = CallLogin ''bob'' ''secret''"
    using assms by blast
  obtain v where "entry no_outside mem_process 0 web0 (bob_request path) (received (asked n path s))
      = h web0 (bob_request path) ((received (asked n path s))\<lparr>x_w := v\<rparr>)"
    using bob_entry [OF h(1)] by blast
  then show ?thesis using bob_calls [OF h(2)] by (simp add: replied_def do_reply_def received_def asked_def)
qed

lemma bob_in_gw: "gw (pr_sys bob_in) = log_call (CallLogin ''bob'' ''secret'') (log_call (CallRegister ''bob'' ''secret'') empty_gw)"
  unfolding bob_in_def
  by (simp add: replied_gw [where k = "CallLogin ''bob'' ''secret''"] replied_gw [where k = "CallRegister ''bob'' ''secret''"])
    (simp add: boot_def start_def)

lemma bob_marked: "''0'' \<in> logged_in_since good_net mem_service mem_world [CallRegister ''bob'' ''secret'', CallLogin ''bob'' ''secret'']"
proof -
  let ?h = "[CallRegister ''bob'' ''secret'']"
  have same: "svc_at mem_service mem_world h = mem_service" for h by (simp add: svc_at_def mem_world_def mem_service_def)
  have "snd (AuthService.Login mem_service 0 0 ''bob'' ''secret'' bob_rows) =
      bob_rows @ [CallSelectUser ''bob'', CallSetOnline (online_key ''0'') ''true'' tokenTTL]"
    using Login_success [OF bob_login] bob_select by (auto simp: online_key_def)
  then have "made_for good_net mem_service mem_world ?h (CallLogin ''bob'' ''secret'') =
      [CallSelectUser ''bob'', CallSetOnline (online_key ''0'') ''true'' tokenTTL]"
    using bob_accounts accounts_snoc [of good_net mem_service mem_world ?h "CallLogin ''bob'' ''secret''"]
    by (simp add: made_for_def served_call_def same)
  then have "online_key ''0'' \<in> fold auth_key_step (made_for good_net mem_service mem_world ?h (CallLogin ''bob'' ''secret'')) {}"
    by simp
  then show ?thesis
    using logged_in_since_snoc [of good_net mem_service mem_world ?h "CallLogin ''bob'' ''secret''"] by simp
qed


end
