(* ===== verification/Spec2Isabelle.thy ===== *)
theory Spec2Isabelle
  imports StoreProperties WireProperties LimitProperties ChatSpec InterleavingProperties Atomicity
    TimedProcess SharedRedis
begin

text \<open>
  A verification development for GoChatX, a chat system of two Go programs: the \<^emph>\<open>gateway\<close>
  (\<open>cmd/gateway\<close>, \<open>internal/gateway\<close>, \<open>internal/storage\<close>), which browsers talk to over WebSocket and
  REST, and the \<^emph>\<open>auth service\<close> (\<open>cmd/authsvc\<close>, \<open>internal/auth\<close>), which keeps the accounts and issues
  tokens. The gateway calls the auth service over gRPC (\<open>api\<close>) and uses MongoDB for messages, Redis
  for the rate limiter and presence keys, and MySQL for roles.

  \<^bold>\<open>How the parts interact.\<close> A WebSocket connection is a goroutine \<open>HandleWS\<close> that reads frames, and a
  write goroutine that drains the connection's buffered channel \<open>sendCh\<close>. All connections share the
  table of online users (\<open>clients.go\<close>) and the table of rooms (\<open>room.go\<close>); the entries of both lead to
  the \<open>sendCh\<close> of \<^emph>\<open>other\<close> connections. A connection closes its own channel when it ends, and a send on
  a closed channel panics, so the central question is whether an entry can outlive its connection.

  \<^bold>\<open>Conventions\<close> (\<open>GoPrelude\<close>). A call that may panic returns \<open>'a go\<close>: \<open>Returns s\<close> or \<open>Panics s\<close>,
  both with the state reached. A pointer is a natural number and a store is a function from pointers
  to records, so aliasing is as in the code. A Go map is a partial map, and the order in which a
  \<open>range\<close> loop visits it is a parameter, any list that \<open>range_order\<close> allows. The strings are byte
  strings. Timestamps and limits are integers; where Go's \<open>int64\<close> matters, as in a decoded limit, the
  range is a hypothesis or a check. Code outside the repository is a parameter: a record of replies,
  each a function of the trace of calls made so far (\<open>Services\<close>, \<open>AuthService\<close>, \<open>Http\<close>, \<open>Startup\<close>).
  What a proof needs of such code is a named law (\<open>mongo_laws\<close>, \<open>rate_laws\<close>, the laws of the users
  table, of the token library and of \<open>bcrypt\<close> in \<open>AuthService\<close>, of the protobuf codec and the gRPC
  channel in \<open>RpcStubs\<close>); instances in memory show that the laws can hold. The names in the users table
  are compared under a collation, any equivalence, since MySQL decides what counts as the same name.

  \<^bold>\<open>The model and its sources.\<close>
  \<^item> \<open>GoText\<close>, \<open>Json\<close>, \<open>JsonRoundtrip\<close>, \<open>JsonFuel\<close>: \<open>strings\<close>, decimal numbers, UTF-8 and the part of
    \<open>encoding/json\<close> that is used. Printing and parsing are inverse up to the replacement of bytes that
    are no UTF-8. The parser takes fuel, \<open>2 * length + 2\<close>; \<open>JsonFuel\<close> shows that more changes nothing.
    The nesting limit of 10000 is the library's own.
  \<^item> \<open>Wire\<close>, \<open>Frames\<close>: \<open>WSMsg\<close>, the payloads and \<open>ChatMessage\<close>, with what can be read in each frame.
  \<^item> \<open>Channels\<close>, \<open>Clients\<close>, \<open>Rooms\<close>: \<open>sendCh\<close> with its capacity of 256, \<open>clients.go\<close> and \<open>room.go\<close>.
    The locales \<open>delivery\<close>, \<open>registry\<close> and \<open>listed_registry\<close> are their interfaces, interpreted on the
    operations of the code. \<open>abs_rooms\<close> is the abstract view: room IDs to member tables.
  \<^item> \<open>Storage\<close>, \<open>MemStore\<close>: \<open>mango.go\<close>, with its limit of 200 messages per pull, and a collection in memory.
  \<^item> \<open>WsHandle\<close>: \<open>ws_handle.go\<close>, one definition per message type, the dispatch and the cleanup.
    \<open>WsFacts\<close> and \<open>WsSafety\<close> show that a handler cannot panic in a state with \<open>tables_ok\<close> and keeps it;
    \<open>HandlerFrame\<close> shows, once for any relation between states, what no handler can do.
  \<^item> \<open>Gateway\<close>: all goroutines of the process as a step relation \<open>gstep\<close> with one message per step;
    \<open>id_step\<close> restricts it to runs in which no connection changes its user ID. \<open>Interleaving\<close> is the
    same process with one critical section per step (\<open>istep\<close>), where a goroutine may be delayed
    between looking up a room or client and using it. \<open>Atomicity\<close> shows that every \<open>id_step\<close> run is an
    \<open>istep\<close> run. The locale \<open>invariant_system\<close> carries the invariants of both.
  \<^item> \<open>Heartbeat\<close>: the same process with a clock, the read deadline of 60 seconds, the ping goroutine with
    its period of 30 seconds and the final wait of 12 seconds; every timed run is a run of \<open>gstep\<close>.
  \<^item> \<open>Http\<close>, \<open>Middleware\<close>, \<open>RestApi\<close>: the requests and the response writer, \<open>middleware.go\<close> and \<open>api.go\<close>.
    \<open>Decoded\<close>: what a decoded body or frame can hold, namely valid UTF-8 and limits of 64 bits.
  \<^item> \<open>AuthService\<close>, \<open>AuthRpc\<close>: \<open>service.go\<close>, and the auth service as the gateway sees it.
  \<^item> \<open>RpcStubs\<close>: \<open>auth_grpc.pb.go\<close>, that is the client stubs, the descriptor of the service, its handlers
    and the unimplemented server, between a codec and a channel that are parameters.
  \<^item> \<open>Accounts\<close>: both programs over one users table, which the calls of the gateway change.
  \<^item> \<open>Startup\<close>: \<open>main.go\<close> of both programs, that is configuration, connections, exits and routes.
    \<open>Serving\<close>: the rest of them, that is the server loop with the requests and the upgrades it
    handles, the signals, the shutdown and the deferred closes: the process \<open>pstep\<close> around \<open>gstep\<close>.
    \<open>RestFrame\<close> shows, once for any relation between states, what no request can do.
    \<open>WholeProcess\<close>: the locale \<open>process_invariant\<close> lifts an invariant of the connections to \<open>pstep\<close>.
    \<open>TimedProcess\<close>: \<open>pstep\<close> with the clocks of \<open>Heartbeat\<close>, one step relation \<open>tpstep\<close> for all of it.
    \<open>SharedRedis\<close>: the keys that both processes write in the one Redis.

  \<^bold>\<open>What is shown.\<close>
  \<^item> The connections (\<open>SystemProperties\<close>, \<open>Delivery\<close>, \<open>Lifecycle\<close>, \<open>InterleavingProperties\<close>,
    \<open>Atomicity\<close>): no panic and only live entries as long as no connection changes its user ID, also
    under interleaving for entries that are in a table; frames can be drained. The counterparts:
    authenticating twice crashes the gateway, a stale pointer can crash it without that, a join can be
    lost, and a second connection of a user is forgotten.
  \<^item> Their specification (\<open>ChatSpec\<close>): who is authenticated where, where a user is reached and who sits in
    which room, changed by five events. The locale \<open>simulation\<close> carries the refinement.
  \<^item> The whole gateway process (\<open>Serving\<close>, \<open>WholeProcess\<close>, \<open>AuthBudget\<close>, \<open>Presence\<close>), with requests to
    all endpoints and the shutdown beside the connections: there is still no panic and every entry is
    live; every step is one event of the chat, or none; frames are written in order and are typed; a
    channel is closed exactly when its connection ends; no message is stored twice or in another name;
    the calls of the auth service are bounded by the number of connections; the presence keys mirror
    the online table. A request cannot touch the chat, but for a ban, and a shutdown cuts off what is
    pending.
  \<^item> Time (\<open>HeartbeatProperties\<close>, \<open>TimedProcess\<close>): whoever is online was heard in the last minute, a
    client that answers its pings stays, and the final wait always takes its 12 seconds. Time is never
    stuck: \<open>time_never_stuck\<close>.
  \<^item> Both processes (\<open>RpcProperties\<close>, \<open>Accounts\<close>, \<open>SharedRedis\<close>): the generated stubs give the gateway
    the replies of the service's own methods; an account that was registered can log in and open a
    chat until its token expires; a login marks a user as online who has no connection; a banned
    account keeps its access to the uploads.
  \<^item> Messages (\<open>ChatProperties\<close>, \<open>RoomProperties\<close>, \<open>PrivateProperties\<close>, \<open>StoreProperties\<close>,
    \<open>WireProperties\<close>, \<open>Conservation\<close>): who is admitted, who receives what, what is stored, once and under
    whose name, and what is lost; the room operations refine the abstract map; the round trips of the
    wire format, and that the text a client sends is the text another one reads.
  \<^item> REST, limits and accounts (\<open>RestProperties\<close>, \<open>AdminProperties\<close>, \<open>LimitProperties\<close>,
    \<open>AuthProperties\<close>, \<open>DeploymentProperties\<close>): the guards of the administration, the ban, uploads, the
    limiter as a sliding window, registration and tokens, and the path across both processes.

  \<^bold>\<open>Not modelled.\<close> A write to a connection takes no time, so its deadline of 10 seconds has no counterpart,
  and neither has the time a handler spends in a service. \<open>removeEmptyRoom\<close> is one section: a member
  that joins the object between its count and its removal is as lost as one that joins right after it,
  since the table is locked in between. Logging, the listening sockets, TLS, the HTTP time limits,
  redirects of the router, the two file servers, the parsing of multipart forms (its result is a field
  of the request), the web client, nginx and the container files are left out. The encoding of protobuf
  messages is a parameter with a round trip as its law, and the rest of \<open>auth.pb.go\<close>, that is reflection,
  getters and resets, is generated and not called. The Redis pipeline of the limiter is one call, as
  it is for a single client; expiry of its key is not modelled, since what expires is outside the
  window, and the online key of the auth service is there for the 24 hours a run is taken to last.

  A request of the REST interface is one step, and the disconnects of the ban endpoint are possible at
  any time. The runs with one critical section per step (\<open>istep\<close>) have neither clocks nor requests: what
  they add, stale pointers and lost joins, is between the handlers of connections.
\<close>

end
